(* ===== verification/Prelude.thy ===== *)
theory Prelude
  imports Main "HOL-Library.Word"
begin

text \<open>
  Shared vocabulary of the development.

  A kernel function of the C sources is modelled as a function from the kernel state to an
  outcome. There are four outcomes, one for every way control can leave a C function here:
  it returns a value, it gives up the processor in \<open>sched\<close>, it calls \<open>panic\<close>, or a loop
  runs longer than the bound of its model. Giving up the processor carries the continuation,
  a function of the state in which the process is next chosen to run, so that a blocking
  function is one definition as in the code. The last outcome stands for a loop that the model
  does not show to end; the theories prove that it does not occur where that matters.

  The theory also holds the two weakest-precondition transformers (total and partial) that
  the component theories use, the collections of their rules, and generic lemmas on lists.
\<close>

section \<open>Outcomes and the kernel monad\<close>

datatype ('a, 's) kres =
    Ret 'a 's                            \<comment> \<open>the function returned\<close>
  | Switch 's "'s \<Rightarrow> ('a, 's) kres"     \<comment> \<open>off the processor; what it does when it runs again\<close>
  | Panic string                         \<comment> \<open>the kernel called \<open>panic\<close> with this message\<close>
  | NoFuel                               \<comment> \<open>a loop exceeded the bound of its model\<close>

primrec kres_bind :: "('a, 's) kres \<Rightarrow> ('a \<Rightarrow> 's \<Rightarrow> ('b, 's) kres) \<Rightarrow> ('b, 's) kres" where
  "kres_bind (Ret x s) k = k x s"
| "kres_bind (Switch s c) k = Switch s (\<lambda>t. kres_bind (c t) k)"
| "kres_bind (Panic e) k = Panic e"
| "kres_bind NoFuel k = NoFuel"

type_synonym ('s, 'a) km = "'s \<Rightarrow> ('a, 's) kres"

definition kret :: "'a \<Rightarrow> ('s, 'a) km" where
  "kret x = (\<lambda>s. Ret x s)"

definition kpanic :: "string \<Rightarrow> ('s, 'a) km" where
  "kpanic e = (\<lambda>s. Panic e)"

definition kbind :: "('s, 'a) km \<Rightarrow> ('a \<Rightarrow> ('s, 'b) km) \<Rightarrow> ('s, 'b) km" where
  "kbind m k = (\<lambda>s. kres_bind (m s) k)"

text \<open>Sequencing of two statements, reading the state, and updating it.\<close>

definition kthen :: "('s, 'a) km \<Rightarrow> ('s, 'b) km \<Rightarrow> ('s, 'b) km" where
  "kthen m k = kbind m (\<lambda>_. k)"

definition kget :: "('s \<Rightarrow> 'a) \<Rightarrow> ('s, 'a) km" where
  "kget f = (\<lambda>s. Ret (f s) s)"

definition kmod :: "('s \<Rightarrow> 's) \<Rightarrow> ('s, unit) km" where
  "kmod f = (\<lambda>s. Ret () (f s))"

definition kwhen :: "bool \<Rightarrow> ('s, unit) km \<Rightarrow> ('s, unit) km" where
  "kwhen b m = (if b then m else kret ())"

text \<open>A counted loop without early exit.\<close>

fun kfor :: "'i list \<Rightarrow> ('i \<Rightarrow> ('s, unit) km) \<Rightarrow> ('s, unit) km" where
  "kfor [] f = kret ()"
| "kfor (i # is) f = kthen (f i) (kfor is f)"

named_theorems kdefs \<open>definitions of the monad's operations\<close>

declare kret_def [kdefs] kpanic_def [kdefs] kbind_def [kdefs] kthen_def [kdefs]
  kget_def [kdefs] kmod_def [kdefs] kwhen_def [kdefs]

lemma kret_app [simp]: "kret x s = Ret x s"
  by (simp add: kret_def)

lemma kpanic_app [simp]: "kpanic e s = Panic e"
  by (simp add: kpanic_def)

lemma kget_app [simp]: "kget f s = Ret (f s) s"
  by (simp add: kget_def)

lemma kmod_app [simp]: "kmod f s = Ret () (f s)"
  by (simp add: kmod_def)

lemma kbind_Ret [simp]: "m s = Ret x s' \<Longrightarrow> kbind m k s = k x s'"
  by (simp add: kbind_def)

lemma kbind_Switch [simp]: "m s = Switch s' c \<Longrightarrow> kbind m k s = Switch s' (kbind c k)"
  by (simp add: kbind_def)

lemma kbind_Panic [simp]: "m s = Panic e \<Longrightarrow> kbind m k s = Panic e"
  by (simp add: kbind_def)

lemma kthen_Ret [simp]: "m s = Ret x s' \<Longrightarrow> kthen m k s = k s'"
  by (simp add: kthen_def)

lemma kthen_Switch [simp]: "m s = Switch s' c \<Longrightarrow> kthen m k s = Switch s' (kthen c k)"
  by (simp add: kthen_def)

lemma kthen_Panic [simp]: "m s = Panic e \<Longrightarrow> kthen m k s = Panic e"
  by (simp add: kthen_def)

lemma kbind_assoc: "kbind (kbind m f) g = kbind m (\<lambda>x. kbind (f x) g)"
proof
  fix s
  have "kres_bind (kres_bind r f) g = kres_bind r (\<lambda>x t. kres_bind (f x t) g)" for r
    by (induction r) auto
  then show "kbind (kbind m f) g s = kbind m (\<lambda>x. kbind (f x) g) s" by (simp add: kbind_def)
qed

lemma kseq_prims [simp]:
  "kbind (kret x) k s = k x s" "kbind (kpanic e) k s = Panic e" "kbind (kget f) k s = k (f s) s"
  "kthen (kret x) m s = m s" "kthen (kpanic e) m s = Panic e" "kthen (kmod g) m s = m (g s)"
  by (simp_all add: kret_def kpanic_def kget_def kmod_def)

lemma kwhen_True [simp]: "kwhen True m = m"
  by (simp add: kwhen_def)

lemma kwhen_False [simp]: "kwhen False m = kret ()"
  by (simp add: kwhen_def)

lemma kbind_RetE:
  assumes "kbind m k s = Ret y t"
  obtains x s' where "m s = Ret x s'" "k x s' = Ret y t"
  using assms by (cases "m s") (auto simp: kbind_def)

lemma kthen_RetE:
  assumes "kthen m k s = Ret y t"
  obtains x s' where "m s = Ret x s'" "k s' = Ret y t"
  using assms by (auto simp: kthen_def elim: kbind_RetE)

section \<open>Weakest preconditions\<close>

text \<open>
  \<open>wp m Q R s\<close>: run from \<open>s\<close>, \<open>m\<close> neither panics nor exceeds a loop bound; if it returns,
  \<open>Q\<close> holds of the value and the state, and if it gives up the processor, \<open>R\<close> holds of the
  state at that point.
  \<open>wlp\<close> is the partial version, which says nothing of a panic.
\<close>

definition wp :: "('s, 'a) km \<Rightarrow> ('a \<Rightarrow> 's \<Rightarrow> bool) \<Rightarrow> ('s \<Rightarrow> bool) \<Rightarrow> 's \<Rightarrow> bool" where
  "wp m Q R s = (case m s of Ret x s' \<Rightarrow> Q x s' | Switch s' c \<Rightarrow> R s' | Panic e \<Rightarrow> False | NoFuel \<Rightarrow> False)"

definition wlp :: "('s, 'a) km \<Rightarrow> ('a \<Rightarrow> 's \<Rightarrow> bool) \<Rightarrow> ('s \<Rightarrow> bool) \<Rightarrow> 's \<Rightarrow> bool" where
  "wlp m Q R s = (case m s of Ret x s' \<Rightarrow> Q x s' | Switch s' c \<Rightarrow> R s' | Panic e \<Rightarrow> True | NoFuel \<Rightarrow> True)"

named_theorems wp_rules \<open>rules of the two weakest-precondition transformers\<close>

lemma wp_kret [wp_rules, simp]: "wp (kret x) Q R s = Q x s"
  by (simp add: wp_def)

lemma wp_Ret [simp]: "wp (Ret x) Q R s = Q x s"
  by (simp add: wp_def)

lemma wlp_Ret [simp]: "wlp (Ret x) Q R s = Q x s"
  by (simp add: wlp_def)

lemma wp_kpanic [wp_rules, simp]: "wp (kpanic e) Q R s = False"
  by (simp add: wp_def)

lemma wp_kget [wp_rules, simp]: "wp (kget f) Q R s = Q (f s) s"
  by (simp add: wp_def)

lemma wp_kmod [wp_rules, simp]: "wp (kmod f) Q R s = Q () (f s)"
  by (simp add: wp_def)

lemma wp_kbind [wp_rules, simp]: "wp (kbind m k) Q R s = wp m (\<lambda>x. wp (k x) Q R) R s"
  by (simp add: wp_def kbind_def split: kres.splits)

lemma wp_kthen [wp_rules, simp]: "wp (kthen m k) Q R s = wp m (\<lambda>x. wp k Q R) R s"
  by (simp add: kthen_def)

lemma wp_kwhen [wp_rules, simp]: "wp (kwhen b m) Q R s = (if b then wp m Q R s else Q () s)"
  by (simp add: kwhen_def)

lemma wlp_kret [wp_rules, simp]: "wlp (kret x) Q R s = Q x s"
  by (simp add: wlp_def)

lemma wlp_kpanic [wp_rules, simp]: "wlp (kpanic e) Q R s = True"
  by (simp add: wlp_def)

lemma wlp_kget [wp_rules, simp]: "wlp (kget f) Q R s = Q (f s) s"
  by (simp add: wlp_def)

lemma wlp_kmod [wp_rules, simp]: "wlp (kmod f) Q R s = Q () (f s)"
  by (simp add: wlp_def)

lemma wlp_kbind [wp_rules, simp]: "wlp (kbind m k) Q R s = wlp m (\<lambda>x. wlp (k x) Q R) R s"
  by (simp add: wlp_def kbind_def split: kres.splits)

lemma wlp_kthen [wp_rules, simp]: "wlp (kthen m k) Q R s = wlp m (\<lambda>x. wlp k Q R) R s"
  by (simp add: kthen_def)

lemma wlp_kwhen [wp_rules, simp]: "wlp (kwhen b m) Q R s = (if b then wlp m Q R s else Q () s)"
  by (simp add: kwhen_def)

lemma wp_mono:
  "wp m Q R s \<Longrightarrow> (\<And>x t. Q x t \<Longrightarrow> Q' x t) \<Longrightarrow> (\<And>t. R t \<Longrightarrow> R' t) \<Longrightarrow> wp m Q' R' s"
  by (auto simp: wp_def split: kres.splits)

lemma wlp_mono:
  "wlp m Q R s \<Longrightarrow> (\<And>x t. Q x t \<Longrightarrow> Q' x t) \<Longrightarrow> (\<And>t. R t \<Longrightarrow> R' t) \<Longrightarrow> wlp m Q' R' s"
  by (auto simp: wlp_def split: kres.splits)

lemma wp_wlp: "wp m Q R s \<Longrightarrow> wlp m Q R s"
  by (auto simp: wp_def wlp_def split: kres.splits)

lemma wp_conj: "wp m Q R s \<Longrightarrow> wlp m Q' R' s \<Longrightarrow> wp m (\<lambda>x t. Q x t \<and> Q' x t) (\<lambda>t. R t \<and> R' t) s"
  by (auto simp: wp_def wlp_def split: kres.splits)

lemma wlp_RetD: "wlp m Q R s \<Longrightarrow> m s = Ret x t \<Longrightarrow> Q x t"
  by (simp add: wlp_def)

lemma wlp_SwitchD: "wlp m Q R s \<Longrightarrow> m s = Switch t c \<Longrightarrow> R t"
  by (simp add: wlp_def)

lemma wp_RetI: "m s = Ret x t \<Longrightarrow> Q x t \<Longrightarrow> wp m Q R s"
  by (simp add: wp_def)

lemma wlp_RetI: "m s = Ret x t \<Longrightarrow> Q x t \<Longrightarrow> wlp m Q R s"
  by (simp add: wlp_def)

lemma wp_RetE:
  assumes "wp m Q (\<lambda>_. False) s"
  obtains x t where "m s = Ret x t" "Q x t"
  using assms by (cases "m s") (auto simp: wp_def)

text \<open>Rule for a counted loop: the body keeps an invariant.\<close>

lemma wlp_kfor:
  assumes "\<And>i s. i \<in> set is \<Longrightarrow> I s \<Longrightarrow> wlp (f i) (\<lambda>_. I) R s"
    and "I s"
  shows "wlp (kfor is f) (\<lambda>_. I) R s"
  using assms
proof (induction "is" arbitrary: s)
  case Nil
  then show ?case by simp
next
  case (Cons i "is")
  have "wlp (f i) (\<lambda>_. I) R s" using Cons.prems by simp
  then have "wlp (f i) (\<lambda>_. wlp (kfor is f) (\<lambda>_. I) R) R s"
    by (rule wlp_mono) (use Cons in auto)
  then show ?case by simp
qed

section \<open>Frames\<close>

text \<open>
  \<open>keeps R m\<close>: in every run of \<open>m\<close>, each stretch from one point where the function starts or
  resumes to the next point where it gives up the processor or returns relates the state at its
  beginning to the state at its end by \<open>R\<close>. Nothing is assumed of what other processes do
  in between. For a reflexive and transitive \<open>R\<close> this passes through every construct of the
  monad; the locale states it once for all frames and invariants.
\<close>

primrec stretches :: "('s \<Rightarrow> 's \<Rightarrow> bool) \<Rightarrow> ('a, 's) kres \<Rightarrow> 's \<Rightarrow> bool" where
  "stretches R (Ret x t) s0 \<longleftrightarrow> R s0 t"
| "stretches R (Switch t c) s0 \<longleftrightarrow> R s0 t \<and> (\<forall>u. stretches R (c u) u)"
| "stretches R (Panic e) s0 \<longleftrightarrow> True"
| "stretches R NoFuel s0 \<longleftrightarrow> True"

definition keeps :: "('s \<Rightarrow> 's \<Rightarrow> bool) \<Rightarrow> ('s, 'a) km \<Rightarrow> bool" where
  "keeps R m \<longleftrightarrow> (\<forall>s. stretches R (m s) s)"

lemma keepsI: "(\<And>s. stretches R (m s) s) \<Longrightarrow> keeps R m"
  by (simp add: keeps_def)

lemma keepsD: "keeps R m \<Longrightarrow> stretches R (m s) s"
  by (simp add: keeps_def)

lemma keeps_RetD: "keeps R m \<Longrightarrow> m s = Ret x t \<Longrightarrow> R s t"
  by (drule keepsD [of _ _ s]) simp

lemma keeps_SwitchD: "keeps R m \<Longrightarrow> m s = Switch t c \<Longrightarrow> R s t"
  by (drule keepsD [of _ _ s]) simp

lemma keeps_resume: "keeps R m \<Longrightarrow> m s = Switch t c \<Longrightarrow> keeps R c"
  by (drule keepsD [of _ _ s]) (simp add: keeps_def)

lemma keeps_wlpI: "(\<And>s. wlp m (\<lambda>_. R s) (\<lambda>_. False) s) \<Longrightarrow> keeps R m"
proof (rule keepsI)
  fix s
  assume "\<And>s. wlp m (\<lambda>_. R s) (\<lambda>_. False) s"
  then have "wlp m (\<lambda>_. R s) (\<lambda>_. False) s" .
  then show "stretches R (m s) s" by (cases "m s") (simp_all add: wlp_def)
qed

lemma stretches_mono: "stretches R r s0 \<Longrightarrow> (\<And>s t. R s t \<Longrightarrow> R' s t) \<Longrightarrow> stretches R' r s0"
  by (induction r arbitrary: s0) auto

lemma keeps_weaken: "keeps R m \<Longrightarrow> (\<And>s t. R s t \<Longrightarrow> R' s t) \<Longrightarrow> keeps R' m"
  unfolding keeps_def by (blast intro: stretches_mono)

locale frame_relation =
  fixes R :: "'s \<Rightarrow> 's \<Rightarrow> bool"
  assumes R_refl: "R s s"
    and R_trans: "R s t \<Longrightarrow> R t u \<Longrightarrow> R s u"
begin

lemma stretches_from: "stretches R r s \<Longrightarrow> R s0 s \<Longrightarrow> stretches R r s0"
  by (cases r) (auto intro: R_trans)

lemma stretches_bind:
  "stretches R r s0 \<Longrightarrow> (\<And>x. keeps R (k x)) \<Longrightarrow> stretches R (kres_bind r k) s0"
proof (induction r arbitrary: s0)
  case (Ret x t)
  then have "stretches R (k x t) t" "R s0 t" by (simp_all add: keepsD)
  then show ?case by (simp add: stretches_from)
qed auto

lemma keeps_kbind: "keeps R m \<Longrightarrow> (\<And>x. keeps R (k x)) \<Longrightarrow> keeps R (kbind m k)"
  by (rule keepsI) (simp add: kbind_def stretches_bind keepsD)

lemma keeps_kret: "keeps R (kret x)"
  by (simp add: keeps_def R_refl)

lemma keeps_Ret: "keeps R (Ret x)"
  by (simp add: keeps_def R_refl)

lemma keeps_kpanic: "keeps R (kpanic e)"
  by (simp add: keeps_def)

lemma keeps_NoFuel: "keeps R (\<lambda>s. NoFuel)"
  by (simp add: keeps_def)

lemma keeps_kget: "keeps R (kget f)"
  by (simp add: keeps_def R_refl)

lemma keeps_kmod: "(\<And>s. R s (f s)) \<Longrightarrow> keeps R (kmod f)"
  by (simp add: keeps_def)

lemma keeps_kthen: "keeps R m \<Longrightarrow> keeps R k \<Longrightarrow> keeps R (kthen m k)"
  unfolding kthen_def by (rule keeps_kbind)

lemma keeps_kwhen: "(b \<Longrightarrow> keeps R m) \<Longrightarrow> keeps R (kwhen b m)"
  by (simp add: kwhen_def keeps_kret)

lemma keeps_if: "(b \<Longrightarrow> keeps R m) \<Longrightarrow> (\<not> b \<Longrightarrow> keeps R k) \<Longrightarrow> keeps R (if b then m else k)"
  by simp

lemma keeps_option:
  "(p = None \<Longrightarrow> keeps R m) \<Longrightarrow> (\<And>x. p = Some x \<Longrightarrow> keeps R (k x)) \<Longrightarrow>
   keeps R (case p of None \<Rightarrow> m | Some x \<Rightarrow> k x)"
  by (cases p) auto

lemma keeps_prod: "(\<And>x y. p = (x, y) \<Longrightarrow> keeps R (k x y)) \<Longrightarrow> keeps R (case p of (x, y) \<Rightarrow> k x y)"
  by (cases p) auto

lemma keeps_let: "(\<And>x. keeps R (k x)) \<Longrightarrow> keeps R (let x = v in k x)"
  by simp

lemma keeps_kfor: "(\<And>i. i \<in> set is \<Longrightarrow> keeps R (f i)) \<Longrightarrow> keeps R (kfor is f)"
  by (induction "is") (auto intro: keeps_kret keeps_kthen)

lemmas keeps_intros = keeps_kret keeps_Ret keeps_kpanic keeps_NoFuel keeps_kget keeps_kbind
  keeps_kthen keeps_kwhen keeps_if keeps_option keeps_prod keeps_let keeps_kfor

end

section \<open>Searching tables\<close>

text \<open>
  Many loops of the kernel look for the first entry of a table with a property, the \<open>goto found\<close> of
  \<open>allocproc\<close> for one.
\<close>

fun first_index :: "('a \<Rightarrow> bool) \<Rightarrow> 'a list \<Rightarrow> nat option" where
  "first_index P [] = None"
| "first_index P (x # xs) = (if P x then Some 0 else map_option Suc (first_index P xs))"

lemma first_index_None [simp]: "first_index P xs = None \<longleftrightarrow> (\<forall>x \<in> set xs. \<not> P x)"
  by (induction xs) auto

lemma first_index_Some:
  "first_index P xs = Some i \<longleftrightarrow> i < length xs \<and> P (xs ! i) \<and> (\<forall>j < i. \<not> P (xs ! j))"
proof (induction xs arbitrary: i)
  case Nil
  then show ?case by simp
next
  case (Cons x xs)
  then show ?case
    by (cases i) (auto simp: less_Suc_eq_0_disj)
qed

lemma first_indexD:
  assumes "first_index P xs = Some i"
  shows "i < length xs" "P (xs ! i)" "\<And>j. j < i \<Longrightarrow> \<not> P (xs ! j)"
  using assms by (auto simp: first_index_Some)

lemma first_index_cong: "map P xs = map Q ys \<Longrightarrow> first_index P xs = first_index Q ys"
proof (induction xs arbitrary: ys)
  case Nil
  then show ?case by simp
next
  case (Cons x xs)
  then obtain y ys' where "ys = y # ys'" by (cases ys) auto
  with Cons show ?case by auto
qed

lemma nth_list_update_if:
  "i < length xs \<Longrightarrow> (xs[i := v]) ! j = (if i = j then v else xs ! j)"
  by simp

lemma map_list_update_same:
  "f v = f (xs ! i) \<Longrightarrow> map f (xs[i := v]) = map f xs"
  by (metis list_update_id map_update)

end
