(* ===== verification/Machine.thy ===== *)
theory Machine
  imports Prelude
begin

unbundle bit_operations_syntax

text \<open>
  The machine seen by the C sources: the integer types of \<open>types.h\<close>, the constants of
  \<open>param.h\<close> and \<open>memlayout.h\<close>, the address arithmetic of \<open>mmu.h\<close>, and byte-addressed
  memory with little-endian 16- and 32-bit accesses. The lemmas give the page-rounding
  macros their arithmetic meaning and the round trips of the memory accesses.
\<close>

section \<open>Integers and parameters\<close>

type_synonym u8 = "8 word"
type_synonym u16 = "16 word"
type_synonym u32 = "32 word"

definition NPROC :: nat where "NPROC = 64"
definition KSTACKSIZE :: u32 where "KSTACKSIZE = 4096"
definition NCPU :: nat where "NCPU = 8"
definition NOFILE :: nat where "NOFILE = 16"
definition NFILE :: nat where "NFILE = 100"
definition NINODE :: nat where "NINODE = 50"
definition NDEV :: int where "NDEV = 10"
definition ROOTDEV :: u32 where "ROOTDEV = 1"
definition MAXARG :: nat where "MAXARG = 32"
definition MAXOPBLOCKS :: int where "MAXOPBLOCKS = 10"
definition LOGSIZE :: int where "LOGSIZE = MAXOPBLOCKS * 3"
definition NBUF :: nat where "NBUF = nat (MAXOPBLOCKS * 3)"
definition FSSIZE :: u32 where "FSSIZE = 1000"

lemmas param_defs = NPROC_def KSTACKSIZE_def NCPU_def NOFILE_def NFILE_def NINODE_def NDEV_def
  ROOTDEV_def MAXARG_def MAXOPBLOCKS_def LOGSIZE_def NBUF_def FSSIZE_def

section \<open>Memory layout\<close>

definition EXTMEM :: u32 where "EXTMEM = 0x100000"
definition PHYSTOP :: u32 where "PHYSTOP = 0xE000000"
definition DEVSPACE :: u32 where "DEVSPACE = 0xFE000000"
definition KERNBASE :: u32 where "KERNBASE = 0x80000000"
definition KERNLINK :: u32 where "KERNLINK = KERNBASE + EXTMEM"

definition V2P :: "u32 \<Rightarrow> u32" where "V2P a = a - KERNBASE"
definition P2V :: "u32 \<Rightarrow> u32" where "P2V a = a + KERNBASE"

lemmas layout_defs = EXTMEM_def PHYSTOP_def DEVSPACE_def KERNBASE_def KERNLINK_def

lemma V2P_P2V [simp]: "V2P (P2V a) = a"
  by (simp add: V2P_def P2V_def)

lemma P2V_V2P [simp]: "P2V (V2P a) = a"
  by (simp add: V2P_def P2V_def)

section \<open>Pages and page-table entries\<close>

definition PGSIZE :: u32 where "PGSIZE = 4096"
definition NPDENTRIES :: nat where "NPDENTRIES = 1024"
definition NPTENTRIES :: nat where "NPTENTRIES = 1024"
definition PTXSHIFT :: nat where "PTXSHIFT = 12"
definition PDXSHIFT :: nat where "PDXSHIFT = 22"

definition PDX :: "u32 \<Rightarrow> u32" where "PDX va = drop_bit PDXSHIFT va AND 0x3FF"
definition PTX :: "u32 \<Rightarrow> u32" where "PTX va = drop_bit PTXSHIFT va AND 0x3FF"

definition PGADDR :: "u32 \<Rightarrow> u32 \<Rightarrow> u32 \<Rightarrow> u32" where
  "PGADDR d t off = (push_bit PDXSHIFT d OR push_bit PTXSHIFT t OR off)"

definition PGROUNDUP :: "u32 \<Rightarrow> u32" where
  "PGROUNDUP sz = (sz + PGSIZE - 1) AND NOT (PGSIZE - 1)"

definition PGROUNDDOWN :: "u32 \<Rightarrow> u32" where
  "PGROUNDDOWN a = a AND NOT (PGSIZE - 1)"

definition PTE_P :: u32 where "PTE_P = 0x001"
definition PTE_W :: u32 where "PTE_W = 0x002"
definition PTE_U :: u32 where "PTE_U = 0x004"
definition PTE_PS :: u32 where "PTE_PS = 0x080"

definition PTE_ADDR :: "u32 \<Rightarrow> u32" where "PTE_ADDR pte = pte AND NOT 0xFFF"
definition PTE_FLAGS :: "u32 \<Rightarrow> u32" where "PTE_FLAGS pte = pte AND 0xFFF"

lemmas page_defs = PGSIZE_def NPDENTRIES_def NPTENTRIES_def PTXSHIFT_def PDXSHIFT_def
lemmas pte_defs = PTE_P_def PTE_W_def PTE_U_def PTE_PS_def

lemma mask10: "(0x3FF :: u32) = mask 10"
  by (simp add: mask_eq_exp_minus_1)

lemma mask12: "(0xFFF :: u32) = mask 12"
  by (simp add: mask_eq_exp_minus_1)

text \<open>Page alignment as the C code tests it, and as a fact on numbers.\<close>

definition page_aligned :: "u32 \<Rightarrow> bool" where
  "page_aligned a \<longleftrightarrow> a mod PGSIZE = 0"

lemma page_mask: "NOT (PGSIZE - 1) = NOT (mask 12)"
  by (simp add: PGSIZE_def mask_eq_exp_minus_1)

lemma page_aligned_iff: "page_aligned a \<longleftrightarrow> 4096 dvd unat a"
proof -
  have "a mod 4096 = 0 \<longleftrightarrow> unat (a mod 4096) = 0" by (simp add: unat_eq_zero)
  also have "unat (a mod 4096) = unat a mod 4096" by (simp add: unat_mod_distrib)
  finally show ?thesis by (simp add: page_aligned_def PGSIZE_def dvd_eq_mod_eq_0)
qed

lemma page_floor_bound: "(unat a div 4096) * 4096 < 2 ^ 32" for a :: u32
proof -
  have "(unat a div 4096) * 4096 \<le> unat a" by simp
  also have "\<dots> < 2 ^ 32" using unsigned_less [of a] by simp
  finally show ?thesis .
qed

lemma unat_and_page_mask: "unat (a AND NOT (mask 12)) = (unat a div 4096) * 4096" for a :: u32
proof -
  have "a AND NOT (mask 12) = push_bit 12 (drop_bit 12 a)"
    by (rule bit_word_eqI) (auto simp: bit_simps)
  also have "\<dots> = (a div 4096) * 4096"
    by (simp add: push_bit_eq_mult drop_bit_eq_div)
  finally show ?thesis
    using page_floor_bound [of a] by (simp add: unat_word_ariths unat_div_distrib)
qed

lemma unat_PGROUNDDOWN: "unat (PGROUNDDOWN a) = (unat a div 4096) * 4096"
  by (simp add: PGROUNDDOWN_def page_mask unat_and_page_mask)

lemma unat_PGROUNDUP:
  assumes "unat a + 4095 < 2 ^ 32"
  shows "unat (PGROUNDUP a) = ((unat a + 4095) div 4096) * 4096"
proof -
  have "a + PGSIZE - 1 = a + 4095" unfolding PGSIZE_def by simp
  moreover have "unat (a + 4095) = unat a + 4095"
    using assms by (simp add: unat_word_ariths)
  ultimately show ?thesis
    by (simp only: PGROUNDUP_def page_mask unat_and_page_mask)
qed

lemma PGROUNDDOWN_aligned [simp]: "page_aligned (PGROUNDDOWN a)"
  by (simp add: page_aligned_iff unat_PGROUNDDOWN)

lemma PGROUNDUP_aligned [simp]: "page_aligned (PGROUNDUP a)"
  by (simp add: page_aligned_iff PGROUNDUP_def page_mask unat_and_page_mask)

lemma PGROUNDDOWN_id: "page_aligned a \<Longrightarrow> PGROUNDDOWN a = a"
  by (auto simp: word_unat_eq_iff page_aligned_iff unat_PGROUNDDOWN)

text \<open>The three fields of a linear address.\<close>

lemma unat_PDX: "unat (PDX va) = unat va div 2 ^ 22"
proof -
  have "PDX va = drop_bit 22 va"
    by (rule bit_word_eqI) (auto simp: PDX_def page_defs bit_simps mask10 dest: bit_imp_le_length)
  then show ?thesis by (simp add: drop_bit_eq_div unat_div_distrib)
qed

lemma unat_PTX: "unat (PTX va) = (unat va div 4096) mod 1024"
proof -
  have "PTX va = take_bit 10 (drop_bit 12 va)"
    by (simp add: PTX_def page_defs mask10 take_bit_eq_mask)
  then show ?thesis
    by (simp add: drop_bit_eq_div take_bit_eq_mod unat_div_distrib unat_mod_distrib)
qed

lemma PGADDR_fields: "PGADDR (PDX va) (PTX va) (va AND 0xFFF) = va"
proof (rule bit_word_eqI)
  fix n
  assume "n < LENGTH(32)"
  then have "n < 32" by simp
  then show "bit (PGADDR (PDX va) (PTX va) (va AND 0xFFF)) n = bit va n"
    by (cases "n < 12"; cases "n < 22")
       (auto simp: PGADDR_def PDX_def PTX_def page_defs mask10 mask12 bit_simps)
qed

lemma PTE_split: "PTE_ADDR pte OR PTE_FLAGS pte = pte"
  by (rule bit_word_eqI) (auto simp: PTE_ADDR_def PTE_FLAGS_def bit_simps mask12)

lemma PTE_ADDR_or_flags:
  assumes "page_aligned pa" and "f AND NOT 0xFFF = 0"
  shows "PTE_ADDR (pa OR f) = pa" and "PTE_FLAGS (pa OR f) = f"
proof -
  have pa: "pa AND NOT (mask 12) = pa"
    using PGROUNDDOWN_id [OF assms(1)] by (simp add: PGROUNDDOWN_def page_mask)
  have f: "f AND NOT (mask 12) = 0" using assms(2) by (simp add: mask12)
  have "PTE_ADDR (pa OR f) = (pa AND NOT (mask 12)) OR (f AND NOT (mask 12))"
    by (rule bit_word_eqI) (auto simp: PTE_ADDR_def mask12 bit_simps)
  then show "PTE_ADDR (pa OR f) = pa" by (simp add: pa f)
  have lo: "pa AND mask 12 = 0"
  proof (rule bit_word_eqI)
    fix n
    show "bit (pa AND mask 12) n = bit (0 :: u32) n"
      using arg_cong [OF pa, of "\<lambda>w. bit w n"] by (auto simp: bit_simps)
  qed
  have "f AND mask 12 = f"
  proof (rule bit_word_eqI)
    fix n
    assume "n < LENGTH(32)"
    then show "bit (f AND mask 12) n = bit f n"
      using arg_cong [OF f, of "\<lambda>w. bit w n"] by (auto simp: bit_simps)
  qed
  moreover have "PTE_FLAGS (pa OR f) = (pa AND mask 12) OR (f AND mask 12)"
    by (rule bit_word_eqI) (auto simp: PTE_FLAGS_def mask12 bit_simps)
  ultimately show "PTE_FLAGS (pa OR f) = f" by (simp add: lo)
qed

section \<open>Byte-addressed memory\<close>

text \<open>
  Memory, disk blocks and \<open>char\<close> arrays are all maps from an index to a byte. The C code
  reads and writes 16- and 32-bit fields of them in little-endian order.
\<close>

type_synonym bytes = "nat \<Rightarrow> u8"

definition get16 :: "bytes \<Rightarrow> nat \<Rightarrow> u16" where
  "get16 m a = ucast (m a) OR push_bit 8 (ucast (m (a + 1)))"

definition put16 :: "bytes \<Rightarrow> nat \<Rightarrow> u16 \<Rightarrow> bytes" where
  "put16 m a v = m(a := ucast v, a + 1 := ucast (drop_bit 8 v))"

definition get32 :: "bytes \<Rightarrow> nat \<Rightarrow> u32" where
  "get32 m a = ucast (m a) OR push_bit 8 (ucast (m (a + 1)))
     OR push_bit 16 (ucast (m (a + 2))) OR push_bit 24 (ucast (m (a + 3)))"

definition put32 :: "bytes \<Rightarrow> nat \<Rightarrow> u32 \<Rightarrow> bytes" where
  "put32 m a v = m(a := ucast v, a + 1 := ucast (drop_bit 8 v),
     a + 2 := ucast (drop_bit 16 v), a + 3 := ucast (drop_bit 24 v))"

lemma get16_put16 [simp]: "get16 (put16 m a v) a = v"
proof (rule bit_word_eqI)
  fix n
  assume "n < LENGTH(16)"
  then have "n < 16" by simp
  then show "bit (get16 (put16 m a v) a) n = bit v n"
    by (cases "n < 8") (auto simp: get16_def put16_def bit_simps)
qed

lemma get32_put32 [simp]: "get32 (put32 m a v) a = v"
proof (rule bit_word_eqI)
  fix n
  assume "n < LENGTH(32)"
  then have "n < 32" by simp
  then consider "n < 8" | "8 \<le> n" "n < 16" | "16 \<le> n" "n < 24" | "24 \<le> n" "n < 32"
    by linarith
  then show "bit (get32 (put32 m a v) a) n = bit v n"
    by cases (auto simp: get32_def put32_def bit_simps)
qed

lemma put16_other: "b < a \<or> a + 2 \<le> b \<Longrightarrow> put16 m a v b = m b"
  by (auto simp: put16_def)

lemma put32_other: "b < a \<or> a + 4 \<le> b \<Longrightarrow> put32 m a v b = m b"
  by (auto simp: put32_def)

lemma get16_put16_other: "b + 2 \<le> a \<or> a + 2 \<le> b \<Longrightarrow> get16 (put16 m a v) b = get16 m b"
  by (auto simp: get16_def put16_other)

lemma get32_put32_other: "b + 4 \<le> a \<or> a + 4 \<le> b \<Longrightarrow> get32 (put32 m a v) b = get32 m b"
  by (auto simp: get32_def put32_other)

lemma get16_put32_other: "b + 2 \<le> a \<or> a + 4 \<le> b \<Longrightarrow> get16 (put32 m a v) b = get16 m b"
  by (auto simp: get16_def put32_other)

lemma get32_put16_other: "b + 4 \<le> a \<or> a + 2 \<le> b \<Longrightarrow> get32 (put16 m a v) b = get32 m b"
  by (auto simp: get32_def put16_other)

lemma get32_cong: "(\<And>i. i < 4 \<Longrightarrow> m (a + i) = m' (a' + i)) \<Longrightarrow> get32 m a = get32 m' a'"
proof -
  assume eq: "\<And>i. i < 4 \<Longrightarrow> m (a + i) = m' (a' + i)"
  from eq [of 0] eq [of 1] eq [of 2] eq [of 3] show ?thesis by (simp add: get32_def)
qed

end
