(* ===== verification/Kstate.thy ===== *)
theory Kstate
  imports Machine
begin

text \<open>
  The structures of the kernel and its global state. Every C struct is a record with the
  fields of the source; a pointer into a fixed table (process, file, inode, buffer) is an
  index into that table, \<open>None\<close> where the code has a null pointer. Dereferencing a null
  pointer is undefined in C and is the panic \<open>null pointer\<close> here.

  Spin locks are seen from the processor that runs the code: \<open>held\<close> lists the locks it holds,
  innermost first, so that its length is the \<open>ncli\<close> of \<open>spinlock.c\<close>. Code between an
  \<open>acquire\<close> and the matching \<open>release\<close> runs without interference; that this is sound is the
  mutual exclusion shown for the detailed lock in theory \<open>Spinlock\<close>.
\<close>

section \<open>Processes (\<open>proc.h\<close>, \<open>x86.h\<close>)\<close>

datatype procstate = UNUSED | EMBRYO | SLEEPING | RUNNABLE | RUNNING | ZOMBIE

record kcontext =
  ctx_edi :: u32
  ctx_esi :: u32
  ctx_ebx :: u32
  ctx_ebp :: u32
  ctx_eip :: u32

record trapframe =
  tf_edi :: u32
  tf_esi :: u32
  tf_ebp :: u32
  tf_oesp :: u32
  tf_ebx :: u32
  tf_edx :: u32
  tf_ecx :: u32
  tf_eax :: u32
  tf_gs :: u16
  tf_fs :: u16
  tf_es :: u16
  tf_ds :: u16
  tf_trapno :: u32
  tf_err :: u32
  tf_eip :: u32
  tf_cs :: u16
  tf_eflags :: u32
  tf_esp :: u32
  tf_ss :: u16

type_synonym pptr = "nat option"

text \<open>
  Sleeping locks live in buffers and inodes; a wait channel is the address of a kernel object.
\<close>

datatype slid = SL_Buf nat | SL_Inode nat

datatype chan =
    NoChan
  | ChanProc nat
  | ChanTicks
  | ChanLog
  | ChanBuf nat
  | ChanSleeplock slid
  | ChanPipeRead u32
  | ChanPipeWrite u32
  | ChanInput

definition chan_of_proc :: "pptr \<Rightarrow> chan" where
  "chan_of_proc p = (case p of None \<Rightarrow> NoChan | Some i \<Rightarrow> ChanProc i)"

record proc =
  p_sz :: u32
  p_pgdir :: u32
  p_kstack :: u32
  p_state :: procstate
  p_pid :: int
  p_parent :: pptr
  p_tf :: trapframe
  p_context :: kcontext
  p_chan :: chan
  p_killed :: bool
  p_ofile :: "nat option list"
  p_cwd :: "nat option"
  p_name :: bytes
  p_isThread :: bool
  p_tstack :: u32
  p_pthread :: pptr
  p_tgid :: int
  p_CLONE_VM :: bool
  p_CLONE_FILES :: bool
  p_CLONE_FS :: bool
  p_CLONE_PARENT :: bool
  p_CLONE_THREAD :: bool
  p_ofile_clone :: "pptr list"
  p_cwd_clone :: "pptr list"

section \<open>Locks (\<open>spinlock.h\<close>, \<open>sleeplock.h\<close>)\<close>

datatype lockid =
    L_ptable | L_kmem | L_ftable | L_icache | L_bcache | L_log | L_ticks | L_cons | L_ide
  | L_sleep slid
  | L_pipe u32

record sleeplock =
  sl_locked :: bool
  sl_pid :: int

section \<open>Buffers, log, inodes, files and pipes\<close>

record buf =
  b_valid :: bool       \<comment> \<open>flag \<open>B_VALID\<close>\<close>
  b_dirty :: bool       \<comment> \<open>flag \<open>B_DIRTY\<close>\<close>
  b_dev :: u32
  b_blockno :: u32
  b_lock :: sleeplock
  b_refcnt :: u32
  b_data :: bytes

record superblock =
  sb_size :: u32
  sb_nblocks :: u32
  sb_ninodes :: u32
  sb_nlog :: u32
  sb_logstart :: u32
  sb_inodestart :: u32
  sb_bmapstart :: u32

record klog =
  l_start :: int
  l_size :: int
  l_outstanding :: int
  l_committing :: bool
  l_dev :: u32
  l_n :: int
  l_block :: "int list"

record inode =
  i_dev :: u32
  i_inum :: u32
  i_ref :: int
  i_lock :: sleeplock
  i_valid :: bool
  i_type :: u16
  i_major :: u16
  i_minor :: u16
  i_nlink :: u16
  i_size :: u32
  i_addrs :: "u32 list"

datatype fdtype = FD_NONE | FD_PIPE | FD_INODE

record kfile =
  f_type :: fdtype
  f_ref :: int
  f_readable :: bool
  f_writable :: bool
  f_pipe :: u32
  f_ip :: "nat option"
  f_off :: u32

record pipe =
  pi_data :: bytes
  pi_nread :: u32
  pi_nwrite :: u32
  pi_readopen :: bool
  pi_writeopen :: bool

record input_buf =
  in_buf :: bytes
  in_r :: u32
  in_w :: u32
  in_e :: u32

section \<open>The kernel's global state\<close>

text \<open>Addresses and data that the linker fixes (\<open>kernel.ld\<close>, \<open>initcode.S\<close>).\<close>

record ksyms =
  sym_end :: u32
  sym_data :: u32
  sym_forkret :: u32
  sym_trapret :: u32
  sym_initcode :: bytes
  sym_initcode_size :: u32

record kernel =
  syms :: ksyms
  mem :: bytes                          \<comment> \<open>memory at kernel virtual addresses\<close>
  freelist :: u32                       \<comment> \<open>\<open>kmem.freelist\<close>\<close>
  use_lock :: bool                      \<comment> \<open>\<open>kmem.use_lock\<close>\<close>
  kpgdir :: u32
  cr3 :: u32                            \<comment> \<open>page-table register of this processor\<close>
  esp0 :: u32                           \<comment> \<open>kernel stack in this processor's task state\<close>
  ptable :: "proc list"
  nextpid :: int
  initproc :: pptr
  cpu :: nat                            \<comment> \<open>index of the processor running this code\<close>
  cpu_proc :: "pptr list"               \<comment> \<open>\<open>cpus[i].proc\<close>\<close>
  held :: "lockid list"                 \<comment> \<open>spin locks held by this processor\<close>
  ticks :: u32
  ftable :: "kfile list"
  pipes :: "u32 \<Rightarrow> pipe"               \<comment> \<open>pipe structures by page address\<close>
  icache :: "inode list"
  sb :: superblock
  bufs :: "buf list"
  blru :: "nat list"                    \<comment> \<open>buffer list from \<open>head.next\<close> to \<open>head.prev\<close>\<close>
  klog :: klog
  disk :: "nat \<Rightarrow> bytes"                \<comment> \<open>block contents\<close>
  disksize :: u32
  dwrites :: "(nat \<times> bytes) list"       \<comment> \<open>history of block writes, oldest first\<close>
  cons_in :: input_buf
  cons_out :: "u8 list"                 \<comment> \<open>history of bytes sent to the serial port\<close>
  cons_locking :: bool                  \<comment> \<open>\<open>cons.locking\<close>\<close>
  crt :: "nat \<Rightarrow> u16"                   \<comment> \<open>text screen memory\<close>
  crt_pos :: int                        \<comment> \<open>cursor register of the screen\<close>
  devsw :: "bool list"                  \<comment> \<open>device switch: is the console's driver registered here\<close>
  fork_first :: bool                    \<comment> \<open>\<open>first\<close> of \<open>forkret\<close>\<close>
  fuel :: nat                           \<comment> \<open>bound on the rounds of a waiting loop; no code changes it\<close>

type_synonym 'a kk = "(kernel, 'a) km"

section \<open>Static storage\<close>

text \<open>
  The state in which the C program starts: static data is zero except where it has an
  initialiser (\<open>nextpid\<close>). The linker's symbols, the memory and the disk are arguments.
\<close>

definition zero_kcontext :: kcontext where
  "zero_kcontext = \<lparr>ctx_edi = 0, ctx_esi = 0, ctx_ebx = 0, ctx_ebp = 0, ctx_eip = 0\<rparr>"

definition zero_trapframe :: trapframe where
  "zero_trapframe = \<lparr>tf_edi = 0, tf_esi = 0, tf_ebp = 0, tf_oesp = 0, tf_ebx = 0, tf_edx = 0,
     tf_ecx = 0, tf_eax = 0, tf_gs = 0, tf_fs = 0, tf_es = 0, tf_ds = 0, tf_trapno = 0, tf_err = 0,
     tf_eip = 0, tf_cs = 0, tf_eflags = 0, tf_esp = 0, tf_ss = 0\<rparr>"

definition zero_proc :: proc where
  "zero_proc = \<lparr>p_sz = 0, p_pgdir = 0, p_kstack = 0, p_state = UNUSED, p_pid = 0, p_parent = None,
     p_tf = zero_trapframe, p_context = zero_kcontext, p_chan = NoChan, p_killed = False,
     p_ofile = replicate NOFILE None, p_cwd = None, p_name = (\<lambda>_. 0), p_isThread = False,
     p_tstack = 0, p_pthread = None, p_tgid = 0, p_CLONE_VM = False, p_CLONE_FILES = False,
     p_CLONE_FS = False, p_CLONE_PARENT = False, p_CLONE_THREAD = False,
     p_ofile_clone = replicate NPROC None, p_cwd_clone = replicate NPROC None\<rparr>"

definition zero_sleeplock :: sleeplock where
  "zero_sleeplock = \<lparr>sl_locked = False, sl_pid = 0\<rparr>"

definition zero_buf :: buf where
  "zero_buf = \<lparr>b_valid = False, b_dirty = False, b_dev = 0, b_blockno = 0, b_lock = zero_sleeplock,
     b_refcnt = 0, b_data = (\<lambda>_. 0)\<rparr>"

definition zero_superblock :: superblock where
  "zero_superblock = \<lparr>sb_size = 0, sb_nblocks = 0, sb_ninodes = 0, sb_nlog = 0, sb_logstart = 0,
     sb_inodestart = 0, sb_bmapstart = 0\<rparr>"

definition zero_klog :: klog where
  "zero_klog = \<lparr>l_start = 0, l_size = 0, l_outstanding = 0, l_committing = False, l_dev = 0, l_n = 0,
     l_block = replicate (nat LOGSIZE) 0\<rparr>"

definition zero_inode :: inode where
  "zero_inode = \<lparr>i_dev = 0, i_inum = 0, i_ref = 0, i_lock = zero_sleeplock, i_valid = False, i_type = 0,
     i_major = 0, i_minor = 0, i_nlink = 0, i_size = 0, i_addrs = replicate 13 0\<rparr>"

definition zero_kfile :: kfile where
  "zero_kfile = \<lparr>f_type = FD_NONE, f_ref = 0, f_readable = False, f_writable = False, f_pipe = 0,
     f_ip = None, f_off = 0\<rparr>"

definition zero_pipe :: pipe where
  "zero_pipe = \<lparr>pi_data = (\<lambda>_. 0), pi_nread = 0, pi_nwrite = 0, pi_readopen = False, pi_writeopen = False\<rparr>"

definition boot_kernel :: "ksyms \<Rightarrow> bytes \<Rightarrow> (nat \<Rightarrow> bytes) \<Rightarrow> u32 \<Rightarrow> kernel" where
  "boot_kernel y m d n = \<lparr>syms = y, mem = m, freelist = 0, use_lock = False, kpgdir = 0, cr3 = 0, esp0 = 0,
     ptable = replicate NPROC zero_proc, nextpid = 1, initproc = None, cpu = 0,
     cpu_proc = replicate NCPU None, held = [], ticks = 0, ftable = replicate NFILE zero_kfile,
     pipes = (\<lambda>_. zero_pipe), icache = replicate NINODE zero_inode, sb = zero_superblock,
     bufs = replicate NBUF zero_buf, blru = [], klog = zero_klog, disk = d, disksize = n, dwrites = [],
     cons_in = \<lparr>in_buf = (\<lambda>_. 0), in_r = 0, in_w = 0, in_e = 0\<rparr>, cons_out = [],
     cons_locking = False, crt = (\<lambda>_. 0), crt_pos = 0, devsw = replicate (nat NDEV) False, fork_first = True, fuel = 100\<rparr>"

section \<open>Access to the process table\<close>

definition proc_at :: "nat \<Rightarrow> kernel \<Rightarrow> proc" where
  "proc_at i s = ptable s ! i"

definition upd_proc :: "nat \<Rightarrow> (proc \<Rightarrow> proc) \<Rightarrow> kernel \<Rightarrow> kernel" where
  "upd_proc i f s = s\<lparr>ptable := (ptable s)[i := f (ptable s ! i)]\<rparr>"

text \<open>Following a pointer, which is undefined for a null pointer.\<close>

definition deref :: "'a option \<Rightarrow> ('s, 'a) km" where
  "deref p = (case p of None \<Rightarrow> kpanic ''null pointer'' | Some x \<Rightarrow> kret x)"

lemma deref_simps [simp]:
  "deref None = kpanic ''null pointer''"
  "deref (Some x) = kret x"
  by (simp_all add: deref_def)

lemma proc_at_upd [simp]:
  "i < length (ptable s) \<Longrightarrow> proc_at j (upd_proc i f s) = (if i = j then f (proc_at i s) else proc_at j s)"
  by (simp add: proc_at_def upd_proc_def)

lemma ptable_upd_proc: "ptable (upd_proc i f s) = (ptable s)[i := f (proc_at i s)]"
  by (simp add: upd_proc_def proc_at_def)

lemma length_ptable_upd [simp]: "length (ptable (upd_proc i f s)) = length (ptable s)"
  by (simp add: upd_proc_def)

lemma upd_proc_fields [simp]:
  "syms (upd_proc i f s) = syms s" "mem (upd_proc i f s) = mem s"
  "freelist (upd_proc i f s) = freelist s" "use_lock (upd_proc i f s) = use_lock s"
  "kpgdir (upd_proc i f s) = kpgdir s" "cr3 (upd_proc i f s) = cr3 s"
  "esp0 (upd_proc i f s) = esp0 s"
  "nextpid (upd_proc i f s) = nextpid s" "initproc (upd_proc i f s) = initproc s"
  "cpu (upd_proc i f s) = cpu s" "cpu_proc (upd_proc i f s) = cpu_proc s"
  "held (upd_proc i f s) = held s" "ticks (upd_proc i f s) = ticks s"
  "ftable (upd_proc i f s) = ftable s" "pipes (upd_proc i f s) = pipes s"
  "icache (upd_proc i f s) = icache s" "sb (upd_proc i f s) = sb s"
  "bufs (upd_proc i f s) = bufs s" "blru (upd_proc i f s) = blru s"
  "klog (upd_proc i f s) = klog s" "disk (upd_proc i f s) = disk s"
  "disksize (upd_proc i f s) = disksize s" "dwrites (upd_proc i f s) = dwrites s"
  "cons_in (upd_proc i f s) = cons_in s" "cons_out (upd_proc i f s) = cons_out s"
  "cons_locking (upd_proc i f s) = cons_locking s" "crt (upd_proc i f s) = crt s"
  "crt_pos (upd_proc i f s) = crt_pos s"
  "devsw (upd_proc i f s) = devsw s" "fork_first (upd_proc i f s) = fork_first s"
  "fuel (upd_proc i f s) = fuel s"
  by (simp_all add: upd_proc_def)

lemma proc_at_update_fields [simp]:
  "proc_at i (s\<lparr>mem := m\<rparr>) = proc_at i s"
  "proc_at i (s\<lparr>freelist := fl\<rparr>) = proc_at i s"
  "proc_at i (s\<lparr>cr3 := c\<rparr>) = proc_at i s"
  "proc_at i (s\<lparr>esp0 := e\<rparr>) = proc_at i s"
  "proc_at i (s\<lparr>nextpid := n\<rparr>) = proc_at i s"
  "proc_at i (s\<lparr>initproc := ip\<rparr>) = proc_at i s"
  "proc_at i (s\<lparr>cpu_proc := cp\<rparr>) = proc_at i s"
  "proc_at i (s\<lparr>held := h\<rparr>) = proc_at i s"
  "proc_at i (s\<lparr>ticks := tk\<rparr>) = proc_at i s"
  "proc_at i (s\<lparr>ftable := ft\<rparr>) = proc_at i s"
  "proc_at i (s\<lparr>pipes := ps\<rparr>) = proc_at i s"
  "proc_at i (s\<lparr>icache := ic\<rparr>) = proc_at i s"
  "proc_at i (s\<lparr>bufs := bs\<rparr>) = proc_at i s"
  "proc_at i (s\<lparr>blru := bl\<rparr>) = proc_at i s"
  "proc_at i (s\<lparr>klog := kl\<rparr>) = proc_at i s"
  "proc_at i (s\<lparr>disk := d\<rparr>) = proc_at i s"
  "proc_at i (s\<lparr>dwrites := dw\<rparr>) = proc_at i s"
  "proc_at i (s\<lparr>cons_in := ci\<rparr>) = proc_at i s"
  "proc_at i (s\<lparr>cons_out := co\<rparr>) = proc_at i s"
  "proc_at i (s\<lparr>crt := cm\<rparr>) = proc_at i s"
  "proc_at i (s\<lparr>crt_pos := cp'\<rparr>) = proc_at i s"
  "proc_at i (s\<lparr>fork_first := ff\<rparr>) = proc_at i s"
  by (simp_all add: proc_at_def)

section \<open>Spin locks seen from one processor\<close>

definition holding :: "lockid \<Rightarrow> kernel \<Rightarrow> bool" where
  "holding lk s \<longleftrightarrow> lk \<in> set (held s)"

definition acquire :: "lockid \<Rightarrow> unit kk" where
  "acquire lk = kbind (kget (holding lk)) (\<lambda>h.
     if h then kpanic ''acquire'' else kmod (\<lambda>s. s\<lparr>held := lk # held s\<rparr>))"

definition release :: "lockid \<Rightarrow> unit kk" where
  "release lk = kbind (kget (holding lk)) (\<lambda>h.
     if h then kmod (\<lambda>s. s\<lparr>held := remove1 lk (held s)\<rparr>) else kpanic ''release'')"

lemma acquire_app:
  "acquire lk s = (if lk \<in> set (held s) then Panic ''acquire'' else Ret () (s\<lparr>held := lk # held s\<rparr>))"
  by (simp add: acquire_def holding_def)

lemma release_app:
  "release lk s = (if lk \<in> set (held s) then Ret () (s\<lparr>held := remove1 lk (held s)\<rparr>) else Panic ''release'')"
  by (simp add: release_def holding_def)

lemma wp_acquire [wp_rules, simp]:
  "wp (acquire lk) Q R s \<longleftrightarrow> lk \<notin> set (held s) \<and> Q () (s\<lparr>held := lk # held s\<rparr>)"
  by (simp add: wp_def acquire_app)

lemma wp_release [wp_rules, simp]:
  "wp (release lk) Q R s \<longleftrightarrow> lk \<in> set (held s) \<and> Q () (s\<lparr>held := remove1 lk (held s)\<rparr>)"
  by (simp add: wp_def release_app)

lemma wlp_acquire [wp_rules, simp]:
  "wlp (acquire lk) Q R s \<longleftrightarrow> (lk \<notin> set (held s) \<longrightarrow> Q () (s\<lparr>held := lk # held s\<rparr>))"
  by (simp add: wlp_def acquire_app)

lemma wlp_release [wp_rules, simp]:
  "wlp (release lk) Q R s \<longleftrightarrow> (lk \<in> set (held s) \<longrightarrow> Q () (s\<lparr>held := remove1 lk (held s)\<rparr>))"
  by (simp add: wlp_def release_app)

section \<open>The current process (\<open>proc.c\<close>)\<close>

definition myproc :: "kernel \<Rightarrow> pptr" where
  "myproc s = cpu_proc s ! cpu s"

text \<open>\<open>myproc()\<close> followed by a dereference of the result.\<close>

definition curproc :: "nat kk" where
  "curproc = kbind (kget myproc) deref"

lemma myproc_upd_proc [simp]: "myproc (upd_proc i f s) = myproc s"
  by (simp add: myproc_def)

lemma myproc_update_fields [simp]:
  "myproc (s\<lparr>mem := m\<rparr>) = myproc s"
  "myproc (s\<lparr>freelist := fl\<rparr>) = myproc s"
  "myproc (s\<lparr>cr3 := c\<rparr>) = myproc s"
  "myproc (s\<lparr>esp0 := e\<rparr>) = myproc s"
  "myproc (s\<lparr>ptable := pt\<rparr>) = myproc s"
  "myproc (s\<lparr>nextpid := n\<rparr>) = myproc s"
  "myproc (s\<lparr>initproc := ip\<rparr>) = myproc s"
  "myproc (s\<lparr>held := h\<rparr>) = myproc s"
  "myproc (s\<lparr>ticks := tk\<rparr>) = myproc s"
  "myproc (s\<lparr>ftable := ft\<rparr>) = myproc s"
  "myproc (s\<lparr>pipes := ps\<rparr>) = myproc s"
  "myproc (s\<lparr>icache := ic\<rparr>) = myproc s"
  "myproc (s\<lparr>bufs := bs\<rparr>) = myproc s"
  "myproc (s\<lparr>blru := bl\<rparr>) = myproc s"
  "myproc (s\<lparr>klog := kl\<rparr>) = myproc s"
  "myproc (s\<lparr>disk := d\<rparr>) = myproc s"
  "myproc (s\<lparr>dwrites := dw\<rparr>) = myproc s"
  "myproc (s\<lparr>cons_in := ci\<rparr>) = myproc s"
  "myproc (s\<lparr>cons_out := co\<rparr>) = myproc s"
  "myproc (s\<lparr>crt := cm\<rparr>) = myproc s"
  "myproc (s\<lparr>crt_pos := cp'\<rparr>) = myproc s"
  "myproc (s\<lparr>fork_first := ff\<rparr>) = myproc s"
  by (simp_all add: myproc_def)

lemma wp_curproc [wp_rules, simp]:
  "wp curproc Q R s \<longleftrightarrow> (case myproc s of None \<Rightarrow> False | Some p \<Rightarrow> Q p s)"
  by (simp add: curproc_def split: option.splits)

lemma wlp_curproc [wp_rules, simp]:
  "wlp curproc Q R s \<longleftrightarrow> (case myproc s of None \<Rightarrow> True | Some p \<Rightarrow> Q p s)"
  by (simp add: curproc_def split: option.splits)

lemma curproc_app: "myproc s = Some p \<Longrightarrow> curproc s = Ret p s"
  by (simp add: curproc_def)

end
