(* ===== verification/Strings.thy ===== *)
theory Strings
  imports Kstate
begin

unbundle bit_operations_syntax

text \<open>
  The string and memory routines of \<open>string.c\<close>. A \<open>char\<close> pointer that is only read is the map
  from offsets to the bytes it points at; \<open>memset\<close> and \<open>memmove\<close> work on one memory, so that
  overlapping areas are covered. Shown here: \<open>memset\<close> fills its range whichever of its two
  instructions it uses, \<open>memmove\<close> copies the original bytes however the areas overlap, and the
  copying and comparing routines respect their bound and the terminating zero byte.
\<close>

section \<open>Definitions\<close>

text \<open>The x86 instructions behind \<open>stosb\<close> and \<open>stosl\<close>.\<close>

fun stosb :: "bytes \<Rightarrow> nat \<Rightarrow> u8 \<Rightarrow> nat \<Rightarrow> bytes" where
  "stosb m a c 0 = m"
| "stosb m a c (Suc n) = stosb (m(a := c)) (a + 1) c n"

fun stosl :: "bytes \<Rightarrow> nat \<Rightarrow> u32 \<Rightarrow> nat \<Rightarrow> bytes" where
  "stosl m a w 0 = m"
| "stosl m a w (Suc n) = stosl (put32 m a w) (a + 4) w n"

definition splat :: "u32 \<Rightarrow> u32" where
  "splat c = push_bit 24 c OR push_bit 16 c OR push_bit 8 c OR c"

definition memset :: "bytes \<Rightarrow> nat \<Rightarrow> u32 \<Rightarrow> nat \<Rightarrow> bytes" where
  "memset m dst c n =
     (if dst mod 4 = 0 \<and> n mod 4 = 0 then
        stosl m dst (splat (c AND 0xFF)) (n div 4)
      else stosb m dst (ucast c) n)"

fun memcmp :: "bytes \<Rightarrow> bytes \<Rightarrow> nat \<Rightarrow> nat \<Rightarrow> int" where
  "memcmp s1 s2 i 0 = 0"
| "memcmp s1 s2 i (Suc n) =
     (if s1 i \<noteq> s2 i then uint (s1 i) - uint (s2 i) else memcmp s1 s2 (i + 1) n)"

fun copy_fwd :: "bytes \<Rightarrow> nat \<Rightarrow> nat \<Rightarrow> nat \<Rightarrow> bytes" where
  "copy_fwd m d s 0 = m"
| "copy_fwd m d s (Suc n) = copy_fwd (m(d := m s)) (d + 1) (s + 1) n"

text \<open>The backward loop starts with both pointers at the end of their area.\<close>

fun copy_bwd :: "bytes \<Rightarrow> nat \<Rightarrow> nat \<Rightarrow> nat \<Rightarrow> bytes" where
  "copy_bwd m d s 0 = m"
| "copy_bwd m d s (Suc n) = copy_bwd (m(d - 1 := m (s - 1))) (d - 1) (s - 1) n"

definition memmove :: "bytes \<Rightarrow> nat \<Rightarrow> nat \<Rightarrow> nat \<Rightarrow> bytes" where
  "memmove m d s n = (if s < d \<and> s + n > d then copy_bwd m (d + n) (s + n) n else copy_fwd m d s n)"

fun strncmp :: "bytes \<Rightarrow> bytes \<Rightarrow> nat \<Rightarrow> nat \<Rightarrow> int" where
  "strncmp p q i 0 = 0"
| "strncmp p q i (Suc n) =
     (if p i \<noteq> 0 \<and> p i = q i then strncmp p q (i + 1) n else uint (p i) - uint (q i))"

text \<open>\<open>strncpy\<close>: copy up to and with the zero byte, then fill with zeros.\<close>

fun strncpy_pad :: "bytes \<Rightarrow> nat \<Rightarrow> nat \<Rightarrow> bytes" where
  "strncpy_pad s i 0 = s"
| "strncpy_pad s i (Suc n) = strncpy_pad (s(i := 0)) (i + 1) n"

fun strncpy_from :: "bytes \<Rightarrow> bytes \<Rightarrow> nat \<Rightarrow> nat \<Rightarrow> bytes" where
  "strncpy_from s t i 0 = s"
| "strncpy_from s t i (Suc n) =
     (if t i \<noteq> 0 then strncpy_from (s(i := t i)) t (i + 1) n
      else strncpy_pad (s(i := t i)) (i + 1) n)"

definition strncpy :: "bytes \<Rightarrow> bytes \<Rightarrow> int \<Rightarrow> bytes" where
  "strncpy s t n = strncpy_from s t 0 (nat n)"

fun safestrcpy_from :: "bytes \<Rightarrow> bytes \<Rightarrow> nat \<Rightarrow> nat \<Rightarrow> bytes" where
  "safestrcpy_from s t i 0 = s(i := 0)"
| "safestrcpy_from s t i (Suc n) =
     (if t i \<noteq> 0 then safestrcpy_from (s(i := t i)) t (i + 1) n
      else (s(i := t i))(i + 1 := 0))"

definition safestrcpy :: "bytes \<Rightarrow> bytes \<Rightarrow> int \<Rightarrow> bytes" where
  "safestrcpy s t n = (if n \<le> 0 then s else safestrcpy_from s t 0 (nat (n - 1)))"

text \<open>\<open>strlen\<close> runs past the end of an array without a zero byte; \<open>None\<close> is that case.\<close>

partial_function (option) strlen_from :: "bytes \<Rightarrow> nat \<Rightarrow> nat option" where
  "strlen_from s n = (if s n \<noteq> 0 then strlen_from s (n + 1) else Some n)"

definition strlen :: "bytes \<Rightarrow> nat option" where
  "strlen s = strlen_from s 0"

section \<open>Filling and moving memory\<close>

lemma stosb_eq: "stosb m a c n = (\<lambda>x. if a \<le> x \<and> x < a + n then c else m x)"
  by (induction n arbitrary: m a) (auto simp: fun_eq_iff)

lemma ucast_splat:
  "(ucast (splat (c AND 0xFF)) :: u8) = ucast c"
  "(ucast (drop_bit 8 (splat (c AND 0xFF))) :: u8) = ucast c"
  "(ucast (drop_bit 16 (splat (c AND 0xFF))) :: u8) = ucast c"
  "(ucast (drop_bit 24 (splat (c AND 0xFF))) :: u8) = ucast c"
proof -
  have m: "(0xFF :: u32) = mask 8" by (simp add: mask_eq_exp_minus_1)
  show "(ucast (splat (c AND 0xFF)) :: u8) = ucast c"
    "(ucast (drop_bit 8 (splat (c AND 0xFF))) :: u8) = ucast c"
    "(ucast (drop_bit 16 (splat (c AND 0xFF))) :: u8) = ucast c"
    "(ucast (drop_bit 24 (splat (c AND 0xFF))) :: u8) = ucast c"
    by (rule bit_word_eqI, auto simp: splat_def m bit_simps)+
qed

lemma stosl_splat:
  "stosl m a (splat (c AND 0xFF)) n = (\<lambda>x. if a \<le> x \<and> x < a + 4 * n then ucast c else m x)"
proof (induction n arbitrary: m a)
  case 0
  then show ?case by (auto simp: fun_eq_iff)
next
  case (Suc n)
  show ?case by (auto simp: fun_eq_iff Suc put32_def ucast_splat)
qed

lemma memset_eq: "memset m dst c n = (\<lambda>x. if dst \<le> x \<and> x < dst + n then ucast c else m x)"
proof (cases "dst mod 4 = 0 \<and> n mod 4 = 0")
  case True
  then have "4 * (n div 4) = n" by presburger
  with True show ?thesis by (simp add: memset_def stosl_splat)
next
  case False
  then have "memset m dst c n = stosb m dst (ucast c) n" by (auto simp: memset_def)
  then show ?thesis by (simp add: stosb_eq)
qed

lemma copy_fwd_eq:
  assumes "d \<le> s \<or> s + n \<le> d"
  shows "copy_fwd m d s n = (\<lambda>x. if d \<le> x \<and> x < d + n then m (s + (x - d)) else m x)"
  using assms
proof (induction n arbitrary: m d s)
  case 0
  then show ?case by (auto simp: fun_eq_iff)
next
  case (Suc n)
  then have "d + 1 \<le> s + 1 \<or> s + 1 + n \<le> d + 1" by auto
  note IH = Suc.IH [OF this, of "m(d := m s)"]
  have *: "copy_fwd m d s (Suc n) = copy_fwd (m(d := m s)) (d + 1) (s + 1) n" by simp
  show ?case unfolding * IH
  proof
    fix x
    show "(if d + 1 \<le> x \<and> x < d + 1 + n then (m(d := m s)) (s + 1 + (x - (d + 1))) else (m(d := m s)) x)
      = (if d \<le> x \<and> x < d + Suc n then m (s + (x - d)) else m x)"
      using Suc.prems by (cases "x = d") (auto simp: Suc_diff_Suc)
  qed
qed

lemma copy_bwd_eq:
  assumes "s < d"
  shows "copy_bwd m (d + n) (s + n) n = (\<lambda>x. if d \<le> x \<and> x < d + n then m (s + (x - d)) else m x)"
  using assms
proof (induction n arbitrary: m)
  case 0
  then show ?case by (auto simp: fun_eq_iff)
next
  case (Suc n)
  note IH = Suc.IH [OF Suc.prems, of "m(d + n := m (s + n))"]
  have *: "copy_bwd m (d + Suc n) (s + Suc n) (Suc n) = copy_bwd (m(d + n := m (s + n))) (d + n) (s + n) n"
    by simp
  show ?case unfolding * IH
  proof
    fix x
    show "(if d \<le> x \<and> x < d + n then (m(d + n := m (s + n))) (s + (x - d)) else (m(d + n := m (s + n))) x)
      = (if d \<le> x \<and> x < d + Suc n then m (s + (x - d)) else m x)"
      using Suc.prems by (cases "x = d + n") auto
  qed
qed

lemma memmove_eq: "memmove m d s n = (\<lambda>x. if d \<le> x \<and> x < d + n then m (s + (x - d)) else m x)"
  by (cases "s < d \<and> s + n > d") (auto simp: memmove_def copy_fwd_eq copy_bwd_eq)

section \<open>Comparing and copying strings\<close>

text \<open>The string at an array that has a zero byte: the bytes before the first zero.\<close>

definition cstr_len :: "bytes \<Rightarrow> nat \<Rightarrow> bool" where
  "cstr_len s n \<longleftrightarrow> s n = 0 \<and> (\<forall>i < n. s i \<noteq> 0)"

lemma strlen_from_Some: "cstr_len s n \<Longrightarrow> i \<le> n \<Longrightarrow> strlen_from s i = Some n"
proof (induction "n - i" arbitrary: i)
  case 0
  then show ?case by (simp add: cstr_len_def strlen_from.simps)
next
  case (Suc k)
  then have "i < n" by simp
  with Suc have "s i \<noteq> 0" "strlen_from s (i + 1) = Some n"
    by (auto simp: cstr_len_def)
  then show ?case by (subst strlen_from.simps) simp
qed

lemma strlen_cstr: "cstr_len s n \<Longrightarrow> strlen s = Some n"
  by (simp add: strlen_def strlen_from_Some)

lemma all_less_Suc_0: "(\<forall>j < Suc n. P j) \<longleftrightarrow> P 0 \<and> (\<forall>j < n. P (Suc j))"
  by (auto simp: less_Suc_eq_0_disj)

lemma memcmp_0_iff: "memcmp s1 s2 i n = 0 \<longleftrightarrow> (\<forall>j < n. s1 (i + j) = s2 (i + j))"
  by (induction n arbitrary: i) (auto simp: all_less_Suc_0 word_uint_eq_iff)

text \<open>Two arrays agree as strings of at most \<open>n\<close> bytes.\<close>

definition same_str :: "bytes \<Rightarrow> bytes \<Rightarrow> nat \<Rightarrow> nat \<Rightarrow> bool" where
  "same_str p q i n \<longleftrightarrow> (\<forall>k < n. (\<forall>j < k. p (i + j) \<noteq> 0) \<longrightarrow> p (i + k) = q (i + k))"

lemma strncmp_0_iff: "strncmp p q i n = 0 \<longleftrightarrow> same_str p q i n"
proof (induction n arbitrary: i)
  case 0
  then show ?case by (simp add: same_str_def)
next
  case (Suc n)
  have "same_str p q i (Suc n) \<longleftrightarrow> p i = q i \<and> (p i \<noteq> 0 \<longrightarrow> same_str p q (i + 1) n)"
    by (auto simp: same_str_def all_less_Suc_0)
  with Suc show ?case by (auto simp: word_uint_eq_iff)
qed

lemma strncpy_pad_eq: "strncpy_pad s i n = (\<lambda>x. if i \<le> x \<and> x < i + n then 0 else s x)"
  by (induction n arbitrary: s i) (auto simp: fun_eq_iff)

text \<open>
  \<open>strncpy\<close> writes exactly the first \<open>n\<close> bytes of the destination: the string, then zeros.
\<close>

definition str_take :: "bytes \<Rightarrow> nat \<Rightarrow> nat \<Rightarrow> u8" where
  "str_take t i x = (if \<exists>j. i \<le> j \<and> j < x \<and> t j = 0 then 0 else t x)"

lemma str_take_step: "t i \<noteq> 0 \<Longrightarrow> i < x \<Longrightarrow> str_take t i x = str_take t (Suc i) x"
  unfolding str_take_def by (metis Suc_leD Suc_leI le_neq_implies_less)

lemma str_take_zero: "t i = 0 \<Longrightarrow> i \<le> x \<Longrightarrow> str_take t i x = 0"
  by (cases "i = x") (auto simp: str_take_def)

lemma strncpy_from_eq:
  "strncpy_from s t i n = (\<lambda>x. if i \<le> x \<and> x < i + n then str_take t i x else s x)"
proof (induction n arbitrary: s i)
  case 0
  then show ?case by (auto simp: fun_eq_iff)
next
  case (Suc n)
  show ?case
  proof (cases "t i = 0")
    case True
    then show ?thesis by (auto simp: fun_eq_iff strncpy_pad_eq str_take_zero)
  next
    case False
    moreover have "str_take t i i = t i" by (auto simp: str_take_def)
    ultimately show ?thesis
      by (auto simp: fun_eq_iff Suc str_take_step)
  qed
qed

lemma strncpy_eq: "strncpy s t n = (\<lambda>x. if x < nat n then str_take t 0 x else s x)"
  by (simp add: strncpy_def strncpy_from_eq)

text \<open>\<open>safestrcpy\<close> leaves a zero byte within the bound and nothing beyond it.\<close>

lemma safestrcpy_from_out: "x < i \<or> i + n < x \<Longrightarrow> safestrcpy_from s t i n x = s x"
  by (induction n arbitrary: s i) auto

lemma safestrcpy_from_prefix:
  "k \<le> n \<Longrightarrow> (\<And>j. i \<le> j \<Longrightarrow> j < i + k \<Longrightarrow> t j \<noteq> 0) \<Longrightarrow> k = n \<or> t (i + k) = 0 \<Longrightarrow>
   safestrcpy_from s t i n (i + k) = 0 \<and>
   (\<forall>j. i \<le> j \<longrightarrow> j < i + k \<longrightarrow> safestrcpy_from s t i n j = t j)"
proof (induction n arbitrary: s i k)
  case 0
  then show ?case by simp
next
  case (Suc n)
  show ?case
  proof (cases k)
    case 0
    with Suc.prems show ?thesis by simp
  next
    case (Suc k')
    then have ti: "t i \<noteq> 0" using Suc.prems(2) [of i] by simp
    let ?s = "s(i := t i)"
    have IH: "safestrcpy_from ?s t (i + 1) n (i + 1 + k') = 0 \<and>
        (\<forall>j. i + 1 \<le> j \<longrightarrow> j < i + 1 + k' \<longrightarrow> safestrcpy_from ?s t (i + 1) n j = t j)"
      by (rule Suc.IH) (use Suc.prems \<open>k = Suc k'\<close> in auto)
    have eq: "safestrcpy_from s t i (Suc n) = safestrcpy_from ?s t (i + 1) n"
      using ti by simp
    have head: "safestrcpy_from ?s t (i + 1) n i = t i"
      by (simp add: safestrcpy_from_out)
    show ?thesis unfolding eq
    proof (intro conjI allI impI)
      show "safestrcpy_from ?s t (i + 1) n (i + k) = 0"
        using IH \<open>k = Suc k'\<close> by simp
      fix j
      assume "i \<le> j" "j < i + k"
      then show "safestrcpy_from ?s t (i + 1) n j = t j"
        using IH head \<open>k = Suc k'\<close> by (cases "j = i") auto
    qed
  qed
qed

lemma safestrcpy_spec:
  assumes "0 < n" and "cstr_len t l"
  shows "cstr_len (safestrcpy s t n) (min l (nat (n - 1)))"
    and "i < min l (nat (n - 1)) \<Longrightarrow> safestrcpy s t n i = t i"
    and "nat n \<le> i \<Longrightarrow> safestrcpy s t n i = s i"
proof -
  let ?k = "min l (nat (n - 1))"
  have eq: "safestrcpy s t n = safestrcpy_from s t 0 (nat (n - 1))"
    using assms by (simp add: safestrcpy_def)
  have "safestrcpy_from s t 0 (nat (n - 1)) (0 + ?k) = 0 \<and>
      (\<forall>j. 0 \<le> j \<longrightarrow> j < 0 + ?k \<longrightarrow> safestrcpy_from s t 0 (nat (n - 1)) j = t j)"
    by (rule safestrcpy_from_prefix) (use assms in \<open>auto simp: cstr_len_def min_def split: if_splits\<close>)
  then have *: "safestrcpy s t n ?k = 0" "\<And>j. j < ?k \<Longrightarrow> safestrcpy s t n j = t j"
    by (simp_all add: eq)
  with assms show "cstr_len (safestrcpy s t n) ?k" by (auto simp: cstr_len_def)
  show "i < ?k \<Longrightarrow> safestrcpy s t n i = t i" by (rule *(2))
  show "nat n \<le> i \<Longrightarrow> safestrcpy s t n i = s i"
    using assms by (simp add: eq safestrcpy_from_out)
qed

end
