(* ===== verification/Kalloc.thy ===== *)
theory Kalloc
  imports Strings
begin

unbundle bit_operations_syntax

text \<open>
  The physical page allocator of \<open>kalloc.c\<close>. Free pages form a linked list through their own
  first word; the list representation \<open>free_list\<close> relates that chain to a list of page
  addresses, and \<open>kalloc\<close>, \<open>kfree\<close> and \<open>freerange\<close> are shown to be its head, cons and
  repeated cons. The locale \<open>page_allocator\<close> is the contract that the clients of the allocator
  rely on, and it is interpreted with the model of the code.
\<close>

section \<open>Memory accesses of the kernel\<close>

definition load32 :: "u32 \<Rightarrow> u32 kk" where
  "load32 a = kget (\<lambda>s. get32 (mem s) (unat a))"

definition store32 :: "u32 \<Rightarrow> u32 \<Rightarrow> unit kk" where
  "store32 a v = kmod (\<lambda>s. s\<lparr>mem := put32 (mem s) (unat a) v\<rparr>)"

definition kmemset :: "u32 \<Rightarrow> u32 \<Rightarrow> u32 \<Rightarrow> unit kk" where
  "kmemset dst c n = kmod (\<lambda>s. s\<lparr>mem := memset (mem s) (unat dst) c (unat n)\<rparr>)"

definition kmemmove :: "u32 \<Rightarrow> u32 \<Rightarrow> u32 \<Rightarrow> unit kk" where
  "kmemmove dst src n = kmod (\<lambda>s. s\<lparr>mem := memmove (mem s) (unat dst) (unat src) (unat n)\<rparr>)"

text \<open>Copying from an array outside the page memory.\<close>

definition kwrite_bytes :: "u32 \<Rightarrow> bytes \<Rightarrow> u32 \<Rightarrow> unit kk" where
  "kwrite_bytes dst src n = kmod (\<lambda>s. s\<lparr>mem := (\<lambda>x.
     if unat dst \<le> x \<and> x < unat dst + unat n then src (x - unat dst) else mem s x)\<rparr>)"

section \<open>The allocator\<close>

definition kfree :: "u32 \<Rightarrow> unit kk" where
  "kfree v =
     kbind (kget (\<lambda>s. v mod PGSIZE \<noteq> 0 \<or> v < sym_end (syms s) \<or> V2P v \<ge> PHYSTOP)) (\<lambda>bad.
     if bad then kpanic ''kfree'' else
     kthen (kmemset v 1 PGSIZE)
     (kbind (kget use_lock) (\<lambda>ul.
      kthen (kwhen ul (acquire L_kmem))
     (kbind (kget freelist) (\<lambda>fl.
      kthen (store32 v fl)
     (kthen (kmod (\<lambda>s. s\<lparr>freelist := v\<rparr>))
            (kwhen ul (release L_kmem))))))))"

definition kalloc :: "u32 kk" where
  "kalloc =
     kbind (kget use_lock) (\<lambda>ul.
     kthen (kwhen ul (acquire L_kmem))
     (kbind (kget freelist) (\<lambda>r.
      kthen (if r \<noteq> 0 then kbind (load32 r) (\<lambda>nx. kmod (\<lambda>s. s\<lparr>freelist := nx\<rparr>)) else kret ())
     (kthen (kwhen ul (release L_kmem))
            (kret r)))))"

text \<open>The loop of \<open>freerange\<close> with the number of whole pages left as its bound.\<close>

fun freerange_from :: "nat \<Rightarrow> u32 \<Rightarrow> u32 \<Rightarrow> unit kk" where
  "freerange_from 0 p vend = (\<lambda>s. NoFuel)"
| "freerange_from (Suc n) p vend =
     (if p + PGSIZE \<le> vend then kthen (kfree p) (freerange_from n (p + PGSIZE) vend) else kret ())"

definition freerange :: "u32 \<Rightarrow> u32 \<Rightarrow> unit kk" where
  "freerange vstart vend =
     (let p = PGROUNDUP vstart in freerange_from (Suc (unat (vend - p) div 4096)) p vend)"

definition kinit1 :: "u32 \<Rightarrow> u32 \<Rightarrow> unit kk" where
  "kinit1 vstart vend = kthen (kmod (\<lambda>s. s\<lparr>use_lock := False\<rparr>)) (freerange vstart vend)"

definition kinit2 :: "u32 \<Rightarrow> u32 \<Rightarrow> unit kk" where
  "kinit2 vstart vend = kthen (freerange vstart vend) (kmod (\<lambda>s. s\<lparr>use_lock := True\<rparr>))"

lemmas mem_op_defs = load32_def store32_def kmemset_def kmemmove_def kwrite_bytes_def

section \<open>The free list as a list of pages\<close>

fun free_list :: "bytes \<Rightarrow> u32 \<Rightarrow> u32 list \<Rightarrow> bool" where
  "free_list m r [] \<longleftrightarrow> r = 0"
| "free_list m r (p # ps) \<longleftrightarrow> r = p \<and> p \<noteq> 0 \<and> free_list m (get32 m (unat p)) ps"

definition kpage :: "kernel \<Rightarrow> u32 \<Rightarrow> bool" where
  "kpage s p \<longleftrightarrow> page_aligned p \<and> sym_end (syms s) \<le> p \<and> V2P p < PHYSTOP \<and> p \<noteq> 0"

definition kmem_inv :: "kernel \<Rightarrow> u32 list \<Rightarrow> bool" where
  "kmem_inv s ps \<longleftrightarrow> free_list (mem s) (freelist s) ps \<and> distinct ps \<and> (\<forall>p \<in> set ps. kpage s p)"

text \<open>The bytes of a page.\<close>

definition page_bytes :: "u32 \<Rightarrow> nat set" where
  "page_bytes p = {unat p ..< unat p + 4096}"

lemma page_bytes_disjoint:
  assumes "page_aligned p" "page_aligned q" "p \<noteq> q"
  shows "page_bytes p \<inter> page_bytes q = {}"
proof -
  from assms obtain a b where a: "unat p = 4096 * a" and b: "unat q = 4096 * b"
    unfolding page_aligned_iff dvd_def by blast
  with assms(3) have "a \<noteq> b" by (auto simp: word_unat_eq_iff)
  with a b show ?thesis by (auto simp: page_bytes_def)
qed

lemma free_list_unique: "free_list m r ps \<Longrightarrow> free_list m r qs \<Longrightarrow> ps = qs"
proof (induction ps arbitrary: r qs)
  case Nil
  then show ?case by (cases qs) auto
next
  case (Cons p ps)
  then show ?case by (cases qs) auto
qed

lemma free_list_cong:
  assumes "\<And>p. p \<in> set ps \<Longrightarrow> get32 m' (unat p) = get32 m (unat p)"
  shows "free_list m' r ps = free_list m r ps"
  using assms by (induction ps arbitrary: r) auto

lemma get32_outside:
  assumes "\<And>x. x \<in> page_bytes p \<Longrightarrow> m' x = m x"
  shows "get32 m' (unat p) = get32 m (unat p)"
  by (rule get32_cong) (use assms in \<open>auto simp: page_bytes_def\<close>)

text \<open>Running the two operations, with the lock discipline discharged.\<close>

definition kfree_mem :: "bytes \<Rightarrow> u32 \<Rightarrow> u32 \<Rightarrow> bytes" where
  "kfree_mem m v fl = put32 (memset m (unat v) 1 4096) (unat v) fl"

lemma kalloc_app:
  assumes "L_kmem \<notin> set (held s)"
  shows "kalloc s = Ret (freelist s)
     (if freelist s = 0 then s else s\<lparr>freelist := get32 (mem s) (unat (freelist s))\<rparr>)"
  using assms
  by (cases "use_lock s") (simp_all add: kalloc_def acquire_app release_app load32_def)

lemma kfree_app:
  assumes "L_kmem \<notin> set (held s)"
  shows "kfree v s =
     (if v mod PGSIZE \<noteq> 0 \<or> v < sym_end (syms s) \<or> V2P v \<ge> PHYSTOP then Panic ''kfree''
      else Ret () (s\<lparr>mem := kfree_mem (mem s) v (freelist s), freelist := v\<rparr>))"
  using assms
  by (cases "use_lock s")
     (simp_all add: kfree_def acquire_app release_app mem_op_defs kfree_mem_def PGSIZE_def)

lemma kfree_mem_outside: "x \<notin> page_bytes v \<Longrightarrow> kfree_mem m v fl x = m x"
  by (auto simp: kfree_mem_def memset_eq put32_other page_bytes_def)

lemma get32_kfree_mem [simp]: "get32 (kfree_mem m v fl) (unat v) = fl"
  by (simp add: kfree_mem_def)

lemma kmem_inv_kfree:
  assumes inv: "kmem_inv s ps" and p: "kpage s p" "p \<notin> set ps"
  shows "kmem_inv (s\<lparr>mem := kfree_mem (mem s) p (freelist s), freelist := p\<rparr>) (p # ps)"
proof -
  have "get32 (kfree_mem (mem s) p (freelist s)) (unat q) = get32 (mem s) (unat q)" if "q \<in> set ps" for q
  proof (rule get32_outside)
    fix x
    assume "x \<in> page_bytes q"
    moreover have "page_aligned p" "page_aligned q" "p \<noteq> q"
      using that inv p by (auto simp: kmem_inv_def kpage_def)
    ultimately have "x \<notin> page_bytes p" using page_bytes_disjoint by blast
    then show "kfree_mem (mem s) p (freelist s) x = mem s x" by (rule kfree_mem_outside)
  qed
  then have "free_list (kfree_mem (mem s) p (freelist s)) (freelist s) ps = free_list (mem s) (freelist s) ps"
    by (rule free_list_cong)
  with inv p show ?thesis by (auto simp: kmem_inv_def kpage_def)
qed

lemma kmem_inv_kalloc:
  assumes "kmem_inv s (p # ps)"
  shows "freelist s = p" "p \<noteq> 0" "kmem_inv (s\<lparr>freelist := get32 (mem s) (unat p)\<rparr>) ps"
  using assms by (auto simp: kmem_inv_def kpage_def)

section \<open>The contract of the allocator\<close>

text \<open>Repeating an operation and collecting its results.\<close>

fun krepeat :: "nat \<Rightarrow> ('s, 'a) km \<Rightarrow> ('s, 'a list) km" where
  "krepeat 0 m = kret []"
| "krepeat (Suc n) m = kbind m (\<lambda>x. kbind (krepeat n m) (\<lambda>xs. kret (x # xs)))"

locale page_allocator =
  fixes alloc :: "('s, u32) km"
    and free :: "u32 \<Rightarrow> ('s, unit) km"
    and inv :: "'s \<Rightarrow> u32 list \<Rightarrow> bool"
    and ok :: "'s \<Rightarrow> u32 \<Rightarrow> bool"
  assumes alloc_none: "inv s [] \<Longrightarrow> alloc s = Ret 0 s"
    and alloc_some: "inv s (p # ps) \<Longrightarrow> \<exists>t. alloc s = Ret p t \<and> inv t ps \<and> ok t = ok s"
    and free_some: "inv s ps \<Longrightarrow> ok s p \<Longrightarrow> p \<notin> set ps \<Longrightarrow>
      \<exists>t. free p s = Ret () t \<and> inv t (p # ps) \<and> ok t = ok s"
    and inv_pages: "inv s ps \<Longrightarrow> distinct ps \<and> (\<forall>p \<in> set ps. ok s p \<and> p \<noteq> 0)"
begin

lemma alloc_fresh:
  assumes "inv s ps"
  shows "\<exists>p t. alloc s = Ret p t \<and> (p = 0 \<longleftrightarrow> ps = []) \<and> inv t (tl ps) \<and> p \<notin> set (tl ps)"
proof (cases ps)
  case Nil
  with assms show ?thesis using alloc_none by auto
next
  case (Cons p qs)
  with assms alloc_some obtain t where "alloc s = Ret p t" "inv t qs" by blast
  with assms inv_pages [of s ps] Cons show ?thesis by auto
qed

lemma alloc_many:
  assumes "inv s ps" and "n \<le> length ps"
  shows "\<exists>t. krepeat n alloc s = Ret (take n ps) t \<and> inv t (drop n ps) \<and> ok t = ok s"
  using assms
proof (induction n arbitrary: s ps)
  case 0
  then show ?case by simp
next
  case (Suc n)
  then obtain p qs where ps: "ps = p # qs" by (cases ps) auto
  with Suc.prems alloc_some obtain t where t: "alloc s = Ret p t" "inv t qs" "ok t = ok s" by blast
  with Suc.IH [OF t(2)] Suc.prems ps obtain u where
    "krepeat n alloc t = Ret (take n qs) u" "inv u (drop n qs)" "ok u = ok t" by auto
  with t ps show ?case by auto
qed

lemma alloc_many_distinct:
  assumes "inv s ps" and "n \<le> length ps"
  obtains qs t where "krepeat n alloc s = Ret qs t" "length qs = n" "distinct qs" "0 \<notin> set qs"
    "inv t (drop n ps)" "set qs \<inter> set (drop n ps) = {}"
proof -
  from alloc_many [OF assms] obtain t where
    t: "krepeat n alloc s = Ret (take n ps) t" "inv t (drop n ps)" by blast
  moreover have "distinct ps" "0 \<notin> set ps" using inv_pages [OF assms(1)] by auto
  ultimately show thesis
    using that [of "take n ps" t] assms(2)
    by (auto simp: set_take_disj_set_drop_if_distinct dest: in_set_takeD)
qed

lemma free_then_alloc:
  assumes "inv s ps" "ok s p" "p \<notin> set ps"
  shows "\<exists>t u. free p s = Ret () t \<and> alloc t = Ret p u \<and> inv u ps"
  using free_some [OF assms] alloc_some by blast

end

definition kmem_ready :: "kernel \<Rightarrow> u32 list \<Rightarrow> bool" where
  "kmem_ready s ps \<longleftrightarrow> kmem_inv s ps \<and> L_kmem \<notin> set (held s)"

lemma kfree_kpage:
  "kpage s p \<Longrightarrow> L_kmem \<notin> set (held s) \<Longrightarrow>
   kfree p s = Ret () (s\<lparr>mem := kfree_mem (mem s) p (freelist s), freelist := p\<rparr>)"
  by (simp add: kfree_app kpage_def page_aligned_def not_less not_le)

lemma kpage_cong: "syms t = syms s \<Longrightarrow> kpage t = kpage s"
  by (simp add: kpage_def fun_eq_iff)

interpretation kpages: page_allocator kalloc kfree kmem_ready kpage
proof unfold_locales
  fix s
  assume "kmem_ready s []"
  then show "kalloc s = Ret 0 s" by (simp add: kmem_ready_def kmem_inv_def kalloc_app)
next
  fix s p ps
  assume *: "kmem_ready s (p # ps)"
  let ?t = "s\<lparr>freelist := get32 (mem s) (unat p)\<rparr>"
  have "kmem_inv s (p # ps)" "L_kmem \<notin> set (held s)" using * by (simp_all add: kmem_ready_def)
  note inv = kmem_inv_kalloc [OF this(1)] and lk = this(2)
  have "kalloc s = Ret p ?t" using inv lk by (simp add: kalloc_app)
  moreover have "kmem_ready ?t ps" using inv lk by (simp add: kmem_ready_def)
  moreover have "kpage ?t = kpage s" by (rule kpage_cong) simp
  ultimately show "\<exists>t. kalloc s = Ret p t \<and> kmem_ready t ps \<and> kpage t = kpage s" by blast
next
  fix s ps p
  assume *: "kmem_ready s ps" "kpage s p" "p \<notin> set ps"
  let ?t = "s\<lparr>mem := kfree_mem (mem s) p (freelist s), freelist := p\<rparr>"
  have inv: "kmem_inv ?t (p # ps)" and lk: "L_kmem \<notin> set (held s)"
    using * kmem_inv_kfree [of s ps p] by (simp_all add: kmem_ready_def)
  have "kfree p s = Ret () ?t" using * lk by (rule_tac kfree_kpage)
  moreover have "kmem_ready ?t (p # ps)" using inv lk by (simp add: kmem_ready_def)
  moreover have "kpage ?t = kpage s" by (rule kpage_cong) simp
  ultimately show "\<exists>t. kfree p s = Ret () t \<and> kmem_ready t (p # ps) \<and> kpage t = kpage s" by blast
next
  fix s ps
  assume "kmem_ready s ps"
  then show "distinct ps \<and> (\<forall>p \<in> set ps. kpage s p \<and> p \<noteq> 0)"
    by (auto simp: kmem_ready_def kmem_inv_def kpage_def)
qed

section \<open>Building the free list\<close>

fun pages_from :: "nat \<Rightarrow> u32 \<Rightarrow> u32 list" where
  "pages_from 0 p = []"
| "pages_from (Suc n) p = p # pages_from n (p + PGSIZE)"

lemma unat_add_page: "unat p + 4096 < 2 ^ 32 \<Longrightarrow> unat (p + PGSIZE) = unat p + 4096"
  by (simp add: PGSIZE_def unat_word_ariths)

lemma page_aligned_add: "page_aligned p \<Longrightarrow> page_aligned (p + PGSIZE)"
proof -
  assume "page_aligned p"
  then have "4096 dvd unat p + 4096" by (simp add: page_aligned_iff)
  then have "4096 dvd (unat p + 4096) mod 2 ^ 32" by (rule dvd_mod) simp
  then show ?thesis by (simp add: page_aligned_iff PGSIZE_def unat_word_ariths)
qed

lemma set_pages_from:
  "q \<in> set (pages_from n p) \<Longrightarrow> unat p + 4096 * n < 2 ^ 32 \<Longrightarrow>
   \<exists>i < n. unat q = unat p + 4096 * i"
proof (induction n arbitrary: p)
  case 0
  then show ?case by simp
next
  case (Suc n)
  show ?case
  proof (cases "q = p")
    case True
    then show ?thesis by auto
  next
    case False
    then have "q \<in> set (pages_from n (p + PGSIZE))" using Suc.prems by simp
    moreover have up: "unat (p + PGSIZE) = unat p + 4096"
      by (rule unat_add_page) (use Suc.prems in simp)
    ultimately obtain i where "i < n" "unat q = unat (p + PGSIZE) + 4096 * i"
      using Suc.IH [of "p + PGSIZE"] Suc.prems by auto
    then show ?thesis using up by (intro exI [of _ "Suc i"]) simp
  qed
qed

lemma pages_from_aligned: "page_aligned p \<Longrightarrow> q \<in> set (pages_from n p) \<Longrightarrow> page_aligned q"
  by (induction n arbitrary: p) (auto dest: page_aligned_add)

lemma page_notin_later: "unat p + 4096 * Suc n < 2 ^ 32 \<Longrightarrow> p \<notin> set (pages_from n (p + PGSIZE))"
  using set_pages_from [of p n "p + PGSIZE"] unat_add_page [of p] by auto

lemma freerange_from_spec:
  assumes "kmem_ready s ps"
    and "unat p + 4096 * n \<le> unat vend" "unat vend < unat p + 4096 * Suc n"
    and "unat vend + 4096 < 2 ^ 32"
    and "\<And>q. q \<in> set (pages_from n p) \<Longrightarrow> kpage s q \<and> q \<notin> set ps"
  shows "\<exists>t. freerange_from (Suc n) p vend s = Ret () t \<and> kmem_ready t (rev (pages_from n p) @ ps)
     \<and> syms t = syms s"
  using assms
proof (induction n arbitrary: s p ps)
  case 0
  have "unat (p + PGSIZE) = unat p + 4096" by (rule unat_add_page) (use 0 in simp)
  then have "\<not> p + PGSIZE \<le> vend" using 0 by (simp add: word_le_nat_alt)
  with 0 show ?case by simp
next
  case (Suc n)
  let ?t = "s\<lparr>mem := kfree_mem (mem s) p (freelist s), freelist := p\<rparr>"
  have up: "unat (p + PGSIZE) = unat p + 4096" by (rule unat_add_page) (use Suc.prems in simp)
  then have le: "p + PGSIZE \<le> vend" using Suc.prems by (simp add: word_le_nat_alt)
  have p: "kpage s p" "p \<notin> set ps" using Suc.prems(5) [of p] by simp_all
  have lk: "L_kmem \<notin> set (held s)" "kmem_inv s ps" using Suc.prems(1) by (simp_all add: kmem_ready_def)
  have run: "kfree p s = Ret () ?t" by (rule kfree_kpage) (fact p lk)+
  have rdy: "kmem_ready ?t (p # ps)"
    using kmem_inv_kfree [OF lk(2) p] lk by (simp add: kmem_ready_def)
  have "\<exists>u. freerange_from (Suc n) (p + PGSIZE) vend ?t = Ret () u
      \<and> kmem_ready u (rev (pages_from n (p + PGSIZE)) @ p # ps) \<and> syms u = syms ?t"
  proof (rule Suc.IH [OF rdy])
    show "unat (p + PGSIZE) + 4096 * n \<le> unat vend" "unat vend < unat (p + PGSIZE) + 4096 * Suc n"
      using Suc.prems up by simp_all
    show "unat vend + 4096 < 2 ^ 32" by (fact Suc.prems)
    fix q
    assume q: "q \<in> set (pages_from n (p + PGSIZE))"
    have "p \<notin> set (pages_from n (p + PGSIZE))"
      by (rule page_notin_later) (use Suc.prems in simp)
    with q Suc.prems(5) [of q] show "kpage ?t q \<and> q \<notin> set (p # ps)"
      using kpage_cong [of ?t s] by auto
  qed
  then show ?case using le run by (simp del: freerange_from.simps add: freerange_from.simps(2) [of "Suc n"])
qed

lemma kpage_in_range:
  assumes "page_aligned q" "sym_end (syms s) \<le> q" "KERNBASE \<le> q" "unat q < unat KERNBASE + unat PHYSTOP"
  shows "kpage s q"
proof -
  have "unat (V2P q) = unat q - unat KERNBASE"
    using assms(3) by (simp add: V2P_def unat_sub)
  with assms have "V2P q < PHYSTOP" by (simp add: word_less_nat_alt layout_defs word_le_nat_alt)
  moreover have "q \<noteq> 0" using assms(3) by (auto simp: KERNBASE_def)
  ultimately show ?thesis using assms by (simp add: kpage_def)
qed

lemma freerange_run:
  assumes rdy: "kmem_ready s ps"
    and lo: "sym_end (syms s) \<le> vstart" "KERNBASE \<le> vstart"
    and hi: "vstart \<le> vend" "unat vend \<le> unat KERNBASE + unat PHYSTOP"
    and new: "\<And>q. q \<in> set ps \<Longrightarrow> q < vstart \<or> vend \<le> q"
  defines "p \<equiv> PGROUNDUP vstart"
  shows "\<exists>t. freerange vstart vend s = Ret () t
     \<and> kmem_ready t (rev (pages_from ((unat vend - unat p) div 4096) p) @ ps) \<and> syms t = syms s"
proof -
  have vend: "unat vend \<le> 0x8E000000" using hi by (simp add: layout_defs)
  have "unat vstart \<le> unat vend" using hi(1) by (simp add: word_le_nat_alt)
  with vend have up: "unat p = ((unat vstart + 4095) div 4096) * 4096"
    unfolding p_def by (intro unat_PGROUNDUP) simp
  then have vp: "unat vstart \<le> unat p" by linarith
  have al: "page_aligned p" by (simp add: p_def)
  show ?thesis
  proof (cases "p \<le> vend")
    case False
    then have "unat vend < unat p" by (simp add: word_le_nat_alt)
    moreover have "unat p \<le> unat vstart + 4095" using up by linarith
    then have "unat (p + PGSIZE) = unat p + 4096"
      by (intro unat_add_page) (use vend \<open>unat vstart \<le> unat vend\<close> in simp)
    ultimately have "\<not> p + PGSIZE \<le> vend" by (simp add: word_le_nat_alt)
    with rdy \<open>unat vend < unat p\<close> show ?thesis
      by (simp add: freerange_def Let_def flip: p_def)
  next
    case True
    define n where "n = (unat vend - unat p) div 4096"
    have uv: "unat (vend - p) = unat vend - unat p" using True by (rule unat_sub)
    have pv: "unat p \<le> unat vend" using True by (simp add: word_le_nat_alt)
    have "\<exists>t. freerange_from (Suc n) p vend s = Ret () t
        \<and> kmem_ready t (rev (pages_from n p) @ ps) \<and> syms t = syms s"
    proof (rule freerange_from_spec [OF rdy])
      show le: "unat p + 4096 * n \<le> unat vend"
        using pv unfolding n_def by linarith
      have "unat vend - unat p < 4096 * n + 4096" unfolding n_def by linarith
      then show "unat vend < unat p + 4096 * Suc n" using pv by simp
      show "unat vend + 4096 < 2 ^ 32" using vend by simp
      fix q
      assume q: "q \<in> set (pages_from n p)"
      then obtain i where i: "i < n" "unat q = unat p + 4096 * i"
        using set_pages_from [OF q] le vend by auto
      have "unat q < unat vend" using i le by linarith
      moreover have "unat vstart \<le> unat q" using i vp by linarith
      ultimately have b: "vstart \<le> q" "q < vend" by (simp_all add: word_le_nat_alt word_less_nat_alt)
      then have "q \<notin> set ps" using new [of q] by auto
      moreover have "kpage s q"
      proof (rule kpage_in_range)
        show "page_aligned q" by (rule pages_from_aligned [OF al q])
        show "sym_end (syms s) \<le> q" "KERNBASE \<le> q" using b lo by order+
        show "unat q < unat KERNBASE + unat PHYSTOP" using \<open>unat q < unat vend\<close> hi(2) by linarith
      qed
      ultimately show "kpage s q \<and> q \<notin> set ps" by simp
    qed
    then show ?thesis
      by (simp del: freerange_from.simps add: freerange_def Let_def uv n_def flip: p_def)
  qed
qed

end
