(* ===== verification/Vm.thy ===== *)
theory Vm
  imports Kalloc
begin

unbundle bit_operations_syntax

text \<open>
  Page tables and address spaces (\<open>vm.c\<close>). A page directory and its page tables are pages of
  the kernel's memory and are read and written as the code does, word by word. Loops that walk
  the address space in steps of a page carry the number of pages as their bound.
\<close>

section \<open>Walking and filling page tables\<close>

definition walkpgdir :: "u32 \<Rightarrow> u32 \<Rightarrow> bool \<Rightarrow> u32 kk" where
  "walkpgdir pgdir va alloc =
     (let pde = pgdir + PDX va * 4 in
      kbind (load32 pde) (\<lambda>e.
      if e AND PTE_P \<noteq> 0 then kret (P2V (PTE_ADDR e) + PTX va * 4)
      else if \<not> alloc then kret 0
      else kbind kalloc (\<lambda>pgtab.
        if pgtab = 0 then kret 0
        else kthen (kmemset pgtab 0 PGSIZE)
             (kthen (store32 pde (V2P pgtab OR PTE_P OR PTE_W OR PTE_U))
                    (kret (pgtab + PTX va * 4))))))"

fun mappages_loop :: "nat \<Rightarrow> u32 \<Rightarrow> u32 \<Rightarrow> u32 \<Rightarrow> u32 \<Rightarrow> u32 \<Rightarrow> int kk" where
  "mappages_loop 0 pgdir a lst pa perm = (\<lambda>s. NoFuel)"
| "mappages_loop (Suc n) pgdir a lst pa perm =
     kbind (walkpgdir pgdir a True) (\<lambda>pte.
     if pte = 0 then kret (-1) else
     kbind (load32 pte) (\<lambda>e.
     if e AND PTE_P \<noteq> 0 then kpanic ''remap'' else
     kthen (store32 pte (pa OR perm OR PTE_P))
     (if a = lst then kret 0
      else mappages_loop n pgdir (a + PGSIZE) lst (pa + PGSIZE) perm)))"

definition mappages :: "u32 \<Rightarrow> u32 \<Rightarrow> u32 \<Rightarrow> u32 \<Rightarrow> u32 \<Rightarrow> int kk" where
  "mappages pgdir va sz pa perm =
     (let a = PGROUNDDOWN va; lst = PGROUNDDOWN (va + sz - 1)
      in mappages_loop (Suc (unat (lst - a) div 4096)) pgdir a lst pa perm)"

section \<open>Freeing\<close>

fun deallocuvm_loop :: "nat \<Rightarrow> u32 \<Rightarrow> u32 \<Rightarrow> u32 \<Rightarrow> unit kk" where
  "deallocuvm_loop 0 pgdir a oldsz = (\<lambda>s. NoFuel)"
| "deallocuvm_loop (Suc n) pgdir a oldsz =
     (if a < oldsz then
        kbind (walkpgdir pgdir a False) (\<lambda>pte.
        if pte = 0 then deallocuvm_loop n pgdir (PGADDR (PDX a + 1) 0 0 - PGSIZE + PGSIZE) oldsz
        else kbind (load32 pte) (\<lambda>e.
          if e AND PTE_P \<noteq> 0 then
            (let pa = PTE_ADDR e in
             if pa = 0 then kpanic ''kfree''
             else kthen (kfree (P2V pa))
                  (kthen (store32 pte 0) (deallocuvm_loop n pgdir (a + PGSIZE) oldsz)))
          else deallocuvm_loop n pgdir (a + PGSIZE) oldsz))
      else kret ())"

definition deallocuvm :: "u32 \<Rightarrow> u32 \<Rightarrow> u32 \<Rightarrow> u32 kk" where
  "deallocuvm pgdir oldsz newsz =
     (if newsz \<ge> oldsz then kret oldsz
      else kthen (deallocuvm_loop (unat oldsz div 4096 + 2) pgdir (PGROUNDUP newsz) oldsz)
                 (kret newsz))"

definition freevm :: "u32 \<Rightarrow> unit kk" where
  "freevm pgdir =
     (if pgdir = 0 then kpanic ''freevm: no pgdir''
      else kthen (deallocuvm pgdir KERNBASE 0)
           (kthen (kfor [0 ..< NPDENTRIES] (\<lambda>i.
              kbind (load32 (pgdir + of_nat i * 4)) (\<lambda>e.
              kwhen (e AND PTE_P \<noteq> 0) (kfree (P2V (PTE_ADDR e))))))
            (kfree pgdir)))"

section \<open>The kernel part of every address space\<close>

record kmap =
  km_virt :: u32
  km_phys_start :: u32
  km_phys_end :: u32
  km_perm :: u32

definition kmap_table :: "kernel \<Rightarrow> kmap list" where
  "kmap_table s =
    [\<lparr>km_virt = KERNBASE, km_phys_start = 0, km_phys_end = EXTMEM, km_perm = PTE_W\<rparr>,
     \<lparr>km_virt = KERNLINK, km_phys_start = V2P KERNLINK, km_phys_end = V2P (sym_data (syms s)), km_perm = 0\<rparr>,
     \<lparr>km_virt = sym_data (syms s), km_phys_start = V2P (sym_data (syms s)), km_phys_end = PHYSTOP,
        km_perm = PTE_W\<rparr>,
     \<lparr>km_virt = DEVSPACE, km_phys_start = DEVSPACE, km_phys_end = 0, km_perm = PTE_W\<rparr>]"

fun setupkvm_loop :: "u32 \<Rightarrow> kmap list \<Rightarrow> u32 kk" where
  "setupkvm_loop pgdir [] = kret pgdir"
| "setupkvm_loop pgdir (k # ks) =
     kbind (mappages pgdir (km_virt k) (km_phys_end k - km_phys_start k) (km_phys_start k) (km_perm k)) (\<lambda>r.
     if r < 0 then kthen (freevm pgdir) (kret 0) else setupkvm_loop pgdir ks)"

definition setupkvm :: "u32 kk" where
  "setupkvm =
     kbind kalloc (\<lambda>pgdir.
     if pgdir = 0 then kret 0 else
     kthen (kmemset pgdir 0 PGSIZE)
     (if P2V PHYSTOP > DEVSPACE then kpanic ''PHYSTOP too high''
      else kbind (kget kmap_table) (setupkvm_loop pgdir)))"

definition switchkvm :: "unit kk" where
  "switchkvm = kmod (\<lambda>s. s\<lparr>cr3 := V2P (kpgdir s)\<rparr>)"

definition kvmalloc :: "unit kk" where
  "kvmalloc = kbind setupkvm (\<lambda>d. kthen (kmod (\<lambda>s. s\<lparr>kpgdir := d\<rparr>)) switchkvm)"

text \<open>
  Of the task state segment only the kernel stack pointer is kept; the descriptor fields are
  constants of the hardware.
\<close>

definition switchuvm :: "pptr \<Rightarrow> unit kk" where
  "switchuvm p =
     (case p of
        None \<Rightarrow> kpanic ''switchuvm: no process''
      | Some i \<Rightarrow>
          kbind (kget (proc_at i)) (\<lambda>q.
          if p_kstack q = 0 then kpanic ''switchuvm: no kstack''
          else if p_pgdir q = 0 then kpanic ''switchuvm: no pgdir''
          else kmod (\<lambda>s. s\<lparr>esp0 := p_kstack q + KSTACKSIZE, cr3 := V2P (p_pgdir q)\<rparr>)))"

section \<open>User address spaces\<close>

definition inituvm :: "u32 \<Rightarrow> bytes \<Rightarrow> u32 \<Rightarrow> unit kk" where
  "inituvm pgdir init sz =
     (if sz \<ge> PGSIZE then kpanic ''inituvm: more than a page''
      else kbind kalloc (\<lambda>m.
           kthen (kmemset m 0 PGSIZE)
           (kthen (mappages pgdir 0 PGSIZE (V2P m) (PTE_W OR PTE_U))
                  (kwrite_bytes m init sz))))"

fun allocuvm_loop :: "nat \<Rightarrow> u32 \<Rightarrow> u32 \<Rightarrow> u32 \<Rightarrow> u32 \<Rightarrow> u32 kk" where
  "allocuvm_loop 0 pgdir a oldsz newsz = (\<lambda>s. NoFuel)"
| "allocuvm_loop (Suc n) pgdir a oldsz newsz =
     (if a < newsz then
        kbind kalloc (\<lambda>m.
        if m = 0 then kthen (deallocuvm pgdir newsz oldsz) (kret 0)
        else kthen (kmemset m 0 PGSIZE)
             (kbind (mappages pgdir a PGSIZE (V2P m) (PTE_W OR PTE_U)) (\<lambda>r.
              if r < 0 then kthen (deallocuvm pgdir newsz oldsz) (kthen (kfree m) (kret 0))
              else allocuvm_loop n pgdir (a + PGSIZE) oldsz newsz)))
      else kret newsz)"

definition allocuvm :: "u32 \<Rightarrow> u32 \<Rightarrow> u32 \<Rightarrow> u32 kk" where
  "allocuvm pgdir oldsz newsz =
     (if newsz \<ge> KERNBASE then kret 0
      else if newsz < oldsz then kret oldsz
      else allocuvm_loop (unat newsz div 4096 + 2) pgdir (PGROUNDUP oldsz) oldsz newsz)"

definition clearpteu :: "u32 \<Rightarrow> u32 \<Rightarrow> unit kk" where
  "clearpteu pgdir uva =
     kbind (walkpgdir pgdir uva False) (\<lambda>pte.
     if pte = 0 then kpanic ''clearpteu''
     else kbind (load32 pte) (\<lambda>e. store32 pte (e AND NOT PTE_U)))"

fun copyuvm_loop :: "nat \<Rightarrow> u32 \<Rightarrow> u32 \<Rightarrow> u32 \<Rightarrow> u32 \<Rightarrow> u32 kk" where
  "copyuvm_loop 0 pgdir d i sz = (\<lambda>s. NoFuel)"
| "copyuvm_loop (Suc n) pgdir d i sz =
     (if i < sz then
        kbind (walkpgdir pgdir i False) (\<lambda>pte.
        if pte = 0 then kpanic ''copyuvm: pte should exist'' else
        kbind (load32 pte) (\<lambda>e.
        if e AND PTE_P = 0 then kpanic ''copyuvm: page not present'' else
        (let pa = PTE_ADDR e; flags = PTE_FLAGS e in
         kbind kalloc (\<lambda>m.
         if m = 0 then kthen (freevm d) (kret 0) else
         kthen (kmemmove m (P2V pa) PGSIZE)
         (kbind (mappages d i PGSIZE (V2P m) flags) (\<lambda>r.
          if r < 0 then kthen (kfree m) (kthen (freevm d) (kret 0))
          else copyuvm_loop n pgdir d (i + PGSIZE) sz))))))
      else kret d)"

definition copyuvm :: "u32 \<Rightarrow> u32 \<Rightarrow> u32 kk" where
  "copyuvm pgdir sz =
     kbind setupkvm (\<lambda>d. if d = 0 then kret 0 else copyuvm_loop (unat sz div 4096 + 2) pgdir d 0 sz)"

definition uva2ka :: "u32 \<Rightarrow> u32 \<Rightarrow> u32 kk" where
  "uva2ka pgdir uva =
     kbind (walkpgdir pgdir uva False) (\<lambda>pte.
     if pte = 0 then kpanic ''null pointer'' else
     kbind (load32 pte) (\<lambda>e.
     if e AND PTE_P = 0 then kret 0
     else if e AND PTE_U = 0 then kret 0
     else kret (P2V (PTE_ADDR e))))"

fun copyout_loop :: "nat \<Rightarrow> u32 \<Rightarrow> u32 \<Rightarrow> bytes \<Rightarrow> u32 \<Rightarrow> int kk" where
  "copyout_loop 0 pgdir va src len = (\<lambda>s. NoFuel)"
| "copyout_loop (Suc n) pgdir va src len =
     (if len > 0 then
        (let va0 = PGROUNDDOWN va in
         kbind (uva2ka pgdir va0) (\<lambda>pa0.
         if pa0 = 0 then kret (-1) else
         (let k = (if PGSIZE - (va - va0) > len then len else PGSIZE - (va - va0)) in
          kthen (kwrite_bytes (pa0 + (va - va0)) src k)
                (copyout_loop n pgdir (va0 + PGSIZE) (\<lambda>x. src (unat k + x)) (len - k)))))
      else kret 0)"

definition copyout :: "u32 \<Rightarrow> u32 \<Rightarrow> bytes \<Rightarrow> u32 \<Rightarrow> int kk" where
  "copyout pgdir va src len = copyout_loop (Suc (unat len)) pgdir va src len"

section \<open>Frame: only memory and the free list change\<close>

definition phys_eq :: "kernel \<Rightarrow> kernel \<Rightarrow> bool" where
  "phys_eq s t \<longleftrightarrow> (\<exists>m fl. t = s\<lparr>mem := m, freelist := fl\<rparr>)"

lemma phys_eq_upd [simp]: "phys_eq s (s\<lparr>mem := m\<rparr>)" "phys_eq s (s\<lparr>freelist := fl\<rparr>)"
  "phys_eq s (s\<lparr>mem := m, freelist := fl\<rparr>)"
proof -
  have "s\<lparr>mem := m\<rparr> = s\<lparr>mem := m, freelist := freelist s\<rparr>"
    "s\<lparr>freelist := fl\<rparr> = s\<lparr>mem := mem s, freelist := fl\<rparr>" by simp_all
  then show "phys_eq s (s\<lparr>mem := m\<rparr>)" "phys_eq s (s\<lparr>freelist := fl\<rparr>)"
    unfolding phys_eq_def by blast+
  show "phys_eq s (s\<lparr>mem := m, freelist := fl\<rparr>)" unfolding phys_eq_def by blast
qed

interpretation phys: frame_relation phys_eq
proof
  show "phys_eq s s" for s using phys_eq_upd(1) [of s "mem s"] by simp
  show "phys_eq s t \<Longrightarrow> phys_eq t u \<Longrightarrow> phys_eq s u" for s t u
    by (auto simp: phys_eq_def [of s t] phys_eq_def [of t u])
qed

named_theorems phys_intros \<open>operations that change memory and the free list only\<close>

lemma phys_store32 [phys_intros]: "keeps phys_eq (store32 a v)"
  by (simp add: store32_def phys.keeps_kmod)

lemma phys_load32 [phys_intros]: "keeps phys_eq (load32 a)"
  by (simp add: load32_def phys.keeps_kget)

lemma phys_kmemset [phys_intros]: "keeps phys_eq (kmemset a c n)"
  by (simp add: kmemset_def phys.keeps_kmod)

lemma phys_kmemmove [phys_intros]: "keeps phys_eq (kmemmove d a n)"
  by (simp add: kmemmove_def phys.keeps_kmod)

lemma phys_kwrite_bytes [phys_intros]: "keeps phys_eq (kwrite_bytes d a n)"
  by (simp add: kwrite_bytes_def phys.keeps_kmod)

lemma phys_kalloc [phys_intros]: "keeps phys_eq kalloc"
proof (rule keeps_wlpI)
  fix s
  show "wlp kalloc (\<lambda>_. phys_eq s) (\<lambda>_. False) s"
    by (cases "use_lock s"; cases "L_kmem \<in> set (held s)"; cases "freelist s = 0")
       (auto simp: kalloc_def load32_def phys.R_refl)
qed

lemma phys_kfree [phys_intros]: "keeps phys_eq (kfree v)"
proof (rule keeps_wlpI)
  fix s
  show "wlp (kfree v) (\<lambda>_. phys_eq s) (\<lambda>_. False) s"
    by (cases "use_lock s"; cases "L_kmem \<in> set (held s)")
       (auto simp: kfree_def mem_op_defs)
qed

lemma phys_walkpgdir [phys_intros]: "keeps phys_eq (walkpgdir d va a)"
  unfolding walkpgdir_def by (intro phys.keeps_intros phys_intros)

lemma phys_mappages_loop [phys_intros]: "keeps phys_eq (mappages_loop n d a l pa pm)"
  by (induction n arbitrary: a pa) (auto intro!: phys.keeps_intros phys_intros)

lemma phys_mappages [phys_intros]: "keeps phys_eq (mappages d va n pa pm)"
  unfolding mappages_def Let_def by (rule phys_mappages_loop)

lemma phys_deallocuvm_loop [phys_intros]: "keeps phys_eq (deallocuvm_loop n d a old)"
  by (induction n arbitrary: a) (auto simp: Let_def intro!: phys.keeps_intros phys_intros)

lemma phys_deallocuvm [phys_intros]: "keeps phys_eq (deallocuvm d old new)"
  unfolding deallocuvm_def by (intro phys.keeps_intros phys_intros)

lemma phys_freevm [phys_intros]: "keeps phys_eq (freevm d)"
  unfolding freevm_def by (intro phys.keeps_intros phys_intros)

lemma phys_setupkvm_loop [phys_intros]: "keeps phys_eq (setupkvm_loop d ks)"
  by (induction ks) (auto intro!: phys.keeps_intros phys_intros)

lemma phys_setupkvm [phys_intros]: "keeps phys_eq setupkvm"
  unfolding setupkvm_def by (intro phys.keeps_intros phys_intros)

lemma phys_allocuvm_loop [phys_intros]: "keeps phys_eq (allocuvm_loop n d a old new)"
  by (induction n arbitrary: a) (auto intro!: phys.keeps_intros phys_intros)

lemma phys_allocuvm [phys_intros]: "keeps phys_eq (allocuvm d old new)"
  unfolding allocuvm_def by (intro phys.keeps_intros phys_intros)

lemma phys_copyuvm_loop [phys_intros]: "keeps phys_eq (copyuvm_loop n d e i sz)"
  by (induction n arbitrary: i) (auto simp: Let_def intro!: phys.keeps_intros phys_intros)

lemma phys_copyuvm [phys_intros]: "keeps phys_eq (copyuvm d sz)"
  unfolding copyuvm_def by (intro phys.keeps_intros phys_intros)

lemma phys_inituvm [phys_intros]: "keeps phys_eq (inituvm d b n)"
  unfolding inituvm_def by (intro phys.keeps_intros phys_intros)

lemma phys_clearpteu [phys_intros]: "keeps phys_eq (clearpteu d va)"
  unfolding clearpteu_def by (intro phys.keeps_intros phys_intros)

lemma phys_uva2ka [phys_intros]: "keeps phys_eq (uva2ka d va)"
  unfolding uva2ka_def by (intro phys.keeps_intros phys_intros)

lemma phys_copyout [phys_intros]: "keeps phys_eq (copyout d va src n)"
proof -
  have "keeps phys_eq (copyout_loop k d va src n)" for k
    by (induction k arbitrary: va src n) (auto simp: Let_def intro!: phys.keeps_intros phys_intros)
  then show ?thesis unfolding copyout_def .
qed

section \<open>Page tables as partial maps from page numbers to entries\<close>

text \<open>The i-th word of a page, and what a page directory maps a virtual page number to.\<close>

definition pg_word :: "bytes \<Rightarrow> u32 \<Rightarrow> nat \<Rightarrow> u32" where
  "pg_word m p i = get32 m (unat p + 4 * i)"

definition pde_present :: "bytes \<Rightarrow> u32 \<Rightarrow> nat \<Rightarrow> bool" where
  "pde_present m d i \<longleftrightarrow> pg_word m d i AND PTE_P \<noteq> 0"

definition pgtab_of :: "bytes \<Rightarrow> u32 \<Rightarrow> nat \<Rightarrow> u32" where
  "pgtab_of m d i = P2V (PTE_ADDR (pg_word m d i))"

definition pt_lookup :: "bytes \<Rightarrow> u32 \<Rightarrow> nat \<Rightarrow> u32 option" where
  "pt_lookup m d v =
     (let i = v div 1024; e = pg_word m (pgtab_of m d i) (v mod 1024)
      in if pde_present m d i \<and> e AND PTE_P \<noteq> 0 then Some e else None)"

text \<open>The pages of the table itself: in the allocator's range, pairwise distinct, not free.\<close>

definition pt_wf :: "kernel \<Rightarrow> u32 \<Rightarrow> u32 list \<Rightarrow> bool" where
  "pt_wf s d ps \<longleftrightarrow> kpage s d \<and> d \<notin> set ps
     \<and> (\<forall>i < 1024. pde_present (mem s) d i \<longrightarrow>
          kpage s (pgtab_of (mem s) d i) \<and> pgtab_of (mem s) d i \<noteq> d \<and> pgtab_of (mem s) d i \<notin> set ps)
     \<and> inj_on (pgtab_of (mem s) d) {i. i < 1024 \<and> pde_present (mem s) d i}"

lemma kpage_bound: "kpage s p \<Longrightarrow> unat p < 0x8E000000"
proof -
  assume "kpage s p"
  then have "unat (p - 0x80000000) < 0xE000000"
    by (simp add: kpage_def V2P_def layout_defs word_less_nat_alt)
  moreover have "unat p < 2 ^ 32" using unsigned_less [of p] by simp
  ultimately show ?thesis
    by (cases "0x80000000 \<le> p") (simp_all add: unat_sub word_le_nat_alt unat_sub_if')
qed

lemma slot_unat:
  assumes "kpage s p" "unat i < 1024"
  shows "unat (p + i * 4) = unat p + 4 * unat i"
proof -
  have "unat (i * 4) = 4 * unat i" using assms(2) by (simp add: unat_word_ariths)
  then show ?thesis using kpage_bound [OF assms(1)] assms(2) by (simp add: unat_word_ariths)
qed

lemma pg_word_cong:
  assumes "i < 1024" "\<And>x. x \<in> page_bytes p \<Longrightarrow> m' x = m x"
  shows "pg_word m' p i = pg_word m p i"
  unfolding pg_word_def by (rule get32_cong) (use assms in \<open>auto simp: page_bytes_def\<close>)

lemma pg_word_put:
  assumes "page_aligned p" "page_aligned q" "i < 1024" "j < 1024"
  shows "pg_word (put32 m (unat p + 4 * i) v) q j = (if p = q \<and> i = j then v else pg_word m q j)"
proof (cases "p = q")
  case True
  have "i \<noteq> j \<Longrightarrow> unat q + 4 * j + 4 \<le> unat q + 4 * i \<or> unat q + 4 * i + 4 \<le> unat q + 4 * j" by arith
  then show ?thesis using True get32_put32_other [of "unat q + 4 * j" "unat q + 4 * i" m v]
    by (auto simp: pg_word_def)
next
  case False
  have "put32 m (unat p + 4 * i) v x = m x" if "x \<in> page_bytes q" for x
  proof (rule put32_other)
    have "x \<notin> page_bytes p" using page_bytes_disjoint [OF assms(1,2) False] that by blast
    then show "x < unat p + 4 * i \<or> unat p + 4 * i + 4 \<le> x" using assms(3) by (auto simp: page_bytes_def)
  qed
  then have "pg_word (put32 m (unat p + 4 * i) v) q j = pg_word m q j" by (rule pg_word_cong [OF assms(4)])
  with False show ?thesis by simp
qed

lemma pg_word_zeroed:
  assumes "page_aligned p" "page_aligned q" "j < 1024"
  shows "pg_word (memset m (unat p) 0 4096) q j = (if p = q then 0 else pg_word m q j)"
proof (cases "p = q")
  case True
  have "memset m (unat p) 0 4096 x = 0" if "x \<in> page_bytes p" for x
    using that by (simp add: memset_eq page_bytes_def)
  then have "pg_word (memset m (unat p) 0 4096) p j = pg_word (\<lambda>_. 0) p j"
    by (intro pg_word_cong assms(3)) simp
  with True show ?thesis by (simp add: pg_word_def get32_def)
next
  case False
  have "memset m (unat p) 0 4096 x = m x" if "x \<in> page_bytes q" for x
    using page_bytes_disjoint [OF assms(1,2) False] that by (auto simp: memset_eq page_bytes_def)
  then have "pg_word (memset m (unat p) 0 4096) q j = pg_word m q j" by (rule pg_word_cong [OF assms(3)])
  with False show ?thesis by simp
qed

lemma kpage_aligned: "kpage s p \<Longrightarrow> page_aligned p"
  by (simp add: kpage_def)

lemma pte_flag_bits: "(x OR PTE_P) AND PTE_P \<noteq> 0" "(x OR PTE_P OR y) AND PTE_P \<noteq> 0"
  by (simp_all add: PTE_P_def bit.conj_disj_distrib2)

text \<open>Writing one entry, and putting a fresh zeroed table under a directory entry.\<close>

lemma unat_PDX_bound: "unat (PDX va) < 1024"
proof -
  have "unat va < 2 ^ 32" using unsigned_less [of va] by simp
  then show ?thesis by (simp add: unat_PDX less_mult_imp_div_less)
qed

lemma unat_PTX_bound: "unat (PTX va) < 1024"
  by (simp add: unat_PTX)

lemma vpn_split: "unat (PDX va) = unat va div 4096 div 1024" "unat (PTX va) = unat va div 4096 mod 1024"
  by (simp_all add: unat_PDX unat_PTX div_mult2_eq [symmetric])

lemma vpn_bound: "unat va div 4096 < 1048576" for va :: u32
proof -
  have "unat va < 2 ^ 32" using unsigned_less [of va] by simp
  then show ?thesis by (simp add: less_mult_imp_div_less)
qed

lemma free_list_put:
  assumes "\<And>p. p \<in> set ps \<Longrightarrow> page_aligned p" "page_aligned q" "q \<notin> set ps" "i < 1024"
  shows "free_list (put32 m (unat q + 4 * i) v) r ps = free_list m r ps"
proof (rule free_list_cong)
  fix p
  assume "p \<in> set ps"
  with assms pg_word_put [of q p i 0 m v] show
    "get32 (put32 m (unat q + 4 * i) v) (unat p) = get32 m (unat p)"
    by (auto simp: pg_word_def)
qed

lemma free_list_zeroed:
  assumes "\<And>p. p \<in> set ps \<Longrightarrow> page_aligned p" "page_aligned q" "q \<notin> set ps"
  shows "free_list (memset m (unat q) 0 4096) r ps = free_list m r ps"
proof (rule free_list_cong)
  fix p
  assume "p \<in> set ps"
  with assms pg_word_zeroed [of q p 0 m] show
    "get32 (memset m (unat q) 0 4096) (unat p) = get32 m (unat p)"
    by (auto simp: pg_word_def)
qed

lemma kmem_ready_put:
  assumes "kmem_ready s ps" "page_aligned q" "q \<notin> set ps" "i < 1024"
  shows "kmem_ready (s\<lparr>mem := put32 (mem s) (unat q + 4 * i) v\<rparr>) ps"
  using assms free_list_put [of ps q i] kpage_cong [of "s\<lparr>mem := put32 (mem s) (unat q + 4 * i) v\<rparr>" s]
  by (auto simp: kmem_ready_def kmem_inv_def kpage_def)

lemma set_pte:
  fixes e :: u32
  assumes wf: "pt_wf s d ps" and i: "i < 1024" "j < 1024" "pde_present (mem s) d i"
  defines "t \<equiv> s\<lparr>mem := put32 (mem s) (unat (pgtab_of (mem s) d i) + 4 * j) e\<rparr>"
  shows "pt_wf t d ps"
    and "v < 1048576 \<Longrightarrow> pt_lookup (mem t) d v =
      (if v = 1024 * i + j then (if e AND PTE_P \<noteq> 0 then Some e else None) else pt_lookup (mem s) d v)"
proof -
  let ?q = "pgtab_of (mem s) d i"
  have q: "kpage s ?q" "?q \<noteq> d" "kpage s d" using wf i by (auto simp: pt_wf_def)
  have al: "page_aligned ?q" "page_aligned d" using q by (simp_all add: kpage_def)
  have pg: "pg_word (mem t) p k = (if ?q = p \<and> j = k then e else pg_word (mem s) p k)"
    if "page_aligned p" "k < 1024" for p k
    unfolding t_def using pg_word_put [OF al(1) that(1) i(2) that(2)] by simp
  have d: "pg_word (mem t) d k = pg_word (mem s) d k" if "k < 1024" for k
    using pg [OF al(2) that] q by simp
  then have same: "pgtab_of (mem t) d k = pgtab_of (mem s) d k"
    "pde_present (mem t) d k = pde_present (mem s) d k" if "k < 1024" for k
    using that by (simp_all add: pgtab_of_def pde_present_def)
  have kp: "kpage t = kpage s" by (rule kpage_cong) (simp add: t_def)
  show "pt_wf t d ps" using wf same kp by (auto simp: pt_wf_def inj_on_def)
  assume v: "v < 1048576"
  then have b: "v div 1024 < 1024" "v mod 1024 < 1024" by (simp_all add: less_mult_imp_div_less)
  show "pt_lookup (mem t) d v =
      (if v = 1024 * i + j then (if e AND PTE_P \<noteq> 0 then Some e else None) else pt_lookup (mem s) d v)"
  proof (cases "pde_present (mem s) d (v div 1024)")
    case False
    with i have "v \<noteq> 1024 * i + j" by auto
    with False same [OF b(1)] show ?thesis by (simp add: pt_lookup_def)
  next
    case True
    let ?p = "pgtab_of (mem s) d (v div 1024)"
    have p: "page_aligned ?p" using wf True b by (auto simp: pt_wf_def kpage_def)
    have "?q = ?p \<longleftrightarrow> i = v div 1024"
      using wf True i b by (auto simp: pt_wf_def inj_on_def)
    moreover have "v = 1024 * i + j \<longleftrightarrow> i = v div 1024 \<and> j = v mod 1024" using i by auto
    ultimately show ?thesis
      using pg [OF p b(2)] same [OF b(1)] True i by (auto simp: pt_lookup_def Let_def)
  qed
qed

text \<open>What \<open>walkpgdir\<close> may change: it can put a fresh table under an absent directory entry.\<close>

lemma new_pgtab:
  assumes rdy: "kmem_ready s (p # ps)" and wf: "pt_wf s d (p # ps)"
    and i: "i < 1024" "\<not> pde_present (mem s) d i"
  defines "t \<equiv> s\<lparr>freelist := get32 (mem s) (unat p),
      mem := put32 (memset (mem s) (unat p) 0 4096) (unat d + 4 * i) (V2P p OR PTE_P OR PTE_W OR PTE_U)\<rparr>"
  shows "pde_present (mem t) d i" "pgtab_of (mem t) d i = p"
    and "pt_wf t d ps" "kmem_ready t ps"
    and "v < 1048576 \<Longrightarrow> pt_lookup (mem t) d v = pt_lookup (mem s) d v"
proof -
  have p: "kpage s p" "p \<noteq> d" "kpage s d" "p \<notin> set ps"
    using rdy wf by (auto simp: kmem_ready_def kmem_inv_def pt_wf_def)
  have al: "page_aligned p" "page_aligned d" using p by (simp_all add: kpage_def)
  have mt: "mem t = put32 (memset (mem s) (unat p) 0 4096) (unat d + 4 * i) (V2P p OR PTE_P OR PTE_W OR PTE_U)"
    by (simp add: t_def)
  have pg: "pg_word (mem t) q k = (if d = q \<and> i = k then V2P p OR PTE_P OR PTE_W OR PTE_U
      else if p = q then 0 else pg_word (mem s) q k)" if "page_aligned q" "k < 1024" for q k
    unfolding mt pg_word_put [OF al(2) that(1) i(1) that(2)] pg_word_zeroed [OF al(1) that] ..
  have "page_aligned (V2P p)" using al(1) by (simp add: page_aligned_iff V2P_def KERNBASE_def unat_sub_if')
  then have addr: "PTE_ADDR (V2P p OR PTE_P OR PTE_W OR PTE_U) = V2P p"
    by (rule PTE_ADDR_or_flags) (simp add: pte_defs)
  show new: "pde_present (mem t) d i" "pgtab_of (mem t) d i = p"
    using pg [OF al(2) i(1)] addr by (simp_all add: pde_present_def pgtab_of_def pte_flag_bits)
  have same: "pde_present (mem t) d k = pde_present (mem s) d k" "pgtab_of (mem t) d k = pgtab_of (mem s) d k"
    if "k < 1024" "k \<noteq> i" for k
    using pg [OF al(2) that(1)] that p by (simp_all add: pde_present_def pgtab_of_def)
  have kp: "kpage t = kpage s" by (rule kpage_cong) (simp add: t_def)
  show "pt_wf t d ps"
    unfolding pt_wf_def kp
  proof (intro conjI allI impI)
    show "kpage s d" "d \<notin> set ps" using wf by (auto simp: pt_wf_def)
    fix k
    assume k: "k < 1024" "pde_present (mem t) d k"
    show "kpage s (pgtab_of (mem t) d k)" "pgtab_of (mem t) d k \<noteq> d" "pgtab_of (mem t) d k \<notin> set ps"
      using k wf p new same [of k] by (cases "k = i"; auto simp: pt_wf_def)+
  next
    show "inj_on (pgtab_of (mem t) d) {k. k < 1024 \<and> pde_present (mem t) d k}"
    proof (rule inj_onI)
      fix k l
      assume kl: "k \<in> {k. k < 1024 \<and> pde_present (mem t) d k}" "l \<in> {k. k < 1024 \<and> pde_present (mem t) d k}"
        "pgtab_of (mem t) d k = pgtab_of (mem t) d l"
      have old: "pgtab_of (mem s) d m \<noteq> p" if "m < 1024" "pde_present (mem s) d m" for m
        using wf that by (auto simp: pt_wf_def)
      have inj: "inj_on (pgtab_of (mem s) d) {m. m < 1024 \<and> pde_present (mem s) d m}"
        using wf by (simp add: pt_wf_def)
      show "k = l"
        using kl same [of k] same [of l] new old [of k] old [of l] inj
        by (cases "k = i"; cases "l = i") (auto simp: inj_on_def)
    qed
  qed
  have aps: "q \<in> set ps \<Longrightarrow> page_aligned q" for q
    using rdy by (auto simp: kmem_ready_def kmem_inv_def kpage_def)
  have "d \<notin> set ps" using wf by (simp add: pt_wf_def)
  then have "free_list (mem t) (freelist t) ps"
    using rdy p aps free_list_put [of ps d i] free_list_zeroed [of ps p] al i
    by (simp add: t_def kmem_ready_def kmem_inv_def)
  then show "kmem_ready t ps"
    using rdy kp by (simp add: kmem_ready_def kmem_inv_def) (simp add: t_def)
  assume v: "v < 1048576"
  then have b: "v div 1024 < 1024" "v mod 1024 < 1024" by (simp_all add: less_mult_imp_div_less)
  show "pt_lookup (mem t) d v = pt_lookup (mem s) d v"
  proof (cases "v div 1024 = i")
    case True
    with new i b pg [OF al(1) b(2)] p show ?thesis by (simp add: pt_lookup_def)
  next
    case False
    show ?thesis
    proof (cases "pde_present (mem s) d (v div 1024)")
      case True
      let ?q = "pgtab_of (mem s) d (v div 1024)"
      have "page_aligned ?q" "?q \<noteq> d" "?q \<noteq> p" using wf True b by (auto simp: pt_wf_def kpage_def)
      then show ?thesis using same [OF b(1) False] pg [of ?q, OF _ b(2)] by (simp add: pt_lookup_def)
    qed (use same [OF b(1) False] in \<open>simp add: pt_lookup_def\<close>)
  qed
qed

text \<open>
  The specification of \<open>walkpgdir\<close>: with \<open>alloc\<close> it returns 0 only when the allocator is empty,
  otherwise the address of the entry for \<open>va\<close>, and the translation is the one before.
\<close>

definition pte_slot :: "kernel \<Rightarrow> u32 \<Rightarrow> u32 \<Rightarrow> u32 \<Rightarrow> bool" where
  "pte_slot s d va r \<longleftrightarrow> pde_present (mem s) d (unat (PDX va)) \<and> r \<noteq> 0 \<and>
     unat r = unat (pgtab_of (mem s) d (unat (PDX va))) + 4 * unat (PTX va)"

lemma load_pde:
  assumes "kpage s d"
  shows "load32 (d + PDX va * 4) s = Ret (pg_word (mem s) d (unat (PDX va))) s"
  using slot_unat [OF assms unat_PDX_bound] by (simp add: load32_def pg_word_def)

lemma walkpgdir_present:
  assumes wf: "pt_wf s d ps" and "pde_present (mem s) d (unat (PDX va))"
  shows "\<exists>r. walkpgdir d va a s = Ret r s \<and> pte_slot s d va r"
proof -
  let ?q = "pgtab_of (mem s) d (unat (PDX va))"
  have "kpage s d" "kpage s ?q" using assms unat_PDX_bound [of va] by (auto simp: pt_wf_def)
  moreover from this have "unat (?q + PTX va * 4) = unat ?q + 4 * unat (PTX va)"
    by (intro slot_unat unat_PTX_bound)
  moreover have "unat ?q \<noteq> 0" using \<open>kpage s ?q\<close> by (simp add: kpage_def unat_eq_zero)
  moreover from calculation have "?q + PTX va * 4 \<noteq> 0" by (metis add_is_0 unat_0)
  ultimately show ?thesis using assms(2)
    by (auto simp: walkpgdir_def Let_def load_pde pte_slot_def pde_present_def pgtab_of_def)
qed

lemma walkpgdir_absent:
  assumes "pt_wf s d ps" "\<not> pde_present (mem s) d (unat (PDX va))"
  shows "walkpgdir d va False s = Ret 0 s"
  using assms by (simp add: walkpgdir_def Let_def load_pde pt_wf_def pde_present_def)

lemma walkpgdir_alloc:
  assumes rdy: "kmem_ready s ps" and wf: "pt_wf s d ps"
  shows "\<exists>r t ps'. walkpgdir d va True s = Ret r t \<and> kmem_ready t ps' \<and> pt_wf t d ps'
     \<and> (\<forall>v < 1048576. pt_lookup (mem t) d v = pt_lookup (mem s) d v)
     \<and> (if r = 0 then ps' = [] else pte_slot t d va r) \<and> (\<exists>n. ps' = drop n ps)"
proof (cases "pde_present (mem s) d (unat (PDX va))")
  case True
  from walkpgdir_present [OF wf True] obtain r where
    "walkpgdir d va True s = Ret r s" "pte_slot s d va r" by blast
  moreover have "\<exists>n. ps = drop n ps" by (rule exI [of _ 0]) simp
  ultimately show ?thesis using rdy wf
    by (intro exI [of _ r] exI [of _ s] exI [of _ ps]) (simp add: pte_slot_def)
next
  case absent: False
  have kd: "kpage s d" using wf by (simp add: pt_wf_def)
  have e: "\<not> pg_word (mem s) d (unat (PDX va)) AND PTE_P \<noteq> 0" using absent by (simp add: pde_present_def)
  show ?thesis
  proof (cases ps)
    case Nil
    then have "kalloc s = Ret 0 s" using rdy kpages.alloc_none by blast
    then have "walkpgdir d va True s = Ret 0 s" using e kd by (simp add: walkpgdir_def Let_def load_pde)
    with Nil rdy wf show ?thesis by auto
  next
    case (Cons p qs)
    let ?i = "unat (PDX va)"
    let ?t = "s\<lparr>freelist := get32 (mem s) (unat p),
      mem := put32 (memset (mem s) (unat p) 0 4096) (unat d + 4 * ?i) (V2P p OR PTE_P OR PTE_W OR PTE_U)\<rparr>"
    have lk: "L_kmem \<notin> set (held s)" and inv: "kmem_inv s (p # qs)" using rdy Cons by (auto simp: kmem_ready_def)
    then have al: "kalloc s = Ret p (s\<lparr>freelist := get32 (mem s) (unat p)\<rparr>)" "p \<noteq> 0"
      using kmem_inv_kalloc [OF inv] by (simp_all add: kalloc_app)
    have kp: "kpage s p" using inv by (simp add: kmem_inv_def)
    have run: "walkpgdir d va True s = Ret (p + PTX va * 4) ?t"
      using e al kd slot_unat [OF kd unat_PDX_bound, of va]
      by (simp add: walkpgdir_def Let_def load_pde kmemset_def store32_def PGSIZE_def)
    note new = new_pgtab [OF rdy [unfolded Cons] wf [unfolded Cons] unat_PDX_bound absent]
    have "unat (p + PTX va * 4) = unat p + 4 * unat (PTX va)" by (rule slot_unat [OF kp unat_PTX_bound])
    moreover have "unat p \<noteq> 0" using al(2) by (simp add: unat_eq_zero)
    moreover from calculation have "p + PTX va * 4 \<noteq> 0" by (metis add_is_0 unat_0)
    ultimately have "pte_slot ?t d va (p + PTX va * 4)" using new(1,2) by (simp add: pte_slot_def)
    moreover have "qs = drop 1 ps" using Cons by simp
    ultimately show ?thesis using run new(3,4,5) \<open>p + PTX va * 4 \<noteq> 0\<close> by auto
  qed
qed

section \<open>Accesses through the page table of the processor\<close>

text \<open>
  The kernel reads and writes user addresses through the page table that the processor has
  loaded. An access that the table does not allow traps, and a trap in the kernel is a panic
  (\<open>trap.c\<close>). The kernel runs with write protection on, so a store needs a writable entry.
\<close>

definition mmu :: "bool \<Rightarrow> u32 \<Rightarrow> kernel \<Rightarrow> u32 option" where
  "mmu wr va s =
     (case pt_lookup (mem s) (P2V (cr3 s)) (unat va div 4096) of
        None \<Rightarrow> None
      | Some e \<Rightarrow> if wr \<and> e AND PTE_W = 0 then None else Some (P2V (PTE_ADDR e) + (va AND 0xFFF)))"

definition va_load8 :: "u32 \<Rightarrow> u8 kk" where
  "va_load8 va = kbind (kget (mmu False va)) (\<lambda>r.
     case r of None \<Rightarrow> kpanic ''trap'' | Some a \<Rightarrow> kget (\<lambda>s. mem s (unat a)))"

definition va_store8 :: "u32 \<Rightarrow> u8 \<Rightarrow> unit kk" where
  "va_store8 va v = kbind (kget (mmu True va)) (\<lambda>r.
     case r of None \<Rightarrow> kpanic ''trap'' | Some a \<Rightarrow> kmod (\<lambda>s. s\<lparr>mem := (mem s)(unat a := v)\<rparr>))"

fun va_load :: "u32 \<Rightarrow> nat \<Rightarrow> u8 list kk" where
  "va_load va 0 = kret []"
| "va_load va (Suc n) = kbind (va_load8 va) (\<lambda>b. kbind (va_load (va + 1) n) (\<lambda>bs. kret (b # bs)))"

fun va_store :: "u32 \<Rightarrow> u8 list \<Rightarrow> unit kk" where
  "va_store va [] = kret ()"
| "va_store va (b # bs) = kthen (va_store8 va b) (va_store (va + 1) bs)"

definition word_of_list :: "u8 list \<Rightarrow> u32" where
  "word_of_list bs = get32 (\<lambda>i. bs ! i) 0"

definition list_of_word :: "u32 \<Rightarrow> u8 list" where
  "list_of_word v = map (put32 (\<lambda>_. 0) 0 v) [0 ..< 4]"

definition va_load32 :: "u32 \<Rightarrow> u32 kk" where
  "va_load32 va = kbind (va_load va 4) (\<lambda>bs. kret (word_of_list bs))"

definition va_store32 :: "u32 \<Rightarrow> u32 \<Rightarrow> unit kk" where
  "va_store32 va v = va_store va (list_of_word v)"

lemma word_of_list_of_word [simp]: "word_of_list (list_of_word v) = v"
proof -
  have "word_of_list (list_of_word v) = get32 (put32 (\<lambda>_. 0) 0 v) 0"
    unfolding word_of_list_def by (rule get32_cong) (auto simp: list_of_word_def)
  then show ?thesis by simp
qed

section \<open>Mapping a range\<close>

lemma pte_slot_load:
  assumes "pte_slot s d va r"
  shows "load32 r s = Ret (pg_word (mem s) (pgtab_of (mem s) d (unat (PDX va))) (unat (PTX va))) s"
  using assms by (simp add: load32_def pte_slot_def pg_word_def)

lemma pte_slot_absent:
  assumes "pte_slot s d va r" "pt_lookup (mem s) d (unat va div 4096) = None"
  shows "pg_word (mem s) (pgtab_of (mem s) d (unat (PDX va))) (unat (PTX va)) AND PTE_P = 0"
  using assms by (auto simp: pte_slot_def pt_lookup_def vpn_split Let_def split: if_splits)

lemma pte_slot_store:
  assumes slot: "pte_slot s d va r" and rdy: "kmem_ready s ps" and wf: "pt_wf s d ps"
  shows "\<exists>t. store32 r e s = Ret () t \<and> kmem_ready t ps \<and> pt_wf t d ps \<and>
     (\<forall>v < 1048576. pt_lookup (mem t) d v =
        (if v = unat va div 4096 then (if e AND PTE_P \<noteq> 0 then Some e else None) else pt_lookup (mem s) d v))"
proof -
  let ?i = "unat (PDX va)" and ?j = "unat (PTX va)"
  let ?q = "pgtab_of (mem s) d ?i"
  let ?t = "s\<lparr>mem := put32 (mem s) (unat ?q + 4 * ?j) e\<rparr>"
  have pr: "pde_present (mem s) d ?i" using slot by (simp add: pte_slot_def)
  have "page_aligned ?q" "?q \<notin> set ps" using wf pr unat_PDX_bound [of va] by (auto simp: pt_wf_def kpage_def)
  then have "kmem_ready ?t ps" by (intro kmem_ready_put rdy unat_PTX_bound)
  moreover have "store32 r e s = Ret () ?t" using slot by (simp add: store32_def pte_slot_def)
  moreover have "unat va div 4096 = 1024 * ?i + ?j" by (simp add: vpn_split)
  ultimately show ?thesis using set_pte [OF wf unat_PDX_bound unat_PTX_bound pr, where e = e] by auto
qed

text \<open>One round of the loop of \<open>mappages\<close>.\<close>

lemma map_one_page [consumes 3, case_names full mapped]:
  assumes rdy: "kmem_ready s ps" and wf: "pt_wf s d ps"
    and free: "pt_lookup (mem s) d (unat a div 4096) = None"
  obtains (full) t where "\<And>n. mappages_loop (Suc n) d a lst pa perm s = Ret (-1) t"
      "kmem_ready t []" "pt_wf t d []" "\<And>v. v < 1048576 \<Longrightarrow> pt_lookup (mem t) d v = pt_lookup (mem s) d v"
  | (mapped) t ps' where "\<And>n. mappages_loop (Suc n) d a lst pa perm s =
        (if a = lst then Ret 0 t else mappages_loop n d (a + PGSIZE) lst (pa + PGSIZE) perm t)"
      "kmem_ready t ps'" "pt_wf t d ps'" "\<exists>n. ps' = drop n ps"
      "\<And>v. v < 1048576 \<Longrightarrow> pt_lookup (mem t) d v =
         (if v = unat a div 4096 then Some (pa OR perm OR PTE_P) else pt_lookup (mem s) d v)"
proof -
  from walkpgdir_alloc [OF rdy wf, of a] obtain r u ps' where
    w: "walkpgdir d a True s = Ret r u" "kmem_ready u ps'" "pt_wf u d ps'"
      "\<forall>v < 1048576. pt_lookup (mem u) d v = pt_lookup (mem s) d v"
      "if r = 0 then ps' = [] else pte_slot u d a r" "\<exists>n. ps' = drop n ps" by blast
  have b: "unat a div 4096 < 1048576" by (rule vpn_bound)
  show thesis
  proof (cases "r = 0")
    case True
    with w show thesis by (intro full [of u]) auto
  next
    case False
    then have slot: "pte_slot u d a r" using w(5) by simp
    have abs: "pg_word (mem u) (pgtab_of (mem u) d (unat (PDX a))) (unat (PTX a)) AND PTE_P = 0"
      using pte_slot_absent [OF slot] w(4) free b by simp
    have "(pa OR perm OR PTE_P) AND PTE_P \<noteq> 0" 
      using pte_flag_bits(1) [of "pa OR perm"] by (simp only: or.assoc not_False_eq_True)
    with pte_slot_store [OF slot w(2,3), of "pa OR perm OR PTE_P"] obtain t where
      t: "store32 r (pa OR perm OR PTE_P) u = Ret () t" "kmem_ready t ps'" "pt_wf t d ps'"
        "\<forall>v < 1048576. pt_lookup (mem t) d v =
           (if v = unat a div 4096 then Some (pa OR perm OR PTE_P) else pt_lookup (mem u) d v)"
      by auto
    show thesis
      by (rule mapped [of t ps']) (use w t False abs pte_slot_load [OF slot] in auto)
  qed
qed

text \<open>
  The effect of mapping \<open>n\<close> pages from page number \<open>v\<close> on: the entries of the range, up to the page
  where the allocator ran out, and no other entry.
\<close>

definition range_pte :: "u32 \<Rightarrow> u32 \<Rightarrow> nat \<Rightarrow> u32" where
  "range_pte pa perm i = (pa + of_nat (4096 * i)) OR perm OR PTE_P"

lemma range_pte_Suc: "range_pte (pa + PGSIZE) perm i = range_pte pa perm (Suc i)"
  by (simp add: range_pte_def PGSIZE_def algebra_simps)

lemma mappages_loop_spec:
  assumes "kmem_ready s ps" and "pt_wf s d ps"
    and "page_aligned a" and "unat lst = unat a + 4096 * n"
    and "\<And>i. i \<le> n \<Longrightarrow> pt_lookup (mem s) d (unat a div 4096 + i) = None"
  shows "\<exists>r t ps' k. mappages_loop (Suc n) d a lst pa perm s = Ret r t \<and> kmem_ready t ps' \<and> pt_wf t d ps'
     \<and> (r = 0 \<and> k = Suc n \<or> r = -1 \<and> k \<le> n \<and> ps' = [])
     \<and> (\<forall>v < 1048576. pt_lookup (mem t) d v =
          (if unat a div 4096 \<le> v \<and> v < unat a div 4096 + k then Some (range_pte pa perm (v - unat a div 4096))
           else pt_lookup (mem s) d v))"
  using assms
proof (induction n arbitrary: s ps a pa)
  case 0
  have eq: "a = lst" using 0 by (simp add: word_unat_eq_iff)
  have "pt_lookup (mem s) d (unat a div 4096) = None" using 0(5) [of 0] by simp
  with 0(1,2) show ?case
  proof (cases rule: map_one_page [where lst = lst and pa = pa and perm = perm])
    case (full t)
    then show ?thesis
      by (intro exI [of _ "-1"] exI [of _ t] exI [of _ "[]"] exI [of _ 0]) (auto simp del: mappages_loop.simps)
  next
    case (mapped t ps')
    then show ?thesis using eq
      by (intro exI [of _ 0] exI [of _ t] exI [of _ ps'] exI [of _ 1])
         (simp del: mappages_loop.simps, simp add: range_pte_def)
  qed
next
  case (Suc n)
  let ?v = "unat a div 4096"
  have bd: "unat lst < 2 ^ 32" using unsigned_less [of lst] by simp
  have up: "unat (a + PGSIZE) = unat a + 4096" by (rule unat_add_page) (use Suc.prems bd in simp)
  have nv: "unat (a + PGSIZE) div 4096 = Suc ?v" using up by simp
  have ne: "a \<noteq> lst" using Suc.prems by auto
  have in_range: "?v + Suc i < 1048576" if "i \<le> n" for i
  proof -
    have "unat lst div 4096 = ?v + Suc n" using Suc.prems(4) by simp
    with vpn_bound [of lst] that show ?thesis by simp
  qed
  have "pt_lookup (mem s) d ?v = None" using Suc.prems(5) [of 0] by simp
  with Suc.prems(1,2) show ?case
  proof (cases rule: map_one_page [where lst = lst and pa = pa and perm = perm])
    case (full t)
    then show ?thesis
      by (intro exI [of _ "-1"] exI [of _ t] exI [of _ "[]"] exI [of _ 0]) (auto simp del: mappages_loop.simps)
  next
    case (mapped u ps1)
    have "\<exists>r t ps' k. mappages_loop (Suc n) d (a + PGSIZE) lst (pa + PGSIZE) perm u = Ret r t
        \<and> kmem_ready t ps' \<and> pt_wf t d ps' \<and> (r = 0 \<and> k = Suc n \<or> r = -1 \<and> k \<le> n \<and> ps' = [])
        \<and> (\<forall>v < 1048576. pt_lookup (mem t) d v =
          (if unat (a + PGSIZE) div 4096 \<le> v \<and> v < unat (a + PGSIZE) div 4096 + k
           then Some (range_pte (pa + PGSIZE) perm (v - unat (a + PGSIZE) div 4096)) else pt_lookup (mem u) d v))"
    proof (rule Suc.IH [OF mapped(2,3)])
      show "page_aligned (a + PGSIZE)" by (rule page_aligned_add [OF Suc.prems(3)])
      show "unat lst = unat (a + PGSIZE) + 4096 * n" using up Suc.prems(4) by simp
      show "pt_lookup (mem u) d (unat (a + PGSIZE) div 4096 + i) = None" if "i \<le> n" for i
        using mapped(5) [of "?v + Suc i"] in_range [OF that] Suc.prems(5) [of "Suc i"] that nv by simp
    qed
    then obtain r t ps' k where t: "mappages_loop (Suc n) d (a + PGSIZE) lst (pa + PGSIZE) perm u = Ret r t"
      "kmem_ready t ps'" "pt_wf t d ps'" "r = 0 \<and> k = Suc n \<or> r = -1 \<and> k \<le> n \<and> ps' = []"
      "\<And>v. v < 1048576 \<Longrightarrow> pt_lookup (mem t) d v =
        (if Suc ?v \<le> v \<and> v < Suc ?v + k then Some (range_pte (pa + PGSIZE) perm (v - Suc ?v))
         else pt_lookup (mem u) d v)"
      unfolding nv by blast
    have "mappages_loop (Suc (Suc n)) d a lst pa perm s = Ret r t" using mapped(1) ne t(1) by simp
    moreover have "pt_lookup (mem t) d v = (if ?v \<le> v \<and> v < ?v + Suc k then Some (range_pte pa perm (v - ?v))
         else pt_lookup (mem s) d v)" if "v < 1048576" for v
      using t(5) [OF that] mapped(5) [OF that]
      by (auto simp: range_pte_Suc Suc_diff_Suc simp del: One_nat_def) (simp add: range_pte_def)
    ultimately show ?thesis using t(2,3,4)
      by (intro exI [of _ r] exI [of _ t] exI [of _ ps'] exI [of _ "Suc k"]) auto
  qed
qed

definition mapped_range :: "u32 \<Rightarrow> u32 \<Rightarrow> nat set" where
  "mapped_range va sz = {unat va div 4096 .. (unat va + unat sz - 1) div 4096}"

text \<open>
  C16: \<open>mappages\<close> on a range none of whose pages is mapped either maps every page of the range to
  the consecutive physical pages with the given permissions and changes no other translation, or
  returns -1 having used up the allocator. It does not panic, and table and allocator stay
  well-formed.
\<close>

theorem mappages_maps:
  assumes "kmem_ready s ps" "pt_wf s d ps"
    and "0 < unat sz" "unat va + unat sz \<le> 2 ^ 32"
    and "\<And>v. v \<in> mapped_range va sz \<Longrightarrow> pt_lookup (mem s) d v = None"
  shows "\<exists>r t ps'. mappages d va sz pa perm s = Ret r t \<and> kmem_ready t ps' \<and> pt_wf t d ps'
     \<and> (r = 0 \<and> (\<forall>v < 1048576. pt_lookup (mem t) d v =
            (if v \<in> mapped_range va sz then Some (range_pte pa perm (v - unat va div 4096))
             else pt_lookup (mem s) d v))
        \<or> r = -1 \<and> ps' = [])"
proof -
  let ?a = "PGROUNDDOWN va" and ?l = "PGROUNDDOWN (va + sz - 1)"
  let ?v = "unat va div 4096" and ?w = "(unat va + unat sz - 1) div 4096"
  have "unat (va + sz - 1) = unat va + unat sz - 1"
  proof -
    have "va + sz - 1 = of_nat (unat va + unat sz - 1)" using assms(3) by (simp add: of_nat_diff)
    moreover have "unat va + unat sz - 1 < 2 ^ 32" using assms(3,4) by linarith
    ultimately show ?thesis by (simp add: unat_of_nat take_bit_nat_eq_self)
  qed
  then have l: "unat ?l = ?w * 4096" by (simp add: unat_PGROUNDDOWN)
  have a: "unat ?a = ?v * 4096" by (simp add: unat_PGROUNDDOWN)
  have vw: "?v \<le> ?w" using assms(3) by (intro div_le_mono) linarith
  then have lst: "unat ?l = unat ?a + 4096 * (?w - ?v)" using a l by (simp add: algebra_simps)
  then have "unat (?l - ?a) = 4096 * (?w - ?v)" by (simp add: unat_sub word_le_nat_alt)
  then have run: "mappages d va sz pa perm = mappages_loop (Suc (?w - ?v)) d ?a ?l pa perm"
    by (simp add: mappages_def Let_def del: mappages_loop.simps)
  have "pt_lookup (mem s) d (unat ?a div 4096 + i) = None" if "i \<le> ?w - ?v" for i
  proof -
    have "?v + i \<le> ?w" using that vw by linarith
    then show ?thesis using assms(5) [of "?v + i"] a by (simp add: mapped_range_def)
  qed
  from mappages_loop_spec [OF assms(1,2) PGROUNDDOWN_aligned lst this, of pa perm] obtain r t ps' k where
    t: "mappages d va sz pa perm s = Ret r t" "kmem_ready t ps'" "pt_wf t d ps'"
      "r = 0 \<and> k = Suc (?w - ?v) \<or> r = -1 \<and> k \<le> ?w - ?v \<and> ps' = []"
      "\<forall>v < 1048576. pt_lookup (mem t) d v =
          (if ?v \<le> v \<and> v < ?v + k then Some (range_pte pa perm (v - ?v)) else pt_lookup (mem s) d v)"
    unfolding run a by auto
  have "?v \<le> v \<and> v < ?v + Suc (?w - ?v) \<longleftrightarrow> v \<in> mapped_range va sz" for v
    using vw by (auto simp: mapped_range_def)
  with t show ?thesis by metis
qed

definition pt_example :: kernel where
  "pt_example = (boot_kernel \<lparr>sym_end = 0x80115000, sym_data = 0x80108000, sym_forkret = 0, sym_trapret = 0,
     sym_initcode = (\<lambda>_. 0), sym_initcode_size = 0\<rparr> (\<lambda>_. 0) (\<lambda>_ _. 0) 0)\<lparr>freelist := 0x80401000\<rparr>"

lemma pt_example_ok: "kmem_ready pt_example [0x80401000]" "pt_wf pt_example 0x80400000 [0x80401000]"
  "pt_lookup (mem pt_example) 0x80400000 v = None"
proof -
  have z: "pg_word (mem pt_example) p i = 0" "get32 (mem pt_example) i = 0" for p i
    by (simp_all add: pg_word_def get32_def pt_example_def boot_kernel_def)
  then show "pt_lookup (mem pt_example) 0x80400000 v = None"
    by (simp add: pt_lookup_def pde_present_def)
  have "kpage pt_example 0x80400000" "kpage pt_example 0x80401000"
    by (simp_all add: kpage_def page_aligned_def pt_example_def boot_kernel_def V2P_def layout_defs PGSIZE_def)
  with z show "kmem_ready pt_example [0x80401000]" "pt_wf pt_example 0x80400000 [0x80401000]"
    by (simp_all add: kmem_ready_def kmem_inv_def pt_wf_def pde_present_def)
       (simp add: pt_example_def boot_kernel_def)+
qed

theorem mappages_maps_witness:
  "\<exists>r t ps'. mappages 0x80400000 0x1000 0x2000 0x5000 PTE_W pt_example = Ret r t
     \<and> kmem_ready t ps' \<and> pt_wf t 0x80400000 ps'
     \<and> (r = 0 \<and> (\<forall>v < 1048576. pt_lookup (mem t) 0x80400000 v =
            (if v \<in> mapped_range 0x1000 0x2000 then Some (range_pte 0x5000 PTE_W (v - unat (0x1000 :: u32) div 4096))
             else None))
        \<or> r = -1 \<and> ps' = [])"
proof -
  have "0 < unat (0x2000 :: u32)" "unat (0x1000 :: u32) + unat (0x2000 :: u32) \<le> 2 ^ 32" by simp_all
  from mappages_maps [OF pt_example_ok(1,2) this pt_example_ok(3), of "0x5000" PTE_W]
  show ?thesis by (simp only: pt_example_ok(3))
qed

end
