(* ===== verification/Sched.thy ===== *)
theory Sched
  imports Vm
begin

text \<open>
  The part of \<open>proc.c\<close> that moves processes between their states (\<open>scheduler\<close>, \<open>sched\<close>,
  \<open>yield\<close>, \<open>sleep\<close>, \<open>wakeup\<close>, \<open>kill\<close>, \<open>threadkill\<close>) and the sleeping locks built on it
  (\<open>sleeplock.c\<close>).

  A call of \<open>sched\<close> ends the run of the calling process on this processor: the outcome is
  \<open>Switch\<close>, with the state as the scheduler finds it and the rest of the calling function as the
  continuation. Loops that wait for a condition go round once for every wakeup; the number of
  rounds is bounded by \<open>fuel\<close>, which is arbitrary.
\<close>

section \<open>Giving up the processor\<close>

definition kswitch :: "unit kk" where
  "kswitch = (\<lambda>s. Switch s (kret ()))"

definition proc_get :: "nat \<Rightarrow> (proc \<Rightarrow> 'a) \<Rightarrow> 'a kk" where
  "proc_get i f = kget (\<lambda>s. f (proc_at i s))"

definition proc_mod :: "nat \<Rightarrow> (proc \<Rightarrow> proc) \<Rightarrow> unit kk" where
  "proc_mod i f = kmod (upd_proc i f)"

definition sched :: "unit kk" where
  "sched =
     kbind (kget myproc) (\<lambda>p.
     kbind (kget (holding L_ptable)) (\<lambda>h.
     if \<not> h then kpanic ''sched ptable.lock'' else
     kbind (kget (\<lambda>s. length (held s))) (\<lambda>ncli.
     if ncli \<noteq> 1 then kpanic ''sched locks'' else
     kbind (deref p) (\<lambda>i.
     kbind (proc_get i p_state) (\<lambda>st.
     if st = RUNNING then kpanic ''sched running'' else kswitch)))))"

definition yield :: "unit kk" where
  "yield =
     kthen (acquire L_ptable)
     (kbind curproc (\<lambda>i.
      kthen (proc_mod i (\<lambda>p. p\<lparr>p_state := RUNNABLE\<rparr>))
     (kthen sched (release L_ptable))))"

text \<open>
  The second argument of \<open>sleep\<close> is a lock that is never null in this kernel, so the test
  \<open>lk == 0\<close> has no counterpart.
\<close>

definition sleep :: "chan \<Rightarrow> lockid \<Rightarrow> unit kk" where
  "sleep ch lk =
     kbind (kget myproc) (\<lambda>p.
     case p of
       None \<Rightarrow> kpanic ''sleep''
     | Some i \<Rightarrow>
         kthen (kwhen (lk \<noteq> L_ptable) (kthen (acquire L_ptable) (release lk)))
         (kthen (proc_mod i (\<lambda>q. q\<lparr>p_chan := ch, p_state := SLEEPING\<rparr>))
         (kthen sched
         (kthen (proc_mod i (\<lambda>q. q\<lparr>p_chan := NoChan\<rparr>))
                (kwhen (lk \<noteq> L_ptable) (kthen (release L_ptable) (acquire lk)))))))"

section \<open>Waking up\<close>

definition wakeup1 :: "chan \<Rightarrow> unit kk" where
  "wakeup1 ch = kmod (\<lambda>s. s\<lparr>ptable := map (\<lambda>p.
     if p_state p = SLEEPING \<and> p_chan p = ch then p\<lparr>p_state := RUNNABLE\<rparr> else p) (ptable s)\<rparr>)"

definition wakeup :: "chan \<Rightarrow> unit kk" where
  "wakeup ch = kthen (acquire L_ptable) (kthen (wakeup1 ch) (release L_ptable))"

text \<open>The common body of \<open>kill\<close> and \<open>threadkill\<close>: the first entry with the property is killed.\<close>

definition kill_proc :: "proc \<Rightarrow> proc" where
  "kill_proc p = p\<lparr>p_killed := True, p_state := (if p_state p = SLEEPING then RUNNABLE else p_state p)\<rparr>"

definition kill :: "int \<Rightarrow> int kk" where
  "kill pid =
     kthen (acquire L_ptable)
     (kbind (kget (\<lambda>s. first_index (\<lambda>p. p_pid p = pid) (ptable s))) (\<lambda>r.
      case r of
        Some i \<Rightarrow> kthen (proc_mod i kill_proc) (kthen (release L_ptable) (kret 0))
      | None \<Rightarrow> kthen (release L_ptable) (kret (-1))))"

definition threadkill :: "int \<Rightarrow> int kk" where
  "threadkill pid =
     kthen (acquire L_ptable)
     (kbind (kget (\<lambda>s. first_index (\<lambda>p. p_pid p = pid \<and> p_isThread p) (ptable s))) (\<lambda>r.
      case r of
        Some i \<Rightarrow> kthen (proc_mod i kill_proc) (kthen (release L_ptable) (kret 0))
      | None \<Rightarrow> kthen (release L_ptable) (kret (-1))))"

section \<open>The scheduler\<close>

text \<open>
  One visit of the scheduler's inner loop to table entry \<open>i\<close>, up to the \<open>swtch\<close> into the
  process, and the two statements after it.
\<close>

definition set_cpu_proc :: "pptr \<Rightarrow> unit kk" where
  "set_cpu_proc p = kmod (\<lambda>s. s\<lparr>cpu_proc := (cpu_proc s)[cpu s := p]\<rparr>)"

definition scheduler_visit :: "nat \<Rightarrow> unit kk" where
  "scheduler_visit i =
     kbind (proc_get i p_state) (\<lambda>st.
     if st \<noteq> RUNNABLE then kret ()
     else kthen (set_cpu_proc (Some i))
          (kthen (switchuvm (Some i))
                 (proc_mod i (\<lambda>p. p\<lparr>p_state := RUNNING\<rparr>))))"

definition scheduler_back :: "unit kk" where
  "scheduler_back = kthen switchkvm (set_cpu_proc None)"

section \<open>Sleeping locks\<close>

definition get_sl :: "slid \<Rightarrow> kernel \<Rightarrow> sleeplock" where
  "get_sl l s = (case l of SL_Buf i \<Rightarrow> b_lock (bufs s ! i) | SL_Inode i \<Rightarrow> i_lock (icache s ! i))"

definition upd_sl :: "slid \<Rightarrow> sleeplock \<Rightarrow> kernel \<Rightarrow> kernel" where
  "upd_sl l v s = (case l of
       SL_Buf i \<Rightarrow> s\<lparr>bufs := (bufs s)[i := (bufs s ! i)\<lparr>b_lock := v\<rparr>]\<rparr>
     | SL_Inode i \<Rightarrow> s\<lparr>icache := (icache s)[i := (icache s ! i)\<lparr>i_lock := v\<rparr>]\<rparr>)"

definition initsleeplock :: "slid \<Rightarrow> unit kk" where
  "initsleeplock l = kmod (upd_sl l \<lparr>sl_locked = False, sl_pid = 0\<rparr>)"

fun acquiresleep_loop :: "nat \<Rightarrow> slid \<Rightarrow> unit kk" where
  "acquiresleep_loop 0 l = (\<lambda>s. NoFuel)"
| "acquiresleep_loop (Suc n) l =
     kbind (kget (get_sl l)) (\<lambda>v.
     if sl_locked v
     then kthen (sleep (ChanSleeplock l) (L_sleep l)) (acquiresleep_loop n l)
     else kbind curproc (\<lambda>i.
          kbind (proc_get i p_pid) (\<lambda>pid.
          kthen (kmod (upd_sl l \<lparr>sl_locked = True, sl_pid = pid\<rparr>))
                (release (L_sleep l)))))"

definition acquiresleep :: "slid \<Rightarrow> unit kk" where
  "acquiresleep l =
     kthen (acquire (L_sleep l)) (kbind (kget fuel) (\<lambda>n. acquiresleep_loop (Suc n) l))"

definition releasesleep :: "slid \<Rightarrow> unit kk" where
  "releasesleep l =
     kthen (acquire (L_sleep l))
     (kthen (kmod (upd_sl l \<lparr>sl_locked = False, sl_pid = 0\<rparr>))
     (kthen (wakeup (ChanSleeplock l))
            (release (L_sleep l))))"

definition holdingsleep :: "slid \<Rightarrow> bool kk" where
  "holdingsleep l =
     kthen (acquire (L_sleep l))
     (kbind (kget (get_sl l)) (\<lambda>v.
      kbind (if sl_locked v
             then kbind curproc (\<lambda>i. kbind (proc_get i p_pid) (\<lambda>pid. kret (sl_pid v = pid)))
             else kret False) (\<lambda>r.
      kthen (release (L_sleep l)) (kret r))))"

section \<open>Running the operations\<close>

lemma wp_proc_get [wp_rules, simp]: "wp (proc_get i f) Q R s = Q (f (proc_at i s)) s"
  by (simp add: proc_get_def)

lemma wlp_proc_get [wp_rules, simp]: "wlp (proc_get i f) Q R s = Q (f (proc_at i s)) s"
  by (simp add: proc_get_def)

lemma wp_proc_mod [wp_rules, simp]: "wp (proc_mod i f) Q R s = Q () (upd_proc i f s)"
  by (simp add: proc_mod_def)

lemma wlp_proc_mod [wp_rules, simp]: "wlp (proc_mod i f) Q R s = Q () (upd_proc i f s)"
  by (simp add: proc_mod_def)

lemma proc_op_app [simp]:
  "proc_get i f s = Ret (f (proc_at i s)) s"
  "proc_mod i f s = Ret () (upd_proc i f s)"
  "set_cpu_proc p s = Ret () (s\<lparr>cpu_proc := (cpu_proc s)[cpu s := p]\<rparr>)"
  by (simp_all add: proc_get_def proc_mod_def set_cpu_proc_def)

lemma proc_op_seq [simp]:
  "kbind (proc_get i f) k s = k (f (proc_at i s)) s"
  "kthen (proc_mod i g) m s = m (upd_proc i g s)"
  by (simp_all add: proc_get_def proc_mod_def)

lemma wp_kswitch [wp_rules, simp]: "wp kswitch Q R s = R s"
  by (simp add: wp_def kswitch_def)

lemma wlp_kswitch [wp_rules, simp]: "wlp kswitch Q R s = R s"
  by (simp add: wlp_def kswitch_def)

lemma sched_app:
  assumes "myproc s = Some i" "held s = [L_ptable]" "p_state (proc_at i s) \<noteq> RUNNING"
  shows "sched s = Switch s (kret ())"
  using assms by (simp add: sched_def kswitch_def holding_def)

lemma sched_cases:
  "sched s = (if L_ptable \<notin> set (held s) then Panic ''sched ptable.lock''
     else if length (held s) \<noteq> 1 then Panic ''sched locks''
     else case myproc s of None \<Rightarrow> Panic ''null pointer''
       | Some i \<Rightarrow> if p_state (proc_at i s) = RUNNING then Panic ''sched running'' else Switch s (kret ()))"
  by (auto simp: sched_def kswitch_def holding_def split: option.splits)

lemma wakeup_app:
  "L_ptable \<notin> set (held s) \<Longrightarrow> wakeup ch s = Ret () (s\<lparr>ptable := map (\<lambda>p.
     if p_state p = SLEEPING \<and> p_chan p = ch then p\<lparr>p_state := RUNNABLE\<rparr> else p) (ptable s)\<rparr>)"
  by (simp add: wakeup_def wakeup1_def acquire_app release_app)

text \<open>The effect of a wakeup on the state.\<close>

definition wake :: "chan \<Rightarrow> kernel \<Rightarrow> kernel" where
  "wake ch s = s\<lparr>ptable := map (\<lambda>p. if p_state p = SLEEPING \<and> p_chan p = ch then p\<lparr>p_state := RUNNABLE\<rparr> else p) (ptable s)\<rparr>"

lemma wakeup_wake: "L_ptable \<notin> set (held s) \<Longrightarrow> wakeup ch s = Ret () (wake ch s)"
  by (simp add: wakeup_app wake_def)

lemma wake_fields [simp]:
  "pipes (wake ch s) = pipes s" "mem (wake ch s) = mem s" "held (wake ch s) = held s" "cr3 (wake ch s) = cr3 s"
  "bufs (wake ch s) = bufs s" "blru (wake ch s) = blru s" "disk (wake ch s) = disk s" "disksize (wake ch s) = disksize s"
  "dwrites (wake ch s) = dwrites s" "klog (wake ch s) = klog s" "myproc (wake ch s) = myproc s" "sb (wake ch s) = sb s"
  by (simp_all add: wake_def)

lemma wake_pid: "i < length (ptable s) \<Longrightarrow> p_pid (proc_at i (wake ch s)) = p_pid (proc_at i s)"
  by (simp add: wake_def proc_at_def)

end
