(* ===== verification/Bio.thy ===== *)
theory Bio
  imports Sched
begin

text \<open>
  The buffer cache (\<open>bio.c\<close>) over the memory disk (\<open>memide.c\<close>), the disk driver of the
  \<open>xv6memfs\<close> kernel. The doubly linked list of buffers is the list \<open>blru\<close> of buffer
  indices from \<open>head.next\<close> to \<open>head.prev\<close>. The history \<open>dwrites\<close> of disk writes has no counterpart
  in the code: it lets theorems speak of a crash between two writes.
\<close>

section \<open>The memory disk\<close>

definition BSIZE :: nat where "BSIZE = 512"

definition copy_block :: "bytes \<Rightarrow> bytes \<Rightarrow> bytes" where
  "copy_block dst src = (\<lambda>x. if x < BSIZE then src x else dst x)"

definition buf_at :: "nat \<Rightarrow> kernel \<Rightarrow> buf" where
  "buf_at i s = bufs s ! i"

definition buf_get :: "nat \<Rightarrow> (buf \<Rightarrow> 'a) \<Rightarrow> 'a kk" where
  "buf_get i f = kget (\<lambda>s. f (buf_at i s))"

definition buf_mod :: "nat \<Rightarrow> (buf \<Rightarrow> buf) \<Rightarrow> unit kk" where
  "buf_mod i f = kmod (\<lambda>s. s\<lparr>bufs := (bufs s)[i := f (bufs s ! i)]\<rparr>)"

text \<open>\<open>ideinit\<close> finds the disk image among the linker's symbols; its size is given in bytes.\<close>

definition ideinit_mem :: "u32 \<Rightarrow> unit kk" where
  "ideinit_mem img_size = kmod (\<lambda>s. s\<lparr>disksize := img_size div 512\<rparr>)"

definition disk_write :: "nat \<Rightarrow> bytes \<Rightarrow> kernel \<Rightarrow> kernel" where
  "disk_write b d s = s\<lparr>disk := (disk s)(b := copy_block (disk s b) d), dwrites := dwrites s @ [(b, d)]\<rparr>"

definition iderw :: "nat \<Rightarrow> unit kk" where
  "iderw i =
     kbind (holdingsleep (SL_Buf i)) (\<lambda>h.
     if \<not> h then kpanic ''iderw: buf not locked'' else
     kbind (buf_get i id) (\<lambda>b.
     if b_valid b \<and> \<not> b_dirty b then kpanic ''iderw: nothing to do'' else
     if b_dev b \<noteq> 1 then kpanic ''iderw: request not for disk 1'' else
     kbind (kget disksize) (\<lambda>n.
     if b_blockno b \<ge> n then kpanic ''iderw: block out of range'' else
     kthen (if b_dirty b
            then kthen (buf_mod i (\<lambda>b. b\<lparr>b_dirty := False\<rparr>))
                       (kmod (disk_write (unat (b_blockno b)) (b_data b)))
            else kbind (kget (\<lambda>s. disk s (unat (b_blockno b)))) (\<lambda>d.
                 buf_mod i (\<lambda>b. b\<lparr>b_data := copy_block (b_data b) d\<rparr>)))
           (buf_mod i (\<lambda>b. b\<lparr>b_valid := True\<rparr>)))))"

section \<open>The cache\<close>

definition binit :: "unit kk" where
  "binit = kthen (kmod (\<lambda>s. s\<lparr>blru := []\<rparr>))
     (kfor [0 ..< NBUF] (\<lambda>i.
        kthen (initsleeplock (SL_Buf i)) (kmod (\<lambda>s. s\<lparr>blru := i # blru s\<rparr>))))"

definition bget :: "u32 \<Rightarrow> u32 \<Rightarrow> nat kk" where
  "bget dev blockno =
     kthen (acquire L_bcache)
     (kbind (kget (\<lambda>s. find (\<lambda>i. b_dev (buf_at i s) = dev \<and> b_blockno (buf_at i s) = blockno) (blru s))) (\<lambda>r.
      case r of
        Some i \<Rightarrow>
          kthen (buf_mod i (\<lambda>b. b\<lparr>b_refcnt := b_refcnt b + 1\<rparr>))
          (kthen (release L_bcache)
          (kthen (acquiresleep (SL_Buf i)) (kret i)))
      | None \<Rightarrow>
          kbind (kget (\<lambda>s. find (\<lambda>i. b_refcnt (buf_at i s) = 0 \<and> \<not> b_dirty (buf_at i s)) (rev (blru s)))) (\<lambda>r.
          case r of
            Some i \<Rightarrow>
              kthen (buf_mod i (\<lambda>b. b\<lparr>b_dev := dev, b_blockno := blockno, b_valid := False,
                                    b_dirty := False, b_refcnt := 1\<rparr>))
              (kthen (release L_bcache)
              (kthen (acquiresleep (SL_Buf i)) (kret i)))
          | None \<Rightarrow> kpanic ''bget: no buffers'')))"

definition bread :: "u32 \<Rightarrow> u32 \<Rightarrow> nat kk" where
  "bread dev blockno =
     kbind (bget dev blockno) (\<lambda>i.
     kbind (buf_get i b_valid) (\<lambda>v.
     kthen (kwhen (\<not> v) (iderw i)) (kret i)))"

definition bwrite :: "nat \<Rightarrow> unit kk" where
  "bwrite i =
     kbind (holdingsleep (SL_Buf i)) (\<lambda>h.
     if \<not> h then kpanic ''bwrite'' else
     kthen (buf_mod i (\<lambda>b. b\<lparr>b_dirty := True\<rparr>)) (iderw i))"

definition brelse :: "nat \<Rightarrow> unit kk" where
  "brelse i =
     kbind (holdingsleep (SL_Buf i)) (\<lambda>h.
     if \<not> h then kpanic ''brelse'' else
     kthen (releasesleep (SL_Buf i))
     (kthen (acquire L_bcache)
     (kthen (buf_mod i (\<lambda>b. b\<lparr>b_refcnt := b_refcnt b - 1\<rparr>))
     (kbind (buf_get i b_refcnt) (\<lambda>r.
      kthen (kwhen (r = 0) (kmod (\<lambda>s. s\<lparr>blru := i # remove1 i (blru s)\<rparr>)))
            (release L_bcache))))))"

end
