(* ===== verification/Log.thy ===== *)
theory Log
  imports Bio
begin

text \<open>
  The write-ahead log (\<open>log.c\<close>) and the reading of the super block, which \<open>initlog\<close> needs.
\<close>

definition log_get :: "(klog \<Rightarrow> 'a) \<Rightarrow> 'a kk" where
  "log_get f = kget (\<lambda>s. f (klog s))"

definition log_mod :: "(klog \<Rightarrow> klog) \<Rightarrow> unit kk" where
  "log_mod f = kmod (\<lambda>s. s\<lparr>klog := f (klog s)\<rparr>)"

text \<open>The super block as \<open>mkfs\<close> writes it to block 1, and \<open>readsb\<close> of \<open>fs.c\<close>.\<close>

definition sb_of_bytes :: "bytes \<Rightarrow> superblock" where
  "sb_of_bytes d = \<lparr>sb_size = get32 d 0, sb_nblocks = get32 d 4, sb_ninodes = get32 d 8, sb_nlog = get32 d 12,
     sb_logstart = get32 d 16, sb_inodestart = get32 d 20, sb_bmapstart = get32 d 24\<rparr>"

definition readsb :: "u32 \<Rightarrow> superblock kk" where
  "readsb dev =
     kbind (bread dev 1) (\<lambda>bp.
     kbind (buf_get bp (\<lambda>b. sb_of_bytes (b_data b))) (\<lambda>v.
     kthen (brelse bp) (kret v)))"

text \<open>A block number kept as a C \<open>int\<close>, passed where the code expects an unsigned one.\<close>

definition install_trans :: "unit kk" where
  "install_trans =
     kbind (log_get l_n) (\<lambda>n.
     kfor [0 ..< nat n] (\<lambda>tail.
       kbind (log_get id) (\<lambda>lg.
       kbind (bread (l_dev lg) (of_int (l_start lg + int tail + 1))) (\<lambda>lbuf.
       kbind (bread (l_dev lg) (of_int (l_block lg ! tail))) (\<lambda>dbuf.
       kbind (buf_get lbuf b_data) (\<lambda>d.
       kthen (buf_mod dbuf (\<lambda>b. b\<lparr>b_data := copy_block (b_data b) d\<rparr>))
       (kthen (bwrite dbuf)
       (kthen (brelse lbuf) (brelse dbuf)))))))))"

text \<open>The header block: a count and the block numbers, four bytes each.\<close>

definition hdr_block :: "bytes \<Rightarrow> nat \<Rightarrow> int" where
  "hdr_block d i = sint (get32 d (4 + 4 * i))"

definition read_head :: "unit kk" where
  "read_head =
     kbind (log_get id) (\<lambda>lg.
     kbind (bread (l_dev lg) (of_int (l_start lg))) (\<lambda>bf.
     kbind (buf_get bf b_data) (\<lambda>d.
     let n = sint (get32 d 0) in
     kthen (log_mod (\<lambda>l. l\<lparr>l_n := n\<rparr>))
     (kthen (if nat n > length (l_block lg) then kpanic ''out of bounds''
             else log_mod (\<lambda>l. l\<lparr>l_block := map (hdr_block d) [0 ..< nat n] @ drop (nat n) (l_block l)\<rparr>))
            (brelse bf)))))"

fun put_ints :: "bytes \<Rightarrow> nat \<Rightarrow> int list \<Rightarrow> bytes" where
  "put_ints d a [] = d"
| "put_ints d a (x # xs) = put_ints (put32 d a (of_int x)) (a + 4) xs"

definition write_head :: "unit kk" where
  "write_head =
     kbind (log_get id) (\<lambda>lg.
     kbind (bread (l_dev lg) (of_int (l_start lg))) (\<lambda>bf.
     kthen (buf_mod bf (\<lambda>b. b\<lparr>b_data :=
        put_ints (put32 (b_data b) 0 (of_int (l_n lg))) 4 (take (nat (l_n lg)) (l_block lg))\<rparr>))
     (kthen (bwrite bf) (brelse bf))))"

definition recover_from_log :: "unit kk" where
  "recover_from_log =
     kthen read_head
     (kthen install_trans
     (kthen (log_mod (\<lambda>l. l\<lparr>l_n := 0\<rparr>))
            write_head))"

definition initlog :: "u32 \<Rightarrow> unit kk" where
  "initlog dev =
     (if 4 + 4 * nat LOGSIZE \<ge> BSIZE then kpanic ''initlog: too big logheader'' else
      kbind (readsb dev) (\<lambda>v.
      kthen (log_mod (\<lambda>l. l\<lparr>l_start := sint (sb_logstart v), l_size := sint (sb_nlog v), l_dev := dev\<rparr>))
            recover_from_log))"

section \<open>Transactions\<close>

fun begin_op_loop :: "nat \<Rightarrow> unit kk" where
  "begin_op_loop 0 = (\<lambda>s. NoFuel)"
| "begin_op_loop (Suc n) =
     kbind (log_get id) (\<lambda>lg.
     if l_committing lg then kthen (sleep ChanLog L_log) (begin_op_loop n)
     else if l_n lg + (l_outstanding lg + 1) * MAXOPBLOCKS > LOGSIZE
          then kthen (sleep ChanLog L_log) (begin_op_loop n)
     else kthen (log_mod (\<lambda>l. l\<lparr>l_outstanding := l_outstanding l + 1\<rparr>))
                (release L_log))"

definition begin_op :: "unit kk" where
  "begin_op = kthen (acquire L_log) (kbind (kget fuel) (\<lambda>n. begin_op_loop (Suc n)))"

definition write_log :: "unit kk" where
  "write_log =
     kbind (log_get l_n) (\<lambda>n.
     kfor [0 ..< nat n] (\<lambda>tail.
       kbind (log_get id) (\<lambda>lg.
       kbind (bread (l_dev lg) (of_int (l_start lg + int tail + 1))) (\<lambda>to.
       kbind (bread (l_dev lg) (of_int (l_block lg ! tail))) (\<lambda>from.
       kbind (buf_get from b_data) (\<lambda>d.
       kthen (buf_mod to (\<lambda>b. b\<lparr>b_data := copy_block (b_data b) d\<rparr>))
       (kthen (bwrite to)
       (kthen (brelse from) (brelse to)))))))))"

definition commit :: "unit kk" where
  "commit =
     kbind (log_get l_n) (\<lambda>n.
     kwhen (n > 0)
       (kthen write_log
       (kthen write_head
       (kthen install_trans
       (kthen (log_mod (\<lambda>l. l\<lparr>l_n := 0\<rparr>))
              write_head)))))"

definition end_op :: "unit kk" where
  "end_op =
     kthen (acquire L_log)
     (kthen (log_mod (\<lambda>l. l\<lparr>l_outstanding := l_outstanding l - 1\<rparr>))
     (kbind (log_get id) (\<lambda>lg.
      if l_committing lg then kpanic ''log.committing'' else
      let do_commit = (l_outstanding lg = 0) in
      kthen (if do_commit then log_mod (\<lambda>l. l\<lparr>l_committing := True\<rparr>) else wakeup ChanLog)
      (kthen (release L_log)
             (kwhen do_commit
                (kthen commit
                (kthen (acquire L_log)
                (kthen (log_mod (\<lambda>l. l\<lparr>l_committing := False\<rparr>))
                (kthen (wakeup ChanLog)
                       (release L_log))))))))))"

definition log_write :: "nat \<Rightarrow> unit kk" where
  "log_write i =
     kbind (log_get id) (\<lambda>lg.
     if l_n lg \<ge> LOGSIZE \<or> l_n lg \<ge> l_size lg - 1 then kpanic ''too big a transaction'' else
     if l_outstanding lg < 1 then kpanic ''log_write outside of trans'' else
     kthen (acquire L_log)
     (kbind (buf_get i b_blockno) (\<lambda>bn.
      let blocks = take (nat (l_n lg)) (l_block lg);
          k = (case first_index (\<lambda>x. (of_int x :: u32) = bn) blocks of None \<Rightarrow> nat (l_n lg) | Some k \<Rightarrow> k) in
      kthen (log_mod (\<lambda>l. l\<lparr>l_block := (l_block l)[k := sint bn],
                          l_n := (if int k = l_n l then l_n l + 1 else l_n l)\<rparr>))
      (kthen (buf_mod i (\<lambda>b. b\<lparr>b_dirty := True\<rparr>))
             (release L_log)))))"

end
