(* ===== verification/Console.thy ===== *)
theory Console
  imports Sched
begin

unbundle bit_operations_syntax

text \<open>
  The console (\<open>console.c\<close>): formatted output, the text screen, and line editing of the input
  buffer. The serial port is seen as the history of bytes sent to it, the screen as its memory
  and its cursor register. \<open>consoleread\<close> and \<open>consolewrite\<close>, which unlock an inode, are in
  theory \<open>Fs\<close>.
\<close>

section \<open>Characters\<close>

definition BACKSPACE :: int where "BACKSPACE = 0x100"

definition chr :: "char \<Rightarrow> int" where
  "chr c = int (of_char c)"

definition ctrl :: "char \<Rightarrow> int" where
  "ctrl c = chr c - chr (CHR ''@'')"

definition nl :: int where "nl = 10"

section \<open>The screen and the serial port\<close>

definition uartputc :: "int \<Rightarrow> unit kk" where
  "uartputc c = kmod (\<lambda>s. s\<lparr>cons_out := cons_out s @ [of_int c]\<rparr>)"

text \<open>Screen cells are 16-bit; \<open>memmove\<close> and \<open>memset\<close> act on whole cells here.\<close>

definition crt_put :: "int \<Rightarrow> u16 \<Rightarrow> unit kk" where
  "crt_put pos v = kmod (\<lambda>s. s\<lparr>crt := (crt s)(nat pos := v)\<rparr>)"

definition crt_scroll :: "int \<Rightarrow> (nat \<Rightarrow> u16) \<Rightarrow> nat \<Rightarrow> u16" where
  "crt_scroll pos m = (\<lambda>x. if nat pos \<le> x \<and> x < 24 * 80 then 0 else if x < 23 * 80 then m (x + 80) else m x)"

definition cgaputc :: "int \<Rightarrow> unit kk" where
  "cgaputc c =
     kbind (kget crt_pos) (\<lambda>pos.
     kbind (if c = nl then kret (pos + (80 - pos mod 80))
            else if c = BACKSPACE then kret (if pos > 0 then pos - 1 else pos)
            else kthen (crt_put pos ((of_int c AND 0xff) OR 0x0700)) (kret (pos + 1))) (\<lambda>pos.
     if pos < 0 \<or> pos > 25 * 80 then kpanic ''pos under/overflow'' else
     kbind (if pos div 80 \<ge> 24
            then let pos' = pos - 80 in kthen (kmod (\<lambda>s. s\<lparr>crt := crt_scroll pos' (crt s)\<rparr>)) (kret pos')
            else kret pos) (\<lambda>pos.
     kthen (kmod (\<lambda>s. s\<lparr>crt_pos := pos\<rparr>))
           (crt_put pos (0x20 OR 0x0700)))))"

definition consputc :: "int \<Rightarrow> unit kk" where
  "consputc c =
     kthen (if c = BACKSPACE
            then kthen (uartputc 8) (kthen (uartputc 32) (uartputc 8))
            else uartputc c)
           (cgaputc c)"

section \<open>Formatted output\<close>

text \<open>
  The digits that \<open>printint\<close> collects in \<open>buf\<close>, least significant first. The code calls it with
  base 10 and 16; the guard on the base only makes the recursion total.
\<close>

definition digits :: string where "digits = ''0123456789abcdef''"

function digit_loop :: "u32 \<Rightarrow> u32 \<Rightarrow> int list" where
  "digit_loop base x =
     (if base \<le> 1 \<or> x div base = 0 then [chr (digits ! unat (x mod base))]
      else chr (digits ! unat (x mod base)) # digit_loop base (x div base))"
  by pat_completeness auto
termination
proof (relation "measure (\<lambda>(b, x). unat x)")
  show "wf (measure (\<lambda>(b, x). unat x))" by simp
next
  fix base x :: u32
  assume a: "\<not> (base \<le> 1 \<or> x div base = 0)"
  then have "1 < unat base" by (simp add: word_le_nat_alt)
  moreover have "unat x \<noteq> 0" using a by (auto simp: unat_eq_zero)
  ultimately have "unat x div unat base < unat x" by simp
  then show "((base, x div base), base, x) \<in> measure (\<lambda>(b, x). unat x)"
    by (simp add: unat_div_distrib)
qed

declare digit_loop.simps [simp del]

definition printint_chars :: "u32 \<Rightarrow> u32 \<Rightarrow> bool \<Rightarrow> int list" where
  "printint_chars xx base sg =
     (let neg = sg \<and> sint xx < 0; x = (if neg then - xx else xx)
      in rev (digit_loop base x @ (if neg then [chr (CHR ''-'')] else [])))"

definition printint :: "u32 \<Rightarrow> u32 \<Rightarrow> bool \<Rightarrow> unit kk" where
  "printint xx base sg = kfor (printint_chars xx base sg) consputc"

text \<open>Arguments of \<open>cprintf\<close>: a word, or a string given by its bytes (\<open>None\<close> a null pointer).\<close>

datatype carg = CInt u32 | CStr "string option"

fun cprintf_chars :: "string \<Rightarrow> carg list \<Rightarrow> int list option" where
  "cprintf_chars [] as = Some []"
| "cprintf_chars [c] as = Some (if c = CHR ''%'' then [] else [chr c])"
| "cprintf_chars (c # d # fmt) as =
     (if c \<noteq> CHR ''%'' then map_option ((#) (chr c)) (cprintf_chars (d # fmt) as)
      else if d = CHR ''d'' then
        (case as of CInt x # as' \<Rightarrow> map_option ((@) (printint_chars x 10 True)) (cprintf_chars fmt as') | _ \<Rightarrow> None)
      else if d = CHR ''x'' \<or> d = CHR ''p'' then
        (case as of CInt x # as' \<Rightarrow> map_option ((@) (printint_chars x 16 False)) (cprintf_chars fmt as') | _ \<Rightarrow> None)
      else if d = CHR ''s'' then
        (case as of
           CStr r # as' \<Rightarrow> map_option ((@) (map chr (case r of None \<Rightarrow> ''(null)'' | Some x \<Rightarrow> x))) (cprintf_chars fmt as')
         | _ \<Rightarrow> None)
      else if d = CHR ''%'' then map_option ((#) (chr (CHR ''%''))) (cprintf_chars fmt as)
      else map_option ((@) [chr (CHR ''%''), chr d]) (cprintf_chars fmt as))"

text \<open>A call whose arguments do not fit its format is undefined in C.\<close>

definition cprintf :: "string \<Rightarrow> carg list \<Rightarrow> unit kk" where
  "cprintf fmt as =
     kbind (kget cons_locking) (\<lambda>locking.
     kthen (kwhen locking (acquire L_cons))
     (kthen (case cprintf_chars fmt as of None \<Rightarrow> kpanic ''cprintf arguments'' | Some cs \<Rightarrow> kfor cs consputc)
            (kwhen locking (release L_cons))))"

section \<open>Listing the processes\<close>

fun getcallerpcs_from :: "nat \<Rightarrow> u32 \<Rightarrow> u32 list kk" where
  "getcallerpcs_from 0 ebp = kret []"
| "getcallerpcs_from (Suc n) ebp =
     (if ebp = 0 \<or> ebp < KERNBASE \<or> ebp = 0xffffffff then kret (replicate (Suc n) 0)
      else kbind (load32 (ebp + 4)) (\<lambda>pc.
           kbind (load32 ebp) (\<lambda>next.
           kbind (getcallerpcs_from n next) (\<lambda>pcs. kret (pc # pcs)))))"

definition getcallerpcs :: "u32 \<Rightarrow> u32 list kk" where
  "getcallerpcs v = getcallerpcs_from 10 (v - 8)"

definition state_name :: "procstate \<Rightarrow> string" where
  "state_name st = (case st of UNUSED \<Rightarrow> ''unused'' | EMBRYO \<Rightarrow> ''embryo'' | SLEEPING \<Rightarrow> ''sleep ''
     | RUNNABLE \<Rightarrow> ''runble'' | RUNNING \<Rightarrow> ''run   '' | ZOMBIE \<Rightarrow> ''zombie'')"

fun cname_from :: "nat \<Rightarrow> bytes \<Rightarrow> nat \<Rightarrow> string" where
  "cname_from 0 d a = []"
| "cname_from (Suc n) d a = (if d a = 0 then [] else char_of (unat (d a)) # cname_from n d (a + 1))"

definition procdump :: "unit kk" where
  "procdump =
     kbind (kget (\<lambda>s. length (ptable s))) (\<lambda>np.
     kfor [0 ..< np] (\<lambda>i.
       kbind (proc_get i id) (\<lambda>p.
       kwhen (p_state p \<noteq> UNUSED)
         (kthen (cprintf ''%d %s %s'' [CInt (of_int (p_pid p)), CStr (Some (state_name (p_state p))),
                                        CStr (Some (cname_from 16 (p_name p) 0))])
         (kthen (kwhen (p_state p = SLEEPING)
                   (kbind (getcallerpcs (ctx_ebp (p_context p) + 8)) (\<lambda>pcs.
                    kfor (takeWhile (\<lambda>x. x \<noteq> 0) pcs) (\<lambda>pc. cprintf '' %p'' [CInt pc]))))
                (cprintf [char_of (10 :: nat)] []))))))"

section \<open>Input\<close>

definition INPUT_BUF :: u32 where "INPUT_BUF = 128"

definition in_mod :: "(input_buf \<Rightarrow> input_buf) \<Rightarrow> unit kk" where
  "in_mod f = kmod (\<lambda>s. s\<lparr>cons_in := f (cons_in s)\<rparr>)"

definition in_char :: "input_buf \<Rightarrow> u32 \<Rightarrow> u8" where
  "in_char b k = in_buf b (unat (k mod INPUT_BUF))"

text \<open>The loop for control-U, bounded by the number of characters of the line.\<close>

fun kill_line :: "nat \<Rightarrow> unit kk" where
  "kill_line 0 = (\<lambda>s. NoFuel)"
| "kill_line (Suc n) =
     kbind (kget cons_in) (\<lambda>b.
     if in_e b \<noteq> in_w b \<and> in_char b (in_e b - 1) \<noteq> of_int nl
     then kthen (in_mod (\<lambda>b. b\<lparr>in_e := in_e b - 1\<rparr>)) (kthen (consputc BACKSPACE) (kill_line n))
     else kret ())"

definition console_char :: "int \<Rightarrow> unit kk" where
  "console_char c =
     kbind (kget cons_in) (\<lambda>b.
     if c = ctrl (CHR ''U'') then kill_line (Suc (unat (in_e b - in_w b)))
     else if c = ctrl (CHR ''H'') \<or> c = 0x7f then
       kwhen (in_e b \<noteq> in_w b) (kthen (in_mod (\<lambda>b. b\<lparr>in_e := in_e b - 1\<rparr>)) (consputc BACKSPACE))
     else kwhen (c \<noteq> 0 \<and> in_e b - in_r b < INPUT_BUF)
       (let c' = (if c = 13 then nl else c) in
        kthen (in_mod (\<lambda>b. b\<lparr>in_buf := (in_buf b)(unat (in_e b mod INPUT_BUF) := of_int c'), in_e := in_e b + 1\<rparr>))
        (kthen (consputc c')
        (kbind (kget cons_in) (\<lambda>b.
         kwhen (c' = nl \<or> c' = ctrl (CHR ''D'') \<or> in_e b = in_r b + INPUT_BUF)
           (kthen (in_mod (\<lambda>b. b\<lparr>in_w := in_e b\<rparr>)) (wakeup ChanInput)))))))"

text \<open>The argument lists what successive calls of \<open>getc\<close> return before a negative result.\<close>

definition consoleintr :: "int list \<Rightarrow> unit kk" where
  "consoleintr cs =
     kthen (acquire L_cons)
     (kthen (kfor cs (\<lambda>c. kwhen (c \<noteq> ctrl (CHR ''P'')) (console_char c)))
     (kthen (release L_cons)
            (kwhen (ctrl (CHR ''P'') \<in> set cs) procdump)))"

section \<open>The cursor\<close>

text \<open>Where the cursor moves before and after scrolling.\<close>

definition crt_advance :: "int \<Rightarrow> int \<Rightarrow> int" where
  "crt_advance c p = (if c = nl then p + (80 - p mod 80)
     else if c = BACKSPACE then (if p > 0 then p - 1 else p) else p + 1)"

definition crt_pos_after :: "int \<Rightarrow> int \<Rightarrow> int" where
  "crt_pos_after c p = (let q = crt_advance c p in if q div 80 \<ge> 24 then q - 80 else q)"

lemma crt_newline: "p + (80 - p mod 80) = (p div 80 + 1) * 80" for p :: int
  by (simp add: minus_mod_eq_div_mult distrib_right)

lemma crt_advance_bounds:
  assumes "0 \<le> p" "p < 24 * 80"
  shows "0 \<le> crt_advance c p" "crt_advance c p \<le> 24 * 80"
proof -
  have "p div 80 < 24" "0 \<le> p div 80" using assms by linarith+
  then show "0 \<le> crt_advance c p" "crt_advance c p \<le> 24 * 80"
    using assms by (auto simp: crt_advance_def crt_newline)
qed

lemma crt_pos_after_bounds:
  assumes "0 \<le> p" "p < 24 * 80"
  shows "0 \<le> crt_pos_after c p" "crt_pos_after c p < 24 * 80"
  using crt_advance_bounds [OF assms, of c] by (auto simp: crt_pos_after_def Let_def)

lemma cgaputc_app:
  "cgaputc c s =
    (let p = crt_pos s; q = crt_advance c p;
         m = (if c = nl \<or> c = BACKSPACE then crt s else (crt s)(nat p := (of_int c AND 0xff) OR 0x0700));
         m' = (if q div 80 \<ge> 24 then crt_scroll (q - 80) m else m);
         p' = crt_pos_after c p in
     if q < 0 \<or> q > 25 * 80 then Panic ''pos under/overflow''
     else Ret () (s\<lparr>crt := m'(nat p' := 0x20 OR 0x0700), crt_pos := p'\<rparr>))"
proof -
  consider "c = nl" | "c \<noteq> nl" "c = BACKSPACE" | "c \<noteq> nl" "c \<noteq> BACKSPACE" by blast
  then show ?thesis
  proof cases
    case 1
    define q where "q = crt_pos s + (80 - crt_pos s mod 80)"
    have q: "crt_advance nl (crt_pos s) = q" by (simp add: crt_advance_def q_def)
    show ?thesis
      using 1 by (cases "24 \<le> q div 80")
        (simp_all add: cgaputc_def crt_put_def crt_pos_after_def Let_def q flip: q_def)
  next
    case 2
    define q where "q = (if crt_pos s > 0 then crt_pos s - 1 else crt_pos s)"
    have q: "crt_advance BACKSPACE (crt_pos s) = q" using 2 by (auto simp: crt_advance_def q_def)
    show ?thesis
      using 2 by (cases "24 \<le> q div 80")
        (simp_all add: cgaputc_def crt_put_def crt_pos_after_def Let_def q flip: q_def)
  next
    case 3
    have q: "crt_advance c (crt_pos s) = crt_pos s + 1" using 3 by (simp add: crt_advance_def)
    show ?thesis
      using 3 by (cases "24 \<le> (crt_pos s + 1) div 80")
        (simp_all add: cgaputc_def crt_put_def crt_pos_after_def Let_def q)
  qed
qed

lemma cgaputc_frame: "wlp (cgaputc c) (\<lambda>_ t. t = s\<lparr>crt := crt t, crt_pos := crt_pos t\<rparr>) (\<lambda>_. False) s"
  by (simp add: wlp_def cgaputc_app Let_def)

lemma cgaputc_pos:
  assumes "0 \<le> crt_pos s" "crt_pos s < 24 * 80"
  shows "\<exists>m. cgaputc c s = Ret () (s\<lparr>crt := m, crt_pos := crt_pos_after c (crt_pos s)\<rparr>)"
proof -
  have "\<not> (crt_advance c (crt_pos s) < 0 \<or> crt_advance c (crt_pos s) > 25 * 80)"
    using crt_advance_bounds [OF assms, of c] by simp
  then show ?thesis by (auto simp: cgaputc_app Let_def)
qed

end
