(* ===== verification/Inode.thy ===== *)
theory Inode
  imports Log Console
begin

unbundle bit_operations_syntax

text \<open>
  The lower half of \<open>fs.c\<close>: the free-block bitmap, inodes on disk and in the inode cache, and the
  block map of an inode. An inode pointer is an index into the cache.
\<close>

section \<open>Layout on disk (\<open>fs.h\<close>)\<close>

definition ROOTINO :: u32 where "ROOTINO = 1"
definition NDIRECT :: nat where "NDIRECT = 12"
definition NINDIRECT :: nat where "NINDIRECT = BSIZE div 4"
definition MAXFILE :: nat where "MAXFILE = NDIRECT + NINDIRECT"
definition IPB :: u32 where "IPB = 8"
definition BPB :: u32 where "BPB = 4096"

definition IBLOCK :: "u32 \<Rightarrow> superblock \<Rightarrow> u32" where "IBLOCK i v = i div IPB + sb_inodestart v"
definition BBLOCK :: "u32 \<Rightarrow> superblock \<Rightarrow> u32" where "BBLOCK b v = b div BPB + sb_bmapstart v"

lemmas fs_layout_defs = ROOTINO_def NDIRECT_def NINDIRECT_def MAXFILE_def IPB_def BPB_def BSIZE_def

definition T_DIR :: u16 where "T_DIR = 1"
definition T_FILE :: u16 where "T_FILE = 2"
definition T_DEV :: u16 where "T_DEV = 3"

lemmas file_types = T_DIR_def T_FILE_def T_DEV_def

record dinode =
  d_type :: u16
  d_major :: u16
  d_minor :: u16
  d_nlink :: u16
  d_size :: u32
  d_addrs :: "u32 list"

text \<open>A disk inode takes 64 bytes: four 16-bit fields, the size and 13 block numbers.\<close>

fun get_words :: "bytes \<Rightarrow> nat \<Rightarrow> nat \<Rightarrow> u32 list" where
  "get_words d a 0 = []"
| "get_words d a (Suc n) = get32 d a # get_words d (a + 4) n"

fun put_words :: "bytes \<Rightarrow> nat \<Rightarrow> u32 list \<Rightarrow> bytes" where
  "put_words d a [] = d"
| "put_words d a (w # ws) = put_words (put32 d a w) (a + 4) ws"

definition get_dinode :: "bytes \<Rightarrow> nat \<Rightarrow> dinode" where
  "get_dinode d a = \<lparr>d_type = get16 d a, d_major = get16 d (a + 2), d_minor = get16 d (a + 4),
     d_nlink = get16 d (a + 6), d_size = get32 d (a + 8), d_addrs = get_words d (a + 12) (NDIRECT + 1)\<rparr>"

definition put_dinode :: "bytes \<Rightarrow> nat \<Rightarrow> dinode \<Rightarrow> bytes" where
  "put_dinode d a v = put_words (put32 (put16 (put16 (put16 (put16 d a (d_type v)) (a + 2) (d_major v))
     (a + 4) (d_minor v)) (a + 6) (d_nlink v)) (a + 8) (d_size v)) (a + 12) (d_addrs v)"

definition dinode_off :: "u32 \<Rightarrow> nat" where
  "dinode_off inum = 64 * unat (inum mod IPB)"

section \<open>Blocks\<close>

definition bzero :: "u32 \<Rightarrow> u32 \<Rightarrow> unit kk" where
  "bzero dev bno =
     kbind (bread dev bno) (\<lambda>bp.
     kthen (buf_mod bp (\<lambda>b. b\<lparr>b_data := memset (b_data b) 0 0 BSIZE\<rparr>))
     (kthen (log_write bp) (brelse bp)))"

definition bitmap_used :: "bytes \<Rightarrow> nat \<Rightarrow> bool" where
  "bitmap_used d bi \<longleftrightarrow> d (bi div 8) AND push_bit (bi mod 8) 1 \<noteq> 0"

definition bitmap_set :: "nat \<Rightarrow> bytes \<Rightarrow> bytes" where
  "bitmap_set bi d = d(bi div 8 := d (bi div 8) OR push_bit (bi mod 8) 1)"

definition bitmap_clear :: "nat \<Rightarrow> bytes \<Rightarrow> bytes" where
  "bitmap_clear bi d = d(bi div 8 := d (bi div 8) AND NOT (push_bit (bi mod 8) 1))"

text \<open>The outer loop of \<open>balloc\<close> runs over the first block of every bitmap block.\<close>

fun balloc_loop :: "u32 \<Rightarrow> nat list \<Rightarrow> u32 kk" where
  "balloc_loop dev [] = kpanic ''balloc: out of blocks''"
| "balloc_loop dev (b # bs) =
     kbind (kget sb) (\<lambda>v.
     kbind (bread dev (BBLOCK (of_nat b) v)) (\<lambda>bp.
     kbind (buf_get bp b_data) (\<lambda>d.
     case find (\<lambda>bi. \<not> bitmap_used d bi) [0 ..< min (unat BPB) (unat (sb_size v) - b)] of
       Some bi \<Rightarrow>
         kthen (buf_mod bp (\<lambda>x. x\<lparr>b_data := bitmap_set bi (b_data x)\<rparr>))
         (kthen (log_write bp)
         (kthen (brelse bp)
         (kthen (bzero dev (of_nat (b + bi)))
                (kret (of_nat (b + bi))))))
     | None \<Rightarrow> kthen (brelse bp) (balloc_loop dev bs))))"

definition balloc :: "u32 \<Rightarrow> u32 kk" where
  "balloc dev = kbind (kget sb) (\<lambda>v.
     balloc_loop dev (map (\<lambda>k. unat BPB * k) [0 ..< (unat (sb_size v) + unat BPB - 1) div unat BPB]))"

definition bfree :: "u32 \<Rightarrow> u32 \<Rightarrow> unit kk" where
  "bfree dev b =
     kbind (kget sb) (\<lambda>v.
     kbind (bread dev (BBLOCK b v)) (\<lambda>bp.
     let bi = unat (b mod BPB) in
     kbind (buf_get bp b_data) (\<lambda>d.
     if \<not> bitmap_used d bi then kpanic ''freeing free block'' else
     kthen (buf_mod bp (\<lambda>x. x\<lparr>b_data := bitmap_clear bi (b_data x)\<rparr>))
     (kthen (log_write bp) (brelse bp)))))"

section \<open>Inodes\<close>

definition inode_get :: "nat \<Rightarrow> (inode \<Rightarrow> 'a) \<Rightarrow> 'a kk" where
  "inode_get i f = kget (\<lambda>s. f (icache s ! i))"

definition inode_mod :: "nat \<Rightarrow> (inode \<Rightarrow> inode) \<Rightarrow> unit kk" where
  "inode_mod i f = kmod (\<lambda>s. s\<lparr>icache := (icache s)[i := f (icache s ! i)]\<rparr>)"

definition iinit :: "u32 \<Rightarrow> unit kk" where
  "iinit dev =
     kthen (kfor [0 ..< NINODE] (\<lambda>i. initsleeplock (SL_Inode i)))
     (kbind (readsb dev) (\<lambda>v.
      kthen (kmod (\<lambda>s. s\<lparr>sb := v\<rparr>))
            (cprintf (''sb: size %d nblocks %d ninodes %d nlog %d logstart %d inodestart %d bmap start %d'' @ [char_of (10 :: nat)])
               (map CInt [sb_size v, sb_nblocks v, sb_ninodes v, sb_nlog v, sb_logstart v, sb_inodestart v,
                 sb_bmapstart v]))))"

definition iget :: "u32 \<Rightarrow> u32 \<Rightarrow> nat kk" where
  "iget dev inum =
     kthen (acquire L_icache)
     (kbind (kget icache) (\<lambda>ic.
      case first_index (\<lambda>ip. i_ref ip > 0 \<and> i_dev ip = dev \<and> i_inum ip = inum) ic of
        Some i \<Rightarrow>
          kthen (inode_mod i (\<lambda>ip. ip\<lparr>i_ref := i_ref ip + 1\<rparr>)) (kthen (release L_icache) (kret i))
      | None \<Rightarrow>
          (case first_index (\<lambda>ip. i_ref ip = 0) ic of
             None \<Rightarrow> kpanic ''iget: no inodes''
           | Some i \<Rightarrow>
               kthen (inode_mod i (\<lambda>ip. ip\<lparr>i_dev := dev, i_inum := inum, i_ref := 1, i_valid := False\<rparr>))
               (kthen (release L_icache) (kret i)))))"

fun ialloc_loop :: "u32 \<Rightarrow> u16 \<Rightarrow> nat list \<Rightarrow> nat kk" where
  "ialloc_loop dev type [] = kpanic ''ialloc: no inodes''"
| "ialloc_loop dev type (n # ns) =
     (let inum = of_nat n in
      kbind (kget sb) (\<lambda>v.
      kbind (bread dev (IBLOCK inum v)) (\<lambda>bp.
      kbind (buf_get bp b_data) (\<lambda>d.
      if d_type (get_dinode d (dinode_off inum)) = 0 then
        kthen (buf_mod bp (\<lambda>b. b\<lparr>b_data := put16 (memset (b_data b) (dinode_off inum) 0 64) (dinode_off inum) type\<rparr>))
        (kthen (log_write bp)
        (kthen (brelse bp) (iget dev inum)))
      else kthen (brelse bp) (ialloc_loop dev type ns)))))"

definition ialloc :: "u32 \<Rightarrow> u16 \<Rightarrow> nat kk" where
  "ialloc dev type = kbind (kget sb) (\<lambda>v. ialloc_loop dev type [1 ..< unat (sb_ninodes v)])"

definition dinode_of :: "inode \<Rightarrow> dinode" where
  "dinode_of ip = \<lparr>d_type = i_type ip, d_major = i_major ip, d_minor = i_minor ip, d_nlink = i_nlink ip,
     d_size = i_size ip, d_addrs = i_addrs ip\<rparr>"

definition iupdate :: "nat \<Rightarrow> unit kk" where
  "iupdate i =
     kbind (inode_get i id) (\<lambda>ip.
     kbind (kget sb) (\<lambda>v.
     kbind (bread (i_dev ip) (IBLOCK (i_inum ip) v)) (\<lambda>bp.
     kthen (buf_mod bp (\<lambda>b. b\<lparr>b_data := put_dinode (b_data b) (dinode_off (i_inum ip)) (dinode_of ip)\<rparr>))
     (kthen (log_write bp) (brelse bp)))))"

definition idup :: "nat \<Rightarrow> nat kk" where
  "idup i =
     kthen (acquire L_icache)
     (kthen (inode_mod i (\<lambda>ip. ip\<lparr>i_ref := i_ref ip + 1\<rparr>))
     (kthen (release L_icache) (kret i)))"

definition load_dinode :: "dinode \<Rightarrow> inode \<Rightarrow> inode" where
  "load_dinode v ip = ip\<lparr>i_type := d_type v, i_major := d_major v, i_minor := d_minor v, i_nlink := d_nlink v,
     i_size := d_size v, i_addrs := d_addrs v\<rparr>"

definition ilock :: "nat option \<Rightarrow> unit kk" where
  "ilock p =
     (case p of None \<Rightarrow> kpanic ''ilock'' | Some i \<Rightarrow>
      kbind (inode_get i i_ref) (\<lambda>r.
      if r < 1 then kpanic ''ilock'' else
      kthen (acquiresleep (SL_Inode i))
      (kbind (inode_get i id) (\<lambda>ip.
       kwhen (\<not> i_valid ip)
         (kbind (kget sb) (\<lambda>v.
          kbind (bread (i_dev ip) (IBLOCK (i_inum ip) v)) (\<lambda>bp.
          kbind (buf_get bp b_data) (\<lambda>d.
          let dip = get_dinode d (dinode_off (i_inum ip)) in
          kthen (inode_mod i (load_dinode dip))
          (kthen (brelse bp)
          (kthen (inode_mod i (\<lambda>ip. ip\<lparr>i_valid := True\<rparr>))
                 (if d_type dip = 0 then kpanic ''ilock: no type'' else kret ())))))))))))"

definition iunlock :: "nat option \<Rightarrow> unit kk" where
  "iunlock p =
     (case p of None \<Rightarrow> kpanic ''iunlock'' | Some i \<Rightarrow>
      kbind (holdingsleep (SL_Inode i)) (\<lambda>h.
      kbind (inode_get i i_ref) (\<lambda>r.
      if \<not> h \<or> r < 1 then kpanic ''iunlock'' else releasesleep (SL_Inode i))))"

section \<open>The block map of an inode\<close>

definition set_addr :: "nat \<Rightarrow> nat \<Rightarrow> u32 \<Rightarrow> unit kk" where
  "set_addr i k a = inode_mod i (\<lambda>ip. ip\<lparr>i_addrs := (i_addrs ip)[k := a]\<rparr>)"

text \<open>\<open>addrs[k]\<close>, allocated if it is zero.\<close>

definition bmap_addr :: "nat \<Rightarrow> nat \<Rightarrow> u32 kk" where
  "bmap_addr i k =
     kbind (inode_get i id) (\<lambda>ip.
     let addr = i_addrs ip ! k in
     if addr = 0 then kbind (balloc (i_dev ip)) (\<lambda>a. kthen (set_addr i k a) (kret a))
     else kret addr)"

definition bmap :: "nat \<Rightarrow> u32 \<Rightarrow> u32 kk" where
  "bmap i bn =
     (if unat bn < NDIRECT then bmap_addr i (unat bn) else
      let bn' = unat (bn - of_nat NDIRECT) in
      if bn' < NINDIRECT then
        kbind (bmap_addr i NDIRECT) (\<lambda>ind.
        kbind (inode_get i i_dev) (\<lambda>dev.
        kbind (bread dev ind) (\<lambda>bp.
        kbind (buf_get bp b_data) (\<lambda>d.
        let addr = get32 d (4 * bn') in
        kbind (if addr = 0
               then kbind (balloc dev) (\<lambda>a.
                    kthen (buf_mod bp (\<lambda>b. b\<lparr>b_data := put32 (b_data b) (4 * bn') a\<rparr>))
                    (kthen (log_write bp) (kret a)))
               else kret addr) (\<lambda>addr.
        kthen (brelse bp) (kret addr))))))
      else kpanic ''bmap: out of range'')"

definition itrunc :: "nat \<Rightarrow> unit kk" where
  "itrunc i =
     kthen (kfor [0 ..< NDIRECT] (\<lambda>k.
        kbind (inode_get i id) (\<lambda>ip.
        kwhen (i_addrs ip ! k \<noteq> 0)
          (kthen (bfree (i_dev ip) (i_addrs ip ! k)) (set_addr i k 0)))))
     (kthen (kbind (inode_get i id) (\<lambda>ip.
        kwhen (i_addrs ip ! NDIRECT \<noteq> 0)
          (kbind (bread (i_dev ip) (i_addrs ip ! NDIRECT)) (\<lambda>bp.
           kthen (kfor [0 ..< NINDIRECT] (\<lambda>j.
              kbind (buf_get bp b_data) (\<lambda>d.
              kwhen (get32 d (4 * j) \<noteq> 0) (bfree (i_dev ip) (get32 d (4 * j))))))
           (kthen (brelse bp)
           (kthen (bfree (i_dev ip) (i_addrs ip ! NDIRECT))
                  (set_addr i NDIRECT 0)))))))
     (kthen (inode_mod i (\<lambda>ip. ip\<lparr>i_size := 0\<rparr>))
            (iupdate i)))"

definition iput :: "nat \<Rightarrow> unit kk" where
  "iput i =
     kthen (acquiresleep (SL_Inode i))
     (kbind (inode_get i id) (\<lambda>ip.
      kthen (kwhen (i_valid ip \<and> i_nlink ip = 0)
         (kthen (acquire L_icache)
         (kbind (inode_get i i_ref) (\<lambda>r.
          kthen (release L_icache)
          (kwhen (r = 1)
             (kthen (itrunc i)
             (kthen (inode_mod i (\<lambda>ip. ip\<lparr>i_type := 0\<rparr>))
             (kthen (iupdate i)
                    (inode_mod i (\<lambda>ip. ip\<lparr>i_valid := False\<rparr>))))))))))
      (kthen (releasesleep (SL_Inode i))
      (kthen (acquire L_icache)
      (kthen (inode_mod i (\<lambda>ip. ip\<lparr>i_ref := i_ref ip - 1\<rparr>))
             (release L_icache))))))"

definition iunlockput :: "nat \<Rightarrow> unit kk" where
  "iunlockput i = kthen (iunlock (Some i)) (iput i)"

record stat =
  st_type :: u16
  st_dev :: u32
  st_ino :: u32
  st_nlink :: u16
  st_size :: u32

definition stati :: "nat \<Rightarrow> stat kk" where
  "stati i = inode_get i (\<lambda>ip. \<lparr>st_type = i_type ip, st_dev = i_dev ip, st_ino = i_inum ip,
     st_nlink = i_nlink ip, st_size = i_size ip\<rparr>)"

end
