(* ===== verification/Fs.thy ===== *)
theory Fs
  imports Inode
begin

unbundle bit_operations_syntax

text \<open>
  The upper half of \<open>fs.c\<close>: reading and writing the content of an inode, directories and path
  names, with the two functions of \<open>console.c\<close> that the device switch calls.

  Data goes to an address of the running process, to a kernel address, or to a local variable of
  the caller; for the last the bytes are part of the result. A path is the list of its bytes, read
  once from the caller's memory.
\<close>

section \<open>Where the data goes\<close>

datatype dest = DstVA u32 | DstKA u32 | DstLocal
datatype srcbuf = SrcVA u32 | SrcBytes "u8 list"

definition put_dest :: "dest \<Rightarrow> u32 \<Rightarrow> u8 list \<Rightarrow> unit kk" where
  "put_dest dst k bs = (case dst of DstVA a \<Rightarrow> va_store (a + k) bs
     | DstKA a \<Rightarrow> kwrite_bytes (a + k) (\<lambda>i. bs ! i) (of_nat (length bs)) | DstLocal \<Rightarrow> kret ())"

definition get_src :: "srcbuf \<Rightarrow> u32 \<Rightarrow> nat \<Rightarrow> u8 list kk" where
  "get_src src k m = (case src of SrcVA a \<Rightarrow> va_load (a + k) m | SrcBytes bs \<Rightarrow> kret (take m (drop (unat k) bs)))"

section \<open>The console as a device\<close>

text \<open>Every round of the loop of \<open>consoleread\<close> sleeps or takes a character.\<close>

fun consoleread_loop :: "nat \<Rightarrow> nat \<Rightarrow> dest \<Rightarrow> int \<Rightarrow> int \<Rightarrow> u8 list \<Rightarrow> (int \<times> u8 list) kk" where
  "consoleread_loop 0 i dst target n acc = (\<lambda>s. NoFuel)"
| "consoleread_loop (Suc k) i dst target n acc =
     (if n \<le> 0 then kthen (release L_cons) (kthen (ilock (Some i)) (kret (target - n, acc))) else
      kbind (kget cons_in) (\<lambda>b.
      if in_r b = in_w b then
        kbind curproc (\<lambda>p.
        kbind (proc_get p p_killed) (\<lambda>kd.
        if kd then kthen (release L_cons) (kthen (ilock (Some i)) (kret (-1, acc)))
        else kthen (sleep ChanInput L_cons) (consoleread_loop k i dst target n acc)))
      else
        let c = in_char b (in_r b) in
        kthen (in_mod (\<lambda>b. b\<lparr>in_r := in_r b + 1\<rparr>))
        (if c = of_int (ctrl (CHR ''D'')) then
           kthen (kwhen (n < target) (in_mod (\<lambda>b. b\<lparr>in_r := in_r b - 1\<rparr>)))
           (kthen (release L_cons) (kthen (ilock (Some i)) (kret (target - n, acc))))
         else
           kthen (put_dest dst (of_int (target - n)) [c])
           (if c = of_int nl
            then kthen (release L_cons) (kthen (ilock (Some i)) (kret (target - (n - 1), acc @ [c])))
            else consoleread_loop k i dst target (n - 1) (acc @ [c])))))"

definition consoleread :: "nat \<Rightarrow> dest \<Rightarrow> int \<Rightarrow> (int \<times> u8 list) kk" where
  "consoleread i dst n =
     kthen (iunlock (Some i))
     (kthen (acquire L_cons)
     (kbind (kget fuel) (\<lambda>k. consoleread_loop (Suc (k + nat n)) i dst n n [])))"

definition consolewrite :: "nat \<Rightarrow> srcbuf \<Rightarrow> int \<Rightarrow> int kk" where
  "consolewrite i src n =
     kthen (iunlock (Some i))
     (kthen (acquire L_cons)
     (kthen (kfor [0 ..< nat n] (\<lambda>k. kbind (get_src src (of_nat k) 1) (\<lambda>bs. kfor bs (\<lambda>b. consputc (uint b)))))
     (kthen (release L_cons)
     (kthen (ilock (Some i))
            (kret n)))))"

definition dev_driver :: "u16 \<Rightarrow> kernel \<Rightarrow> bool" where
  "dev_driver major s \<longleftrightarrow> 0 \<le> sint major \<and> sint major < NDEV \<and> devsw s ! unat major"

definition CONSOLE :: nat where "CONSOLE = 1"

definition consoleinit :: "unit kk" where
  "consoleinit = kmod (\<lambda>s. s\<lparr>devsw := (devsw s)[CONSOLE := True], cons_locking := True\<rparr>)"

section \<open>Content of an inode\<close>

definition chunk :: "u32 \<Rightarrow> u32 \<Rightarrow> u32 \<Rightarrow> u32" where
  "chunk n tot off = min (n - tot) (512 - off mod 512)"

fun readi_loop :: "nat \<Rightarrow> nat \<Rightarrow> dest \<Rightarrow> u32 \<Rightarrow> u32 \<Rightarrow> u32 \<Rightarrow> u8 list \<Rightarrow> u8 list kk" where
  "readi_loop 0 i dst n tot off acc = (\<lambda>s. NoFuel)"
| "readi_loop (Suc k) i dst n tot off acc =
     (if tot < n then
        kbind (bmap i (off div 512)) (\<lambda>addr.
        kbind (inode_get i i_dev) (\<lambda>dev.
        kbind (bread dev addr) (\<lambda>bp.
        let m = chunk n tot off in
        kbind (buf_get bp (\<lambda>b. map (\<lambda>x. b_data b (unat (off mod 512) + x)) [0 ..< unat m])) (\<lambda>bs.
        kthen (put_dest dst tot bs)
        (kthen (brelse bp)
               (readi_loop k i dst n (tot + m) (off + m) (acc @ bs)))))))
      else kret acc)"

definition readi :: "nat \<Rightarrow> dest \<Rightarrow> u32 \<Rightarrow> u32 \<Rightarrow> (int \<times> u8 list) kk" where
  "readi i dst off n =
     kbind (inode_get i id) (\<lambda>ip.
     if i_type ip = T_DEV then
       kbind (kget (dev_driver (i_major ip))) (\<lambda>ok.
       if ok then consoleread i dst (sint n) else kret (-1, []))
     else if off > i_size ip \<or> off + n < off then kret (-1, [])
     else
       let n' = (if off + n > i_size ip then i_size ip - off else n) in
       kbind (readi_loop (Suc (unat n')) i dst n' 0 off []) (\<lambda>bs.
       kret (sint n', bs)))"

definition write_at :: "bytes \<Rightarrow> nat \<Rightarrow> u8 list \<Rightarrow> bytes" where
  "write_at d a bs = (\<lambda>x. if a \<le> x \<and> x < a + length bs then bs ! (x - a) else d x)"

fun writei_loop :: "nat \<Rightarrow> nat \<Rightarrow> srcbuf \<Rightarrow> u32 \<Rightarrow> u32 \<Rightarrow> u32 \<Rightarrow> u32 kk" where
  "writei_loop 0 i src n tot off = (\<lambda>s. NoFuel)"
| "writei_loop (Suc k) i src n tot off =
     (if tot < n then
        kbind (bmap i (off div 512)) (\<lambda>addr.
        kbind (inode_get i i_dev) (\<lambda>dev.
        kbind (bread dev addr) (\<lambda>bp.
        let m = chunk n tot off in
        kbind (get_src src tot (unat m)) (\<lambda>bs.
        kthen (buf_mod bp (\<lambda>b. b\<lparr>b_data := write_at (b_data b) (unat (off mod 512)) bs\<rparr>))
        (kthen (log_write bp)
        (kthen (brelse bp)
               (writei_loop k i src n (tot + m) (off + m))))))))
      else kret off)"

definition writei :: "nat \<Rightarrow> srcbuf \<Rightarrow> u32 \<Rightarrow> u32 \<Rightarrow> int kk" where
  "writei i src off n =
     kbind (inode_get i id) (\<lambda>ip.
     if i_type ip = T_DEV then
       kbind (kget (dev_driver (i_major ip))) (\<lambda>ok.
       if ok then consolewrite i src (sint n) else kret (-1))
     else if off > i_size ip \<or> off + n < off then kret (-1)
     else if off + n > of_nat (MAXFILE * BSIZE) then kret (-1)
     else
       kbind (writei_loop (Suc (unat n)) i src n 0 off) (\<lambda>off'.
       kbind (inode_get i i_size) (\<lambda>sz.
       kthen (kwhen (n > 0 \<and> off' > sz)
                (kthen (inode_mod i (\<lambda>ip. ip\<lparr>i_size := off'\<rparr>)) (iupdate i)))
             (kret (sint n)))))"

section \<open>Directories\<close>

definition DIRSIZ :: nat where "DIRSIZ = 14"

record dirent =
  de_inum :: u16
  de_name :: bytes

definition dirent_of_list :: "u8 list \<Rightarrow> dirent" where
  "dirent_of_list bs = \<lparr>de_inum = get16 (\<lambda>i. bs ! i) 0, de_name = (\<lambda>i. bs ! (2 + i))\<rparr>"

definition list_of_dirent :: "dirent \<Rightarrow> u8 list" where
  "list_of_dirent de = map (put16 (\<lambda>_. 0) 0 (de_inum de)) [0 ..< 2] @ map (de_name de) [0 ..< DIRSIZ]"

definition namecmp :: "bytes \<Rightarrow> bytes \<Rightarrow> int" where
  "namecmp s t = strncmp s t 0 DIRSIZ"

text \<open>The result of \<open>dirlookup\<close> is the inode and the offset of its entry (\<open>*poff\<close>).\<close>

fun dirlookup_loop :: "nat \<Rightarrow> nat \<Rightarrow> bytes \<Rightarrow> u32 \<Rightarrow> (nat \<times> u32) option kk" where
  "dirlookup_loop 0 i name off = (\<lambda>s. NoFuel)"
| "dirlookup_loop (Suc k) i name off =
     kbind (inode_get i i_size) (\<lambda>sz.
     if off < sz then
       kbind (readi i DstLocal off 16) (\<lambda>(r, bs).
       if r \<noteq> 16 then kpanic ''dirlookup read'' else
       let de = dirent_of_list bs in
       if de_inum de = 0 then dirlookup_loop k i name (off + 16)
       else if namecmp name (de_name de) = 0 then
         kbind (inode_get i i_dev) (\<lambda>dev.
         kbind (iget dev (ucast (de_inum de))) (\<lambda>ip. kret (Some (ip, off))))
       else dirlookup_loop k i name (off + 16))
     else kret None)"

definition dirlookup :: "nat \<Rightarrow> bytes \<Rightarrow> (nat \<times> u32) option kk" where
  "dirlookup i name =
     kbind (inode_get i id) (\<lambda>dp.
     if i_type dp \<noteq> T_DIR then kpanic ''dirlookup not DIR''
     else dirlookup_loop (unat (i_size dp) div 16 + 2) i name 0)"

fun dirlink_slot :: "nat \<Rightarrow> nat \<Rightarrow> u32 \<Rightarrow> u32 kk" where
  "dirlink_slot 0 i off = (\<lambda>s. NoFuel)"
| "dirlink_slot (Suc k) i off =
     kbind (inode_get i i_size) (\<lambda>sz.
     if off < sz then
       kbind (readi i DstLocal off 16) (\<lambda>(r, bs).
       if r \<noteq> 16 then kpanic ''dirlink read'' else
       if de_inum (dirent_of_list bs) = 0 then kret off else dirlink_slot k i (off + 16))
     else kret off)"

definition dirlink :: "nat \<Rightarrow> bytes \<Rightarrow> u32 \<Rightarrow> int kk" where
  "dirlink i name inum =
     kbind (dirlookup i name) (\<lambda>r.
     case r of
       Some (ip, _) \<Rightarrow> kthen (iput ip) (kret (-1))
     | None \<Rightarrow>
         kbind (inode_get i i_size) (\<lambda>sz.
         kbind (dirlink_slot (unat sz div 16 + 2) i 0) (\<lambda>off.
         let de = \<lparr>de_inum = ucast inum, de_name = strncpy (\<lambda>_. 0) name (int DIRSIZ)\<rparr> in
         kbind (writei i (SrcBytes (list_of_dirent de)) off 16) (\<lambda>r.
         if r \<noteq> 16 then kpanic ''dirlink'' else kret 0))))"

section \<open>Paths\<close>

definition slash :: u8 where "slash = 47"

definition name_of_elem :: "bytes \<Rightarrow> u8 list \<Rightarrow> bytes" where
  "name_of_elem name s =
     (if length s \<ge> DIRSIZ then write_at name 0 (take DIRSIZ s)
      else (write_at name 0 s)(length s := 0))"

definition skipelem :: "u8 list \<Rightarrow> bytes \<Rightarrow> (u8 list \<times> bytes) option" where
  "skipelem path name =
     (let p = dropWhile (\<lambda>c. c = slash) path in
      if p = [] then None
      else Some (dropWhile (\<lambda>c. c = slash) (dropWhile (\<lambda>c. c \<noteq> slash) p),
                 name_of_elem name (takeWhile (\<lambda>c. c \<noteq> slash) p)))"

lemma skipelem_shorter: "skipelem path name = Some (path', name') \<Longrightarrow> length path' < length path"
proof -
  assume a: "skipelem path name = Some (path', name')"
  let ?p = "dropWhile (\<lambda>c. c = slash) path"
  from a have p: "?p \<noteq> []" "path' = dropWhile (\<lambda>c. c = slash) (dropWhile (\<lambda>c. c \<noteq> slash) ?p)"
    by (auto simp: skipelem_def Let_def split: if_splits)
  then obtain c q where c: "?p = c # q" by (cases ?p) auto
  then have "c \<noteq> slash" using hd_dropWhile [OF p(1)] by simp
  then have "dropWhile (\<lambda>c. c \<noteq> slash) ?p = dropWhile (\<lambda>c. c \<noteq> slash) q" using c by simp
  then have "length path' \<le> length q"
    using p(2) by (metis dual_order.trans length_dropWhile_le)
  moreover have "length ?p \<le> length path" by (rule length_dropWhile_le)
  ultimately show ?thesis using c by simp
qed

function namex_loop :: "bool \<Rightarrow> nat \<Rightarrow> u8 list \<Rightarrow> bytes \<Rightarrow> (nat \<times> bytes) option kk" where
  "namex_loop parent i path name =
     (case skipelem path name of
        None \<Rightarrow> if parent then kthen (iput i) (kret None) else kret (Some (i, name))
      | Some (path', name') \<Rightarrow>
          kthen (ilock (Some i))
          (kbind (inode_get i i_type) (\<lambda>ty.
           if ty \<noteq> T_DIR then kthen (iunlockput i) (kret None)
           else if parent \<and> path' = [] then kthen (iunlock (Some i)) (kret (Some (i, name')))
           else kbind (dirlookup i name') (\<lambda>r.
                case r of
                  None \<Rightarrow> kthen (iunlockput i) (kret None)
                | Some (next, _) \<Rightarrow> kthen (iunlockput i) (namex_loop parent next path' name')))))"
  by pat_completeness auto
termination
  by (relation "measure (\<lambda>(b, i, path, name). length path)") (auto dest: skipelem_shorter)

declare namex_loop.simps [simp del]

definition namex :: "u8 list \<Rightarrow> bool \<Rightarrow> bytes \<Rightarrow> (nat \<times> bytes) option kk" where
  "namex path parent name =
     kbind (if path \<noteq> [] \<and> hd path = slash then iget ROOTDEV ROOTINO
            else kbind curproc (\<lambda>p. kbind (proc_get p p_cwd) (\<lambda>c. kbind (deref c) idup))) (\<lambda>i.
     namex_loop parent i path name)"

definition namei :: "u8 list \<Rightarrow> nat option kk" where
  "namei path = kbind (namex path False (\<lambda>_. 0)) (\<lambda>r. kret (map_option fst r))"

definition nameiparent :: "u8 list \<Rightarrow> (nat \<times> bytes) option kk" where
  "nameiparent path = namex path True (\<lambda>_. 0)"

end
