(* ===== verification/File.thy ===== *)
theory File
  imports Fs
begin

unbundle bit_operations_syntax

text \<open>
  Open files (\<open>file.c\<close>) and pipes (\<open>pipe.c\<close>). A file pointer is an index into the file table; a
  pipe is named by the address of the page that holds it.
\<close>

section \<open>File structures\<close>

definition file_get :: "nat \<Rightarrow> (kfile \<Rightarrow> 'a) \<Rightarrow> 'a kk" where
  "file_get f g = kget (\<lambda>s. g (ftable s ! f))"

definition file_mod :: "nat \<Rightarrow> (kfile \<Rightarrow> kfile) \<Rightarrow> unit kk" where
  "file_mod f g = kmod (\<lambda>s. s\<lparr>ftable := (ftable s)[f := g (ftable s ! f)]\<rparr>)"

definition filealloc :: "nat option kk" where
  "filealloc =
     kthen (acquire L_ftable)
     (kbind (kget (\<lambda>s. first_index (\<lambda>f. f_ref f = 0) (ftable s))) (\<lambda>r.
      case r of
        Some f \<Rightarrow> kthen (file_mod f (\<lambda>x. x\<lparr>f_ref := 1\<rparr>)) (kthen (release L_ftable) (kret (Some f)))
      | None \<Rightarrow> kthen (release L_ftable) (kret None)))"

definition filedup :: "nat \<Rightarrow> nat kk" where
  "filedup f =
     kthen (acquire L_ftable)
     (kbind (file_get f f_ref) (\<lambda>r.
      if r < 1 then kpanic ''filedup'' else
      kthen (file_mod f (\<lambda>x. x\<lparr>f_ref := f_ref x + 1\<rparr>))
      (kthen (release L_ftable) (kret f))))"

section \<open>Pipes\<close>

definition PIPESIZE :: u32 where "PIPESIZE = 512"

definition pipe_get :: "u32 \<Rightarrow> (pipe \<Rightarrow> 'a) \<Rightarrow> 'a kk" where
  "pipe_get p g = kget (\<lambda>s. g (pipes s p))"

definition pipe_mod :: "u32 \<Rightarrow> (pipe \<Rightarrow> pipe) \<Rightarrow> unit kk" where
  "pipe_mod p g = kmod (\<lambda>s. s\<lparr>pipes := (pipes s)(p := g (pipes s p))\<rparr>)"

definition pipeclose :: "u32 \<Rightarrow> bool \<Rightarrow> unit kk" where
  "pipeclose p writable =
     kthen (acquire (L_pipe p))
     (kthen (if writable
             then kthen (pipe_mod p (\<lambda>x. x\<lparr>pi_writeopen := False\<rparr>)) (wakeup (ChanPipeRead p))
             else kthen (pipe_mod p (\<lambda>x. x\<lparr>pi_readopen := False\<rparr>)) (wakeup (ChanPipeWrite p)))
     (kbind (pipe_get p id) (\<lambda>x.
      if \<not> pi_readopen x \<and> \<not> pi_writeopen x
      then kthen (release (L_pipe p)) (kfree p)
      else release (L_pipe p))))"

definition pipe_full :: "pipe \<Rightarrow> bool" where
  "pipe_full x \<longleftrightarrow> pi_nwrite x = pi_nread x + PIPESIZE"

definition pipe_put :: "u8 \<Rightarrow> pipe \<Rightarrow> pipe" where
  "pipe_put b x = x\<lparr>pi_data := (pi_data x)(unat (pi_nwrite x mod PIPESIZE) := b), pi_nwrite := pi_nwrite x + 1\<rparr>"

definition pipe_head :: "pipe \<Rightarrow> u8" where
  "pipe_head x = pi_data x (unat (pi_nread x mod PIPESIZE))"

definition pipe_drop :: "pipe \<Rightarrow> pipe" where
  "pipe_drop x = x\<lparr>pi_nread := pi_nread x + 1\<rparr>"

text \<open>Every round of the two loops of \<open>pipewrite\<close> sleeps or writes a byte.\<close>

fun pipewrite_loop :: "nat \<Rightarrow> u32 \<Rightarrow> u32 \<Rightarrow> int \<Rightarrow> int \<Rightarrow> int kk" where
  "pipewrite_loop 0 p addr n i = (\<lambda>s. NoFuel)"
| "pipewrite_loop (Suc k) p addr n i =
     (if i < n then
        kbind (pipe_get p id) (\<lambda>x.
        if pipe_full x then
          kbind (if \<not> pi_readopen x then kret True else kbind curproc (\<lambda>c. proc_get c p_killed)) (\<lambda>stop.
          if stop then kthen (release (L_pipe p)) (kret (-1))
          else kthen (wakeup (ChanPipeRead p))
               (kthen (sleep (ChanPipeWrite p) (L_pipe p))
                      (pipewrite_loop k p addr n i)))
        else
          kbind (va_load8 (addr + of_int i)) (\<lambda>b.
          kthen (pipe_mod p (pipe_put b))
                (pipewrite_loop k p addr n (i + 1))))
      else
        kthen (wakeup (ChanPipeRead p))
        (kthen (release (L_pipe p)) (kret n)))"

definition pipewrite :: "u32 \<Rightarrow> u32 \<Rightarrow> int \<Rightarrow> int kk" where
  "pipewrite p addr n =
     kthen (acquire (L_pipe p)) (kbind (kget fuel) (\<lambda>k. pipewrite_loop (Suc (k + nat n)) p addr n 0))"

fun piperead_copy :: "nat \<Rightarrow> u32 \<Rightarrow> u32 \<Rightarrow> int \<Rightarrow> int kk" where
  "piperead_copy 0 p addr i = kret i"
| "piperead_copy (Suc k) p addr i =
     kbind (pipe_get p id) (\<lambda>x.
     if pi_nread x = pi_nwrite x then kret i
     else kthen (pipe_mod p pipe_drop)
          (kthen (va_store8 (addr + of_int i) (pipe_head x))
                 (piperead_copy k p addr (i + 1))))"

fun piperead_loop :: "nat \<Rightarrow> u32 \<Rightarrow> u32 \<Rightarrow> int \<Rightarrow> int kk" where
  "piperead_loop 0 p addr n = (\<lambda>s. NoFuel)"
| "piperead_loop (Suc k) p addr n =
     kbind (pipe_get p id) (\<lambda>x.
     if pi_nread x = pi_nwrite x \<and> pi_writeopen x then
       kbind curproc (\<lambda>c.
       kbind (proc_get c p_killed) (\<lambda>kd.
       if kd then kthen (release (L_pipe p)) (kret (-1))
       else kthen (sleep (ChanPipeRead p) (L_pipe p)) (piperead_loop k p addr n)))
     else
       kbind (piperead_copy (nat n) p addr 0) (\<lambda>i.
       kthen (wakeup (ChanPipeWrite p))
       (kthen (release (L_pipe p)) (kret i))))"

definition piperead :: "u32 \<Rightarrow> u32 \<Rightarrow> int \<Rightarrow> int kk" where
  "piperead p addr n =
     kthen (acquire (L_pipe p)) (kbind (kget fuel) (\<lambda>k. piperead_loop (Suc k) p addr n))"

section \<open>Closing, reading and writing files\<close>

definition fileclose :: "nat \<Rightarrow> unit kk" where
  "fileclose f =
     kthen (acquire L_ftable)
     (kbind (file_get f f_ref) (\<lambda>r.
      if r < 1 then kpanic ''fileclose'' else
      kthen (file_mod f (\<lambda>x. x\<lparr>f_ref := f_ref x - 1\<rparr>))
      (if r - 1 > 0 then release L_ftable else
       kbind (file_get f id) (\<lambda>ff.
       kthen (file_mod f (\<lambda>x. x\<lparr>f_ref := 0, f_type := FD_NONE\<rparr>))
       (kthen (release L_ftable)
       (case f_type ff of
          FD_PIPE \<Rightarrow> pipeclose (f_pipe ff) (f_writable ff)
        | FD_INODE \<Rightarrow> kthen begin_op (kthen (kbind (deref (f_ip ff)) iput) end_op)
        | FD_NONE \<Rightarrow> kret ()))))))"

text \<open>The result \<open>None\<close> of \<open>pipealloc\<close> is the return value -1.\<close>

definition pipealloc_bad :: "nat option \<Rightarrow> nat option \<Rightarrow> (nat \<times> nat) option kk" where
  "pipealloc_bad f0 f1 =
     kthen (case f0 of None \<Rightarrow> kret () | Some f \<Rightarrow> fileclose f)
     (kthen (case f1 of None \<Rightarrow> kret () | Some f \<Rightarrow> fileclose f)
            (kret None))"

definition pipealloc :: "(nat \<times> nat) option kk" where
  "pipealloc =
     kbind filealloc (\<lambda>r0. case r0 of None \<Rightarrow> pipealloc_bad None None | Some f0 \<Rightarrow>
     kbind filealloc (\<lambda>r1. case r1 of None \<Rightarrow> pipealloc_bad (Some f0) None | Some f1 \<Rightarrow>
     kbind kalloc (\<lambda>p.
     if p = 0 then pipealloc_bad (Some f0) (Some f1) else
     kthen (pipe_mod p (\<lambda>x. x\<lparr>pi_readopen := True, pi_writeopen := True, pi_nwrite := 0, pi_nread := 0\<rparr>))
     (kthen (file_mod f0 (\<lambda>x. x\<lparr>f_type := FD_PIPE, f_readable := True, f_writable := False, f_pipe := p\<rparr>))
     (kthen (file_mod f1 (\<lambda>x. x\<lparr>f_type := FD_PIPE, f_readable := False, f_writable := True, f_pipe := p\<rparr>))
            (kret (Some (f0, f1))))))))"

text \<open>\<open>filestat\<close> stores the fields of \<open>struct stat\<close> one by one at the caller's address.\<close>

definition half_bytes :: "u16 \<Rightarrow> u8 list" where
  "half_bytes v = map (put16 (\<lambda>_. 0) 0 v) [0 ..< 2]"

definition store_stat :: "u32 \<Rightarrow> stat \<Rightarrow> unit kk" where
  "store_stat a st =
     kthen (va_store32 (a + 4) (st_dev st))
     (kthen (va_store32 (a + 8) (st_ino st))
     (kthen (va_store a (half_bytes (st_type st)))
     (kthen (va_store (a + 12) (half_bytes (st_nlink st)))
            (va_store32 (a + 16) (st_size st)))))"

definition filestat :: "nat \<Rightarrow> u32 \<Rightarrow> int kk" where
  "filestat f a =
     kbind (file_get f id) (\<lambda>x.
     if f_type x = FD_INODE then
       kthen (ilock (f_ip x))
       (kbind (deref (f_ip x)) (\<lambda>i.
        kbind (stati i) (\<lambda>st.
        kthen (store_stat a st)
        (kthen (iunlock (f_ip x)) (kret 0)))))
     else kret (-1))"

definition fileread :: "nat \<Rightarrow> u32 \<Rightarrow> int \<Rightarrow> int kk" where
  "fileread f addr n =
     kbind (file_get f id) (\<lambda>x.
     if \<not> f_readable x then kret (-1) else
     case f_type x of
       FD_PIPE \<Rightarrow> piperead (f_pipe x) addr n
     | FD_INODE \<Rightarrow>
         kthen (ilock (f_ip x))
         (kbind (deref (f_ip x)) (\<lambda>i.
          kbind (file_get f f_off) (\<lambda>off.
          kbind (readi i (DstVA addr) off (of_int n)) (\<lambda>(r, _).
          kthen (kwhen (r > 0) (file_mod f (\<lambda>x. x\<lparr>f_off := f_off x + of_int r\<rparr>)))
          (kthen (iunlock (f_ip x)) (kret r))))))
     | FD_NONE \<Rightarrow> kpanic ''fileread'')"

definition filewrite_max :: int where
  "filewrite_max = ((MAXOPBLOCKS - 1 - 1 - 2) div 2) * 512"

fun filewrite_loop :: "nat \<Rightarrow> nat \<Rightarrow> nat option \<Rightarrow> u32 \<Rightarrow> int \<Rightarrow> int \<Rightarrow> int kk" where
  "filewrite_loop 0 f ip addr n i = (\<lambda>s. NoFuel)"
| "filewrite_loop (Suc k) f ip addr n i =
     (if i < n then
        let n1 = min (n - i) filewrite_max in
        kthen begin_op
        (kthen (ilock ip)
        (kbind (deref ip) (\<lambda>j.
         kbind (file_get f f_off) (\<lambda>off.
         kbind (writei j (SrcVA (addr + of_int i)) off (of_int n1)) (\<lambda>r.
         kthen (kwhen (r > 0) (file_mod f (\<lambda>x. x\<lparr>f_off := f_off x + of_int r\<rparr>)))
         (kthen (iunlock ip)
         (kthen end_op
         (if r < 0 then kret (if i = n then n else -1)
          else if r \<noteq> n1 then kpanic ''short filewrite''
          else filewrite_loop k f ip addr n (i + r)))))))))
      else kret (if i = n then n else -1))"

definition filewrite :: "nat \<Rightarrow> u32 \<Rightarrow> int \<Rightarrow> int kk" where
  "filewrite f addr n =
     kbind (file_get f id) (\<lambda>x.
     if \<not> f_writable x then kret (-1) else
     case f_type x of
       FD_PIPE \<Rightarrow> pipewrite (f_pipe x) addr n
     | FD_INODE \<Rightarrow> filewrite_loop (Suc (nat n)) f (f_ip x) addr n 0
     | FD_NONE \<Rightarrow> kpanic ''filewrite'')"

end
