(* ===== verification/Proc.thy ===== *)
theory Proc
  imports File
begin

unbundle bit_operations_syntax

text \<open>
  Creation and end of processes and threads (\<open>proc.c\<close>): \<open>allocproc\<close>, \<open>userinit\<close>, \<open>growproc\<close>,
  \<open>fork\<close>, \<open>clone\<close>, \<open>join\<close>, \<open>exit\<close>, \<open>wait\<close> and \<open>forkret\<close>.

  The trap frame and the saved context live on a process's kernel stack in the code; here they
  are the fields \<open>p_tf\<close> and \<open>p_context\<close> of the process. The return address that \<open>allocproc\<close>
  pushes is stored in the memory of the stack page.
\<close>

section \<open>Creating processes\<close>

text \<open>The increment of \<open>nextpid\<close>, whose signed overflow is undefined in C.\<close>

definition next_pid :: "unit kk" where
  "next_pid = kbind (kget nextpid) (\<lambda>n.
     if n < 2 ^ 31 - 1 then kmod (\<lambda>s. s\<lparr>nextpid := n + 1\<rparr>) else kpanic ''signed overflow'')"

text \<open>The kernel stack of a new process, with the return address and the context for its first run.\<close>

definition alloc_stack :: "nat \<Rightarrow> nat option kk" where
  "alloc_stack i =
     kbind kalloc (\<lambda>ks.
     kthen (proc_mod i (\<lambda>p. p\<lparr>p_kstack := ks\<rparr>))
     (if ks = 0 then kthen (proc_mod i (\<lambda>p. p\<lparr>p_state := UNUSED\<rparr>)) (kret None) else
      kbind (kget syms) (\<lambda>y.
      let sp = ks + KSTACKSIZE - 76 - 4 in
      kthen (store32 sp (sym_trapret y))
      (kthen (proc_mod i (\<lambda>p. p\<lparr>p_context := zero_kcontext\<lparr>ctx_eip := sym_forkret y\<rparr>\<rparr>))
             (kret (Some i))))))"

definition allocproc :: "nat option kk" where
  "allocproc =
     kthen (acquire L_ptable)
     (kbind (kget (\<lambda>s. first_index (\<lambda>p. p_state p = UNUSED) (ptable s))) (\<lambda>r.
      case r of
        None \<Rightarrow> kthen (release L_ptable) (kret None)
      | Some i \<Rightarrow>
          kbind (kget nextpid) (\<lambda>pid.
          kthen (proc_mod i (\<lambda>p. p\<lparr>p_isThread := False, p_state := EMBRYO, p_pid := pid\<rparr>))
          (kthen next_pid
          (kthen (release L_ptable)
                 (alloc_stack i))))))"

definition SEG_UCODE :: u16 where "SEG_UCODE = 3"
definition SEG_UDATA :: u16 where "SEG_UDATA = 4"
definition DPL_USER :: u16 where "DPL_USER = 3"
definition FL_IF :: u32 where "FL_IF = 0x200"

definition cstring :: "string \<Rightarrow> bytes" where
  "cstring xs = (\<lambda>i. if i < length xs then of_char (xs ! i) else 0)"

definition user_trapframe :: trapframe where
  "user_trapframe = zero_trapframe\<lparr>tf_cs := push_bit 3 SEG_UCODE OR DPL_USER,
     tf_ds := push_bit 3 SEG_UDATA OR DPL_USER, tf_es := push_bit 3 SEG_UDATA OR DPL_USER,
     tf_ss := push_bit 3 SEG_UDATA OR DPL_USER, tf_eflags := FL_IF, tf_esp := PGSIZE, tf_eip := 0\<rparr>"

definition userinit :: "unit kk" where
  "userinit =
     kbind allocproc (\<lambda>r.
     kbind (deref r) (\<lambda>i.
     kthen (proc_mod i (\<lambda>p. p\<lparr>p_tgid := p_pid p\<rparr>))
     (kthen (kmod (\<lambda>s. s\<lparr>initproc := Some i\<rparr>))
     (kbind setupkvm (\<lambda>d.
      kthen (proc_mod i (\<lambda>p. p\<lparr>p_pgdir := d\<rparr>))
      (if d = 0 then kpanic ''userinit: out of memory?'' else
       kbind (kget syms) (\<lambda>y.
       kthen (inituvm d (sym_initcode y) (sym_initcode_size y))
       (kthen (proc_mod i (\<lambda>p. p\<lparr>p_sz := PGSIZE, p_tf := user_trapframe,
                 p_name := safestrcpy (p_name p) (cstring ''initcode'') 16\<rparr>))
       (kbind (namei [slash]) (\<lambda>c.
        kthen (proc_mod i (\<lambda>p. p\<lparr>p_cwd := c\<rparr>))
        (kthen (acquire L_ptable)
        (kthen (proc_mod i (\<lambda>p. p\<lparr>p_state := RUNNABLE\<rparr>))
               (release L_ptable)))))))))))))"

definition growproc :: "int \<Rightarrow> int kk" where
  "growproc n =
     kbind curproc (\<lambda>c.
     kbind (proc_get c id) (\<lambda>cp.
     let sz = p_sz cp in
     kbind (if n > 0 then allocuvm (p_pgdir cp) sz (sz + of_int n)
            else if n < 0 then deallocuvm (p_pgdir cp) sz (sz + of_int n)
            else kret sz) (\<lambda>sz'.
     if n \<noteq> 0 \<and> sz' = 0 then kret (-1) else
     kthen (proc_mod c (\<lambda>p. p\<lparr>p_sz := sz'\<rparr>))
     (kthen (switchuvm (Some c)) (kret 0)))))"

text \<open>Copying the open files of \<open>fork\<close> and \<open>clone\<close>, each with a new reference.\<close>

definition dup_file :: "nat \<Rightarrow> nat \<Rightarrow> nat \<Rightarrow> unit kk" where
  "dup_file c np k =
     kbind (proc_get c (\<lambda>p. p_ofile p ! k)) (\<lambda>r.
     case r of
       None \<Rightarrow> kret ()
     | Some f \<Rightarrow> kbind (filedup f) (\<lambda>g. proc_mod np (\<lambda>p. p\<lparr>p_ofile := (p_ofile p)[k := Some g]\<rparr>)))"

definition dup_files :: "nat \<Rightarrow> nat \<Rightarrow> unit kk" where
  "dup_files c np = kfor [0 ..< NOFILE] (dup_file c np)"

text \<open>What \<open>fork\<close> and \<open>clone\<close> do when the address space cannot be copied.\<close>

definition undo_alloc :: "nat \<Rightarrow> int kk" where
  "undo_alloc np =
     kbind (proc_get np p_kstack) (\<lambda>ks.
     kthen (kfree ks)
     (kthen (proc_mod np (\<lambda>p. p\<lparr>p_kstack := 0, p_state := UNUSED\<rparr>))
            (kret (-1))))"

definition set_runnable :: "nat \<Rightarrow> unit kk" where
  "set_runnable np =
     kthen (acquire L_ptable)
     (kthen (proc_mod np (\<lambda>p. p\<lparr>p_state := RUNNABLE\<rparr>))
            (release L_ptable))"

definition fork :: "int kk" where
  "fork =
     kbind curproc (\<lambda>c.
     kbind allocproc (\<lambda>r. case r of None \<Rightarrow> kret (-1) | Some np \<Rightarrow>
     kbind (proc_get c id) (\<lambda>cp.
     kbind (copyuvm (p_pgdir cp) (p_sz cp)) (\<lambda>d.
     kthen (proc_mod np (\<lambda>p. p\<lparr>p_pgdir := d\<rparr>))
     (if d = 0 then undo_alloc np else
      kthen (proc_mod np (\<lambda>p. p\<lparr>p_tgid := p_pid p, p_isThread := False, p_sz := p_sz cp, p_parent := Some c,
               p_tf := (p_tf cp)\<lparr>tf_eax := 0\<rparr>\<rparr>))
      (kthen (dup_files c np)
      (kbind (deref (p_cwd cp)) (\<lambda>cw.
       kbind (idup cw) (\<lambda>cw.
       kthen (proc_mod np (\<lambda>p. p\<lparr>p_cwd := Some cw, p_name := safestrcpy (p_name p) (p_name cp) 16\<rparr>))
       (kbind (proc_get np p_pid) (\<lambda>pid.
        kthen (set_runnable np)
              (kret pid))))))))))))"

section \<open>Creating threads\<close>

text \<open>A flag of \<open>clone\<close>: bit \<open>k\<close> of the word.\<close>

definition flag :: "u32 \<Rightarrow> nat \<Rightarrow> bool" where
  "flag flags k \<longleftrightarrow> flags AND push_bit k 1 \<noteq> 0"

text \<open>The loops that record a process in every empty slot of a \<open>cwd_clone\<close> or \<open>ofile_clone\<close> table.\<close>

definition fill_slots :: "nat \<Rightarrow> pptr list \<Rightarrow> pptr list" where
  "fill_slots q xs = map (\<lambda>x. if x = None then Some q else x) xs"

definition clone_flags :: "u32 \<Rightarrow> proc \<Rightarrow> proc" where
  "clone_flags flags p = p\<lparr>p_CLONE_VM := flag flags 0, p_CLONE_FS := flag flags 1, p_CLONE_FILES := flag flags 2,
     p_CLONE_PARENT := flag flags 3, p_CLONE_THREAD := flag flags 4\<rparr>"

definition clone_fs :: "nat \<Rightarrow> nat \<Rightarrow> unit kk" where
  "clone_fs c np =
     kbind (proc_get np p_CLONE_FS) (\<lambda>fs.
     kbind (proc_get c p_cwd) (\<lambda>cw.
     if fs then
       kthen (proc_mod np (\<lambda>p. p\<lparr>p_cwd_clone := fill_slots c (p_cwd_clone p)\<rparr>))
       (kthen (proc_mod c (\<lambda>p. p\<lparr>p_cwd_clone := fill_slots np (p_cwd_clone p)\<rparr>))
              (proc_mod np (\<lambda>p. p\<lparr>p_cwd := cw\<rparr>)))
     else
       kbind (deref cw) (\<lambda>i. kbind (idup i) (\<lambda>i. proc_mod np (\<lambda>p. p\<lparr>p_cwd := Some i\<rparr>)))))"

definition share_files :: "nat option list \<Rightarrow> nat option list \<Rightarrow> nat option list" where
  "share_files src dst = map (\<lambda>k. case src ! k of Some f \<Rightarrow> Some f | None \<Rightarrow> dst ! k) [0 ..< length dst]"

definition clone_files :: "nat \<Rightarrow> nat \<Rightarrow> unit kk" where
  "clone_files c np =
     kbind (proc_get np p_CLONE_FILES) (\<lambda>fl.
     if fl then
       kthen (proc_mod np (\<lambda>p. p\<lparr>p_ofile_clone := fill_slots c (p_ofile_clone p)\<rparr>))
       (kthen (proc_mod c (\<lambda>p. p\<lparr>p_ofile_clone := fill_slots np (p_ofile_clone p)\<rparr>))
       (kbind (proc_get c p_ofile) (\<lambda>fs.
        proc_mod np (\<lambda>p. p\<lparr>p_ofile := share_files fs (p_ofile p)\<rparr>))))
     else dup_files c np)"

definition clone_parent :: "nat \<Rightarrow> nat \<Rightarrow> unit kk" where
  "clone_parent c np =
     kbind (proc_get c id) (\<lambda>cp.
     kbind (proc_get np p_CLONE_PARENT) (\<lambda>up.
     kbind (if \<not> p_isThread cp then kret (if up then p_parent cp else Some c)
            else if up then kbind (deref (p_parent cp)) (\<lambda>q. proc_get q p_parent)
            else kret (p_parent cp)) (\<lambda>par.
     proc_mod np (\<lambda>p. p\<lparr>p_parent := par\<rparr>))))"

text \<open>
  The last part of \<open>clone\<close>: the thread's own fields, its user stack with the argument and the
  return address, which the caller writes through its own page table, and its registers.
\<close>

definition clone_frame :: "nat \<Rightarrow> nat \<Rightarrow> proc \<Rightarrow> u32 \<Rightarrow> u32 \<Rightarrow> u32 \<Rightarrow> u32 \<Rightarrow> int kk" where
  "clone_frame c np cp f arg stack flags =
     kthen (proc_mod np (\<lambda>p. p\<lparr>p_tgid := (if flag flags 4 then p_tgid cp else p_pid cp),
                p_pthread := Some c, p_isThread := True, p_tstack := stack,
                p_tf := (p_tf cp)\<lparr>tf_eax := 0\<rparr>, p_sz := p_sz cp,
                p_name := safestrcpy (p_name p) (p_name cp) 16\<rparr>))
     (kbind (proc_get np p_pid) (\<lambda>pid.
      let us = stack + PGSIZE - 4 in
      kthen (va_store32 us arg)
      (kthen (va_store32 (us - 4) 0xffffffff)
      (kthen (proc_mod np (\<lambda>p. p\<lparr>p_tf := (p_tf p)\<lparr>tf_ebp := us - 4, tf_esp := us - 4, tf_eip := f\<rparr>\<rparr>))
      (kthen (set_runnable np)
             (kret pid))))))"

definition clone_setup :: "nat \<Rightarrow> nat \<Rightarrow> proc \<Rightarrow> u32 \<Rightarrow> u32 \<Rightarrow> u32 \<Rightarrow> u32 \<Rightarrow> int kk" where
  "clone_setup c np cp f arg stack flags =
     kthen (clone_fs c np)
     (kthen (clone_files c np)
     (kthen (clone_parent c np)
            (clone_frame c np cp f arg stack flags)))"

definition clone_into :: "nat \<Rightarrow> nat \<Rightarrow> u32 \<Rightarrow> u32 \<Rightarrow> u32 \<Rightarrow> u32 \<Rightarrow> int kk" where
  "clone_into c np f arg stack flags =
     kthen (proc_mod np (clone_flags flags))
     (kbind (proc_get c id) (\<lambda>cp.
      kbind (if flag flags 0 then kret (p_pgdir cp) else copyuvm (p_pgdir cp) (p_sz cp)) (\<lambda>d.
      kthen (proc_mod np (\<lambda>p. p\<lparr>p_pgdir := d\<rparr>))
      (if \<not> flag flags 0 \<and> d = 0 then undo_alloc np
       else clone_setup c np cp f arg stack flags))))"

definition clone :: "u32 \<Rightarrow> u32 \<Rightarrow> u32 \<Rightarrow> u32 \<Rightarrow> int kk" where
  "clone f arg stack flags =
     kbind curproc (\<lambda>c.
     kbind allocproc (\<lambda>r. case r of
       None \<Rightarrow> kret (-1)
     | Some np \<Rightarrow> clone_into c np f arg stack flags))"

section \<open>Waiting for threads and processes\<close>

definition set_byte0 :: "bytes \<Rightarrow> bytes" where
  "set_byte0 d = d(0 := 0)"

text \<open>
  One scan of the table by \<open>join\<close>. The outcome \<open>Some r\<close> is a return from \<open>join\<close>, the lock
  released; otherwise the flag says whether a matching thread was seen.
\<close>

fun join_scan :: "int \<Rightarrow> nat \<Rightarrow> nat list \<Rightarrow> bool \<Rightarrow> (int option \<times> bool) kk" where
  "join_scan pid c [] havekids = kret (None, havekids)"
| "join_scan pid c (i # is) havekids =
     kbind (proc_get i id) (\<lambda>p.
     kbind (proc_get c p_tgid) (\<lambda>tg.
     if p_pid p = pid then
       if p_parent p \<noteq> Some c \<or> \<not> p_isThread p \<or> p_tgid p \<noteq> tg
       then kthen (release L_ptable) (kret (Some (-1), havekids))
       else if p_state p = ZOMBIE then
         kthen (kfree (p_kstack p))
         (kthen (proc_mod i (\<lambda>q. q\<lparr>p_kstack := 0, p_pid := 0, p_tgid := 0, p_parent := None,
                   p_name := set_byte0 (p_name q), p_killed := False, p_pthread := None, p_state := UNUSED\<rparr>))
         (kthen (release L_ptable) (kret (Some pid, True))))
       else join_scan pid c is True
     else join_scan pid c is havekids))"

fun join_loop :: "nat \<Rightarrow> int \<Rightarrow> nat \<Rightarrow> int kk" where
  "join_loop 0 pid c = (\<lambda>s. NoFuel)"
| "join_loop (Suc k) pid c =
     kbind (kget (\<lambda>s. length (ptable s))) (\<lambda>np.
     kbind (join_scan pid c [0 ..< np] False) (\<lambda>(r, havekids).
     case r of
       Some v \<Rightarrow> kret v
     | None \<Rightarrow>
         kbind (proc_get c p_killed) (\<lambda>kd.
         if \<not> havekids \<or> kd then kthen (release L_ptable) (kret (-1))
         else kthen (sleep (ChanProc c) L_ptable) (join_loop k pid c))))"

definition join :: "int \<Rightarrow> int kk" where
  "join pid =
     kbind curproc (\<lambda>c.
     kthen (acquire L_ptable)
     (kbind (kget fuel) (\<lambda>k. join_loop (Suc k) pid c)))"

fun wait_scan :: "nat \<Rightarrow> nat list \<Rightarrow> bool \<Rightarrow> (int option \<times> bool) kk" where
  "wait_scan c [] havekids = kret (None, havekids)"
| "wait_scan c (i # is) havekids =
     kbind (proc_get i id) (\<lambda>p.
     kbind (proc_get c id) (\<lambda>cp.
     if p_parent p \<noteq> Some c \<or> p_isThread p then wait_scan c is havekids else
     kbind (deref (p_parent p)) (\<lambda>par.
     kbind (proc_get par p_tgid) (\<lambda>tg.
     if p_isThread cp \<and> tg \<noteq> p_tgid cp then wait_scan c is havekids
     else if p_state p = ZOMBIE then
       kthen (kfree (p_kstack p))
       (kthen (proc_mod i (\<lambda>q. q\<lparr>p_kstack := 0\<rparr>))
       (kthen (freevm (p_pgdir p))
       (kthen (proc_mod i (\<lambda>q. q\<lparr>p_pid := 0, p_parent := None, p_name := set_byte0 (p_name q), p_tgid := 0,
                 p_killed := False, p_state := UNUSED\<rparr>))
       (kthen (release L_ptable) (kret (Some (p_pid p), True))))))
     else wait_scan c is True))))"

fun wait_loop :: "nat \<Rightarrow> nat \<Rightarrow> int kk" where
  "wait_loop 0 c = (\<lambda>s. NoFuel)"
| "wait_loop (Suc k) c =
     kbind (kget (\<lambda>s. length (ptable s))) (\<lambda>np.
     kbind (wait_scan c [0 ..< np] False) (\<lambda>(r, havekids).
     case r of
       Some v \<Rightarrow> kret v
     | None \<Rightarrow>
         kbind (proc_get c p_killed) (\<lambda>kd.
         if \<not> havekids \<or> kd then kthen (release L_ptable) (kret (-1))
         else kthen (sleep (ChanProc c) L_ptable) (wait_loop k c))))"

definition wait :: "int kk" where
  "wait =
     kbind curproc (\<lambda>c.
     kthen (acquire L_ptable)
     (kbind (kget fuel) (\<lambda>k. wait_loop (Suc k) c)))"

section \<open>Exit\<close>

text \<open>
  Taking the exiting process out of the sharing tables of its peers: for every slot of its own
  table, the first slot of the peer's table that holds it is cleared.
\<close>

definition clear_first :: "nat \<Rightarrow> pptr list \<Rightarrow> pptr list" where
  "clear_first c xs = (case first_index (\<lambda>x. x = Some c) xs of None \<Rightarrow> xs | Some j \<Rightarrow> xs[j := None])"

definition exit_ofile_clone :: "nat \<Rightarrow> unit kk" where
  "exit_ofile_clone c =
     kfor [0 ..< NPROC] (\<lambda>k.
       kbind (proc_get c (\<lambda>p. p_ofile_clone p ! k)) (\<lambda>r.
       case r of
         None \<Rightarrow> kret ()
       | Some q \<Rightarrow>
           kthen (proc_mod q (\<lambda>p. p\<lparr>p_ofile_clone := clear_first c (p_ofile_clone p)\<rparr>))
                 (proc_mod c (\<lambda>p. p\<lparr>p_ofile_clone := (p_ofile_clone p)[k := None]\<rparr>))))"

definition exit_cwd_clone :: "nat \<Rightarrow> unit kk" where
  "exit_cwd_clone c =
     kfor [0 ..< NPROC] (\<lambda>k.
       kbind (proc_get c (\<lambda>p. p_cwd_clone p ! k)) (\<lambda>r.
       case r of
         None \<Rightarrow> kret ()
       | Some q \<Rightarrow>
           kthen (proc_mod q (\<lambda>p. p\<lparr>p_cwd_clone := clear_first c (p_cwd_clone p)\<rparr>))
                 (proc_mod c (\<lambda>p. p\<lparr>p_cwd_clone := (p_cwd_clone p)[k := None]\<rparr>))))"

definition exit_files :: "nat \<Rightarrow> unit kk" where
  "exit_files c =
     kbind (proc_get c p_CLONE_FILES) (\<lambda>shared.
     kfor [0 ..< NOFILE] (\<lambda>k.
       kbind (proc_get c (\<lambda>p. p_ofile p ! k)) (\<lambda>r.
       case r of
         None \<Rightarrow> kret ()
       | Some f \<Rightarrow>
           kthen (kwhen (\<not> shared) (fileclose f))
                 (proc_mod c (\<lambda>p. p\<lparr>p_ofile := (p_ofile p)[k := None]\<rparr>)))))"

definition exit_cwd :: "nat \<Rightarrow> unit kk" where
  "exit_cwd c =
     kbind (proc_get c id) (\<lambda>cp.
     kthen (kwhen (\<not> p_CLONE_FS cp)
              (kthen begin_op (kthen (kbind (deref (p_cwd cp)) iput) end_op)))
           (proc_mod c (\<lambda>p. p\<lparr>p_cwd := None\<rparr>)))"

definition reparent_one :: "nat \<Rightarrow> nat \<Rightarrow> unit kk" where
  "reparent_one c i =
     kbind (proc_get i id) (\<lambda>p.
     kwhen (p_parent p = Some c)
       (kbind (kget initproc) (\<lambda>ip.
        kthen (proc_mod i (\<lambda>q. q\<lparr>p_parent := ip\<rparr>))
              (kwhen (p_state p = ZOMBIE) (wakeup1 (chan_of_proc ip))))))"

definition reparent :: "nat \<Rightarrow> unit kk" where
  "reparent c = kbind (kget (\<lambda>s. length (ptable s))) (\<lambda>np. kfor [0 ..< np] (reparent_one c))"

definition exit :: "unit kk" where
  "exit =
     kbind curproc (\<lambda>c.
     kbind (kget initproc) (\<lambda>ip.
     if Some c = ip then kpanic ''init exiting'' else
     kthen (exit_ofile_clone c)
     (kthen (exit_cwd_clone c)
     (kthen (exit_files c)
     (kthen (exit_cwd c)
     (kthen (acquire L_ptable)
     (kbind (proc_get c id) (\<lambda>cp.
      kthen (wakeup1 (chan_of_proc (if p_isThread cp then p_pthread cp else p_parent cp)))
      (kthen (reparent c)
      (kthen (proc_mod c (\<lambda>p. p\<lparr>p_state := ZOMBIE\<rparr>))
      (kthen sched
             (kpanic ''zombie exit''))))))))))))"

section \<open>The first run of a process\<close>

definition forkret :: "unit kk" where
  "forkret =
     kthen (release L_ptable)
     (kbind (kget fork_first) (\<lambda>first.
      kwhen first
        (kthen (kmod (\<lambda>s. s\<lparr>fork_first := False\<rparr>))
        (kthen (iinit ROOTDEV)
               (initlog ROOTDEV)))))"

end
