(* ===== verification/Sysfile.thy ===== *)
theory Sysfile
  imports Proc
begin

unbundle bit_operations_syntax

text \<open>
  Fetching system-call arguments (the first half of \<open>syscall.c\<close>) and the file-system calls
  (\<open>sysfile.c\<close>), with the propagation of descriptors and directories between threads that share
  them. A C function that returns -1 for failure and stores its result through a pointer returns
  an option here.
\<close>

section \<open>Arguments\<close>

definition fetchint :: "u32 \<Rightarrow> u32 option kk" where
  "fetchint addr =
     kbind curproc (\<lambda>c.
     kbind (proc_get c p_sz) (\<lambda>sz.
     if addr \<ge> sz \<or> addr + 4 > sz then kret None
     else kbind (va_load32 addr) (\<lambda>v. kret (Some v))))"

text \<open>The loop of \<open>fetchstr\<close> over the addresses below \<open>ep\<close>; the result is the string's bytes.\<close>

fun fetchstr_from :: "nat \<Rightarrow> u32 \<Rightarrow> u8 list option kk" where
  "fetchstr_from 0 s = kret None"
| "fetchstr_from (Suc n) s =
     kbind (va_load8 s) (\<lambda>b.
     if b = 0 then kret (Some [])
     else kbind (fetchstr_from n (s + 1)) (\<lambda>r. kret (map_option ((#) b) r)))"

definition fetchstr :: "u32 \<Rightarrow> u8 list option kk" where
  "fetchstr addr =
     kbind curproc (\<lambda>c.
     kbind (proc_get c p_sz) (\<lambda>sz.
     if addr \<ge> sz then kret None
     else fetchstr_from (unat sz - unat addr) addr))"

definition argint :: "nat \<Rightarrow> u32 option kk" where
  "argint n = kbind curproc (\<lambda>c. kbind (proc_get c p_tf) (\<lambda>tf. fetchint (tf_esp tf + 4 + 4 * of_nat n)))"

definition argptr :: "nat \<Rightarrow> int \<Rightarrow> u32 option kk" where
  "argptr n sz =
     kbind curproc (\<lambda>c.
     kbind (argint n) (\<lambda>r. case r of None \<Rightarrow> kret None | Some i \<Rightarrow>
     kbind (proc_get c p_sz) (\<lambda>psz.
     if sz < 0 \<or> i \<ge> psz \<or> i + of_int sz > psz then kret None else kret (Some i))))"

definition argstr :: "nat \<Rightarrow> u8 list option kk" where
  "argstr n = kbind (argint n) (\<lambda>r. case r of None \<Rightarrow> kret None | Some a \<Rightarrow> fetchstr a)"

section \<open>Sharing between threads\<close>

text \<open>
  The three recursive propagations. The first argument bounds the depth of the recursion; theory
  \<open>Sharing\<close> shows that the number of processes plus one is enough.
\<close>

fun open_ofile_clone :: "nat \<Rightarrow> nat \<Rightarrow> nat \<Rightarrow> nat \<Rightarrow> unit kk"
  and open_ofile_loop :: "nat \<Rightarrow> nat \<Rightarrow> nat \<Rightarrow> nat \<Rightarrow> nat list \<Rightarrow> unit kk" where
  "open_ofile_clone 0 c f fd = (\<lambda>s. NoFuel)"
| "open_ofile_clone (Suc n) c f fd = open_ofile_loop n c f fd [0 ..< NPROC]"
| "open_ofile_loop n c f fd [] = kret ()"
| "open_ofile_loop n c f fd (i # is) =
     kbind (proc_get c (\<lambda>p. p_ofile_clone p ! i)) (\<lambda>r.
     case r of
       None \<Rightarrow> open_ofile_loop n c f fd is
     | Some q \<Rightarrow>
         if q = c then open_ofile_loop n c f fd is else
         kbind (proc_get q (\<lambda>p. p_ofile p ! fd)) (\<lambda>g.
         if g = Some f then kret () else
         kthen (proc_mod q (\<lambda>p. p\<lparr>p_ofile := (p_ofile p)[fd := Some f]\<rparr>))
         (kthen (open_ofile_clone n q f fd)
                (open_ofile_loop n c f fd is))))"

fun close_ofile_clone :: "nat \<Rightarrow> nat \<Rightarrow> nat \<Rightarrow> unit kk"
  and close_ofile_loop :: "nat \<Rightarrow> nat \<Rightarrow> nat \<Rightarrow> nat list \<Rightarrow> unit kk" where
  "close_ofile_clone 0 c fd = (\<lambda>s. NoFuel)"
| "close_ofile_clone (Suc n) c fd = close_ofile_loop n c fd [0 ..< NPROC]"
| "close_ofile_loop n c fd [] = kret ()"
| "close_ofile_loop n c fd (i # is) =
     kbind (proc_get c (\<lambda>p. p_ofile_clone p ! i)) (\<lambda>r.
     case r of
       None \<Rightarrow> close_ofile_loop n c fd is
     | Some q \<Rightarrow>
         if q = c then close_ofile_loop n c fd is else
         kbind (proc_get q (\<lambda>p. p_ofile p ! fd)) (\<lambda>g.
         if g = None then kret () else
         kthen (proc_mod q (\<lambda>p. p\<lparr>p_ofile := (p_ofile p)[fd := None]\<rparr>))
         (kthen (close_ofile_clone n q fd)
                (close_ofile_loop n c fd is))))"

fun pwd_clone :: "nat \<Rightarrow> nat \<Rightarrow> nat \<Rightarrow> unit kk"
  and pwd_loop :: "nat \<Rightarrow> nat \<Rightarrow> nat \<Rightarrow> nat list \<Rightarrow> unit kk" where
  "pwd_clone 0 c ip = (\<lambda>s. NoFuel)"
| "pwd_clone (Suc n) c ip = pwd_loop n c ip [0 ..< NPROC]"
| "pwd_loop n c ip [] = kret ()"
| "pwd_loop n c ip (i # is) =
     kbind (proc_get c (\<lambda>p. p_cwd_clone p ! i)) (\<lambda>r.
     case r of
       None \<Rightarrow> pwd_loop n c ip is
     | Some q \<Rightarrow>
         if q = c then pwd_loop n c ip is else
         kbind (proc_get q p_cwd) (\<lambda>g.
         if g = Some ip then kret () else
         kthen (proc_mod q (\<lambda>p. p\<lparr>p_cwd := Some ip\<rparr>))
         (kthen (pwd_clone n q ip)
                (pwd_loop n c ip is))))"

section \<open>Descriptors\<close>

definition argfd :: "nat \<Rightarrow> (nat \<times> nat) option kk" where
  "argfd n =
     kbind (argint n) (\<lambda>r. case r of None \<Rightarrow> kret None | Some v \<Rightarrow>
     if sint v < 0 \<or> sint v \<ge> int NOFILE then kret None else
     kbind curproc (\<lambda>c.
     kbind (proc_get c (\<lambda>p. p_ofile p ! unat v)) (\<lambda>r.
     case r of None \<Rightarrow> kret None | Some f \<Rightarrow> kret (Some (unat v, f)))))"

definition fdalloc :: "nat \<Rightarrow> int kk" where
  "fdalloc f =
     kbind curproc (\<lambda>c.
     kbind (proc_get c (\<lambda>p. first_index (\<lambda>x. x = None) (p_ofile p))) (\<lambda>r.
     case r of
       None \<Rightarrow> kret (-1)
     | Some fd \<Rightarrow>
         kthen (proc_mod c (\<lambda>p. p\<lparr>p_ofile := (p_ofile p)[fd := Some f]\<rparr>))
         (kthen (open_ofile_clone (NPROC + 1) c f fd)
                (kret (int fd)))))"

definition sys_dup :: "int kk" where
  "sys_dup =
     kbind (argfd 0) (\<lambda>r. case r of None \<Rightarrow> kret (-1) | Some (_, f) \<Rightarrow>
     kbind (fdalloc f) (\<lambda>fd.
     if fd < 0 then kret (-1) else
     kthen (filedup f) (kret fd)))"

text \<open>The arguments of \<open>read\<close> and \<open>write\<close>: file, buffer and length, fetched in the order 0, 2, 1.\<close>

definition rw_args :: "(nat \<times> u32 \<times> int) option kk" where
  "rw_args =
     kbind (argfd 0) (\<lambda>r. case r of None \<Rightarrow> kret None | Some (_, f) \<Rightarrow>
     kbind (argint 2) (\<lambda>r. case r of None \<Rightarrow> kret None | Some n \<Rightarrow>
     kbind (argptr 1 (sint n)) (\<lambda>r. case r of None \<Rightarrow> kret None | Some p \<Rightarrow>
     kret (Some (f, p, sint n)))))"

definition sys_read :: "int kk" where
  "sys_read = kbind rw_args (\<lambda>r. case r of None \<Rightarrow> kret (-1) | Some (f, p, n) \<Rightarrow> fileread f p n)"

definition sys_write :: "int kk" where
  "sys_write = kbind rw_args (\<lambda>r. case r of None \<Rightarrow> kret (-1) | Some (f, p, n) \<Rightarrow> filewrite f p n)"

definition sys_close :: "int kk" where
  "sys_close =
     kbind (argfd 0) (\<lambda>r. case r of None \<Rightarrow> kret (-1) | Some (fd, f) \<Rightarrow>
     kbind curproc (\<lambda>c.
     kthen (proc_mod c (\<lambda>p. p\<lparr>p_ofile := (p_ofile p)[fd := None]\<rparr>))
     (kthen (fileclose f)
     (kbind curproc (\<lambda>c.
      kthen (close_ofile_clone (NPROC + 1) c fd)
            (kret 0))))))"

definition sys_fstat :: "int kk" where
  "sys_fstat =
     kbind (argfd 0) (\<lambda>r. case r of None \<Rightarrow> kret (-1) | Some (_, f) \<Rightarrow>
     kbind (argptr 1 20) (\<lambda>r. case r of None \<Rightarrow> kret (-1) | Some st \<Rightarrow> filestat f st))"

section \<open>Links and directories\<close>

definition end_op_fail :: "int kk" where
  "end_op_fail = kthen end_op (kret (-1))"

definition add_nlink :: "nat \<Rightarrow> u16 \<Rightarrow> unit kk" where
  "add_nlink i d = kthen (inode_mod i (\<lambda>ip. ip\<lparr>i_nlink := i_nlink ip + d\<rparr>)) (iupdate i)"

definition sys_link_bad :: "nat \<Rightarrow> int kk" where
  "sys_link_bad ip =
     kthen (ilock (Some ip)) (kthen (add_nlink ip (-1)) (kthen (iunlockput ip) end_op_fail))"

definition sys_link :: "int kk" where
  "sys_link =
     kbind (argstr 0) (\<lambda>r. case r of None \<Rightarrow> kret (-1) | Some old \<Rightarrow>
     kbind (argstr 1) (\<lambda>r. case r of None \<Rightarrow> kret (-1) | Some new \<Rightarrow>
     kthen begin_op
     (kbind (namei old) (\<lambda>r. case r of None \<Rightarrow> end_op_fail | Some ip \<Rightarrow>
      kthen (ilock (Some ip))
      (kbind (inode_get ip i_type) (\<lambda>ty.
       if ty = T_DIR then kthen (iunlockput ip) end_op_fail else
       kthen (add_nlink ip 1)
       (kthen (iunlock (Some ip))
       (kbind (nameiparent new) (\<lambda>r. case r of None \<Rightarrow> sys_link_bad ip | Some (dp, name) \<Rightarrow>
        kthen (ilock (Some dp))
        (kbind (inode_get dp i_dev) (\<lambda>ddev.
         kbind (inode_get ip id) (\<lambda>v.
         kbind (if ddev \<noteq> i_dev v then kret (-1) else dirlink dp name (i_inum v)) (\<lambda>r.
         if r < 0 then kthen (iunlockput dp) (sys_link_bad ip) else
         kthen (iunlockput dp)
         (kthen (iput ip)
         (kthen end_op (kret 0))))))))))))))))"

fun isdirempty_loop :: "nat \<Rightarrow> nat \<Rightarrow> u32 \<Rightarrow> bool kk" where
  "isdirempty_loop 0 i off = (\<lambda>s. NoFuel)"
| "isdirempty_loop (Suc k) i off =
     kbind (inode_get i i_size) (\<lambda>sz.
     if off < sz then
       kbind (readi i DstLocal off 16) (\<lambda>(r, bs).
       if r \<noteq> 16 then kpanic ''isdirempty: readi''
       else if de_inum (dirent_of_list bs) \<noteq> 0 then kret False
       else isdirempty_loop k i (off + 16))
     else kret True)"

definition isdirempty :: "nat \<Rightarrow> bool kk" where
  "isdirempty i = kbind (inode_get i i_size) (\<lambda>sz. isdirempty_loop (unat sz div 16 + 2) i 32)"

definition sys_unlink_bad :: "nat \<Rightarrow> int kk" where
  "sys_unlink_bad dp = kthen (iunlockput dp) end_op_fail"

definition sys_unlink :: "int kk" where
  "sys_unlink =
     kbind (argstr 0) (\<lambda>r. case r of None \<Rightarrow> kret (-1) | Some path \<Rightarrow>
     kthen begin_op
     (kbind (nameiparent path) (\<lambda>r. case r of None \<Rightarrow> end_op_fail | Some (dp, name) \<Rightarrow>
      kthen (ilock (Some dp))
      (if namecmp name (cstring ''.'') = 0 \<or> namecmp name (cstring ''..'') = 0 then sys_unlink_bad dp else
       kbind (dirlookup dp name) (\<lambda>r. case r of None \<Rightarrow> sys_unlink_bad dp | Some (ip, off) \<Rightarrow>
       kthen (ilock (Some ip))
       (kbind (inode_get ip id) (\<lambda>v.
        if sint (i_nlink v) < 1 then kpanic ''unlink: nlink < 1'' else
        kbind (if i_type v = T_DIR then isdirempty ip else kret True) (\<lambda>ok.
        if \<not> ok then kthen (iunlockput ip) (sys_unlink_bad dp) else
        kbind (writei dp (SrcBytes (replicate 16 0)) off 16) (\<lambda>r.
        if r \<noteq> 16 then kpanic ''unlink: writei'' else
        kthen (kwhen (i_type v = T_DIR) (add_nlink dp (-1)))
        (kthen (iunlockput dp)
        (kthen (add_nlink ip (-1))
        (kthen (iunlockput ip)
        (kthen end_op (kret 0))))))))))))))"

definition create :: "u8 list \<Rightarrow> u16 \<Rightarrow> u16 \<Rightarrow> u16 \<Rightarrow> nat option kk" where
  "create path type major minor =
     kbind (nameiparent path) (\<lambda>r. case r of None \<Rightarrow> kret None | Some (dp, name) \<Rightarrow>
     kthen (ilock (Some dp))
     (kbind (dirlookup dp name) (\<lambda>r. case r of
        Some (ip, _) \<Rightarrow>
          kthen (iunlockput dp)
          (kthen (ilock (Some ip))
          (kbind (inode_get ip i_type) (\<lambda>ty.
           if type = T_FILE \<and> ty = T_FILE then kret (Some ip)
           else kthen (iunlockput ip) (kret None))))
      | None \<Rightarrow>
          kbind (inode_get dp id) (\<lambda>dv.
          kbind (ialloc (i_dev dv) type) (\<lambda>ip.
          kthen (ilock (Some ip))
          (kthen (inode_mod ip (\<lambda>v. v\<lparr>i_major := major, i_minor := minor, i_nlink := 1\<rparr>))
          (kthen (iupdate ip)
          (kbind (inode_get ip i_inum) (\<lambda>inum.
           kthen (kwhen (type = T_DIR)
             (kthen (add_nlink dp 1)
             (kbind (dirlink ip (cstring ''.'') inum) (\<lambda>r1.
              kbind (if r1 < 0 then kret (-1) else dirlink ip (cstring ''..'') (i_inum dv)) (\<lambda>r2.
              if r2 < 0 then kpanic ''create dots'' else kret ())))))
           (kbind (dirlink dp name inum) (\<lambda>r.
            if r < 0 then kpanic ''create: dirlink'' else
            kthen (iunlockput dp) (kret (Some ip)))))))))))))"

section \<open>Opening\<close>

definition O_RDONLY :: u32 where "O_RDONLY = 0x000"
definition O_WRONLY :: u32 where "O_WRONLY = 0x001"
definition O_RDWR :: u32 where "O_RDWR = 0x002"
definition O_CREATE :: u32 where "O_CREATE = 0x200"

definition sys_open_finish :: "nat \<Rightarrow> u32 \<Rightarrow> int kk" where
  "sys_open_finish ip omode =
     kbind filealloc (\<lambda>r.
     kbind (case r of None \<Rightarrow> kret (-1) | Some f \<Rightarrow> fdalloc f) (\<lambda>fd.
     case r of
       None \<Rightarrow> kthen (iunlockput ip) end_op_fail
     | Some f \<Rightarrow>
         if fd < 0 then kthen (fileclose f) (kthen (iunlockput ip) end_op_fail) else
         kthen (iunlock (Some ip))
         (kthen end_op
         (kthen (file_mod f (\<lambda>x. x\<lparr>f_type := FD_INODE, f_ip := Some ip, f_off := 0,
                   f_readable := (omode AND O_WRONLY = 0),
                   f_writable := (omode AND O_WRONLY \<noteq> 0 \<or> omode AND O_RDWR \<noteq> 0)\<rparr>))
                (kret fd)))))"

definition sys_open :: "int kk" where
  "sys_open =
     kbind (argstr 0) (\<lambda>r. case r of None \<Rightarrow> kret (-1) | Some path \<Rightarrow>
     kbind (argint 1) (\<lambda>r. case r of None \<Rightarrow> kret (-1) | Some omode \<Rightarrow>
     kthen begin_op
     (if omode AND O_CREATE \<noteq> 0 then
        kbind (create path T_FILE 0 0) (\<lambda>r. case r of None \<Rightarrow> end_op_fail | Some ip \<Rightarrow> sys_open_finish ip omode)
      else
        kbind (namei path) (\<lambda>r. case r of None \<Rightarrow> end_op_fail | Some ip \<Rightarrow>
        kthen (ilock (Some ip))
        (kbind (inode_get ip i_type) (\<lambda>ty.
         if ty = T_DIR \<and> omode \<noteq> O_RDONLY then kthen (iunlockput ip) end_op_fail
         else sys_open_finish ip omode))))))"

definition sys_mkdir :: "int kk" where
  "sys_mkdir =
     kthen begin_op
     (kbind (argstr 0) (\<lambda>r. case r of None \<Rightarrow> end_op_fail | Some path \<Rightarrow>
      kbind (create path T_DIR 0 0) (\<lambda>r. case r of None \<Rightarrow> end_op_fail | Some ip \<Rightarrow>
      kthen (iunlockput ip) (kthen end_op (kret 0)))))"

definition sys_mknod :: "int kk" where
  "sys_mknod =
     kthen begin_op
     (kbind (argstr 0) (\<lambda>r. case r of None \<Rightarrow> end_op_fail | Some path \<Rightarrow>
      kbind (argint 1) (\<lambda>r. case r of None \<Rightarrow> end_op_fail | Some major \<Rightarrow>
      kbind (argint 2) (\<lambda>r. case r of None \<Rightarrow> end_op_fail | Some minor \<Rightarrow>
      kbind (create path T_DEV (ucast major) (ucast minor)) (\<lambda>r. case r of None \<Rightarrow> end_op_fail | Some ip \<Rightarrow>
      kthen (iunlockput ip) (kthen end_op (kret 0)))))))"

definition sys_chdir :: "int kk" where
  "sys_chdir =
     kbind curproc (\<lambda>c.
     kthen begin_op
     (kbind (argstr 0) (\<lambda>r. case r of None \<Rightarrow> end_op_fail | Some path \<Rightarrow>
      kbind (namei path) (\<lambda>r. case r of None \<Rightarrow> end_op_fail | Some ip \<Rightarrow>
      kthen (ilock (Some ip))
      (kbind (inode_get ip i_type) (\<lambda>ty.
       if ty \<noteq> T_DIR then kthen (iunlockput ip) end_op_fail else
       kthen (iunlock (Some ip))
       (kbind (proc_get c p_cwd) (\<lambda>cw.
        kthen (kbind (deref cw) iput)
        (kthen end_op
        (kbind (proc_get c p_cwd) (\<lambda>cw.
         kthen (kwhen (cw \<noteq> Some ip) (pwd_clone (NPROC + 1) c ip))
         (kthen (proc_mod c (\<lambda>p. p\<lparr>p_cwd := Some ip\<rparr>))
                (kret 0)))))))))))))"

definition sys_pipe :: "int kk" where
  "sys_pipe =
     kbind (argptr 0 8) (\<lambda>r. case r of None \<Rightarrow> kret (-1) | Some fdp \<Rightarrow>
     kbind pipealloc (\<lambda>r. case r of None \<Rightarrow> kret (-1) | Some (rf, wfl) \<Rightarrow>
     kbind (fdalloc rf) (\<lambda>fd0.
     kbind (if fd0 < 0 then kret (-1) else fdalloc wfl) (\<lambda>fd1.
     if fd0 < 0 \<or> fd1 < 0 then
       kbind curproc (\<lambda>c.
       kthen (kwhen (fd0 \<ge> 0) (proc_mod c (\<lambda>p. p\<lparr>p_ofile := (p_ofile p)[nat fd0 := None]\<rparr>)))
       (kthen (fileclose rf)
       (kthen (fileclose wfl) (kret (-1)))))
     else
       kthen (va_store32 fdp (of_int fd0))
       (kthen (va_store32 (fdp + 4) (of_int fd1)) (kret 0))))))"

end
