(* ===== verification/Exec.thy ===== *)
theory Exec
  imports Sysfile
begin

unbundle bit_operations_syntax

text \<open>
  Loading a program (\<open>exec.c\<close> and \<open>loaduvm\<close> of \<open>vm.c\<close>). The argument strings are lists of bytes
  without their terminator.
\<close>

section \<open>The executable format (\<open>elf.h\<close>)\<close>

definition ELF_MAGIC :: u32 where "ELF_MAGIC = 0x464C457F"
definition ELF_PROG_LOAD :: u32 where "ELF_PROG_LOAD = 1"

record elfhdr =
  e_magic :: u32
  e_entry :: u32
  e_phoff :: u32
  e_phnum :: u16

record proghdr =
  ph_type :: u32
  ph_off :: u32
  ph_vaddr :: u32
  ph_filesz :: u32
  ph_memsz :: u32

definition elfhdr_of_list :: "u8 list \<Rightarrow> elfhdr" where
  "elfhdr_of_list bs = (let d = (\<lambda>i. bs ! i) in
     \<lparr>e_magic = get32 d 0, e_entry = get32 d 24, e_phoff = get32 d 28, e_phnum = get16 d 44\<rparr>)"

definition proghdr_of_list :: "u8 list \<Rightarrow> proghdr" where
  "proghdr_of_list bs = (let d = (\<lambda>i. bs ! i) in
     \<lparr>ph_type = get32 d 0, ph_off = get32 d 4, ph_vaddr = get32 d 8, ph_filesz = get32 d 16, ph_memsz = get32 d 20\<rparr>)"

section \<open>Loading\<close>

fun loaduvm_loop :: "nat \<Rightarrow> u32 \<Rightarrow> u32 \<Rightarrow> nat \<Rightarrow> u32 \<Rightarrow> u32 \<Rightarrow> u32 \<Rightarrow> int kk" where
  "loaduvm_loop 0 pgdir addr ip off sz i = (\<lambda>s. NoFuel)"
| "loaduvm_loop (Suc k) pgdir addr ip off sz i =
     (if i < sz then
        kbind (walkpgdir pgdir (addr + i) False) (\<lambda>pte.
        if pte = 0 then kpanic ''loaduvm: address should exist'' else
        kbind (load32 pte) (\<lambda>e.
        let pa = PTE_ADDR e; n = (if sz - i < PGSIZE then sz - i else PGSIZE) in
        kbind (readi ip (DstKA (P2V pa)) (off + i) n) (\<lambda>(r, _).
        if r \<noteq> sint n then kret (-1)
        else loaduvm_loop k pgdir addr ip off sz (i + PGSIZE))))
      else kret 0)"

definition loaduvm :: "u32 \<Rightarrow> u32 \<Rightarrow> nat \<Rightarrow> u32 \<Rightarrow> u32 \<Rightarrow> int kk" where
  "loaduvm pgdir addr ip off sz =
     (if addr mod PGSIZE \<noteq> 0 then kpanic ''loaduvm: addr must be page aligned''
      else loaduvm_loop (unat sz div 4096 + 2) pgdir addr ip off sz 0)"

text \<open>The label \<open>bad\<close> of \<open>exec\<close>.\<close>

definition exec_bad :: "u32 \<Rightarrow> nat option \<Rightarrow> int kk" where
  "exec_bad pgdir ip =
     kthen (kwhen (pgdir \<noteq> 0) (freevm pgdir))
     (case ip of None \<Rightarrow> kret (-1) | Some i \<Rightarrow> kthen (iunlockput i) end_op_fail)"

text \<open>The loop over the program headers; \<open>None\<close> is a jump to \<open>bad\<close>.\<close>

fun exec_load :: "nat \<Rightarrow> u32 \<Rightarrow> nat \<Rightarrow> u32 \<Rightarrow> u32 \<Rightarrow> u32 option kk" where
  "exec_load 0 pgdir ip off sz = kret (Some sz)"
| "exec_load (Suc k) pgdir ip off sz =
     kbind (readi ip DstLocal off 32) (\<lambda>(r, bs).
     if r \<noteq> 32 then kret None else
     let ph = proghdr_of_list bs in
     if ph_type ph \<noteq> ELF_PROG_LOAD then exec_load k pgdir ip (off + 32) sz
     else if ph_memsz ph < ph_filesz ph then kret None
     else if ph_vaddr ph + ph_memsz ph < ph_vaddr ph then kret None
     else
       kbind (allocuvm pgdir sz (ph_vaddr ph + ph_memsz ph)) (\<lambda>sz'.
       if sz' = 0 then kret None
       else if ph_vaddr ph mod PGSIZE \<noteq> 0 then kret None
       else kbind (loaduvm pgdir (ph_vaddr ph) ip (ph_off ph) (ph_filesz ph)) (\<lambda>r.
            if r < 0 then kret None else exec_load k pgdir ip (off + 32) sz')))"

text \<open>Pushing the argument strings: the stack pointer and the addresses, \<open>None\<close> for \<open>bad\<close>.\<close>

fun exec_args :: "u32 \<Rightarrow> u8 list list \<Rightarrow> u32 \<Rightarrow> u32 list \<Rightarrow> (u32 \<times> u32 list) option kk" where
  "exec_args pgdir [] sp us = kret (Some (sp, us))"
| "exec_args pgdir (a # as) sp us =
     (if length us \<ge> MAXARG then kret None else
      let n = of_nat (length a) + 1; sp' = (sp - n) AND NOT 3 in
      kbind (copyout pgdir sp' (\<lambda>i. (a @ [0]) ! i) n) (\<lambda>r.
      if r < 0 then kret None else exec_args pgdir as sp' (us @ [sp'])))"

definition ustack_bytes :: "u32 list \<Rightarrow> bytes" where
  "ustack_bytes ws = put_words (\<lambda>_. 0) 0 ws"

definition last_elem :: "u8 list \<Rightarrow> u8 list" where
  "last_elem path = rev (takeWhile (\<lambda>c. c \<noteq> slash) (rev path))"

definition exec_finish :: "nat \<Rightarrow> u8 list \<Rightarrow> elfhdr \<Rightarrow> u8 list list \<Rightarrow> u32 \<Rightarrow> u32 \<Rightarrow> int kk" where
  "exec_finish c path elf argv pgdir sz0 =
     kbind (allocuvm pgdir (PGROUNDUP sz0) (PGROUNDUP sz0 + 2 * PGSIZE)) (\<lambda>sz.
     if sz = 0 then exec_bad pgdir None else
     kthen (clearpteu pgdir (sz - 2 * PGSIZE))
     (kbind (exec_args pgdir argv sz []) (\<lambda>r. case r of None \<Rightarrow> exec_bad pgdir None | Some (sp, us) \<Rightarrow>
      let argc = of_nat (length us);
          ustack = [0xffffffff, argc, sp - (argc + 1) * 4] @ us @ [0];
          sp' = sp - (3 + argc + 1) * 4 in
      kbind (copyout pgdir sp' (ustack_bytes ustack) ((3 + argc + 1) * 4)) (\<lambda>r.
      if r < 0 then exec_bad pgdir None else
      kbind (proc_get c p_pgdir) (\<lambda>old.
      kthen (proc_mod c (\<lambda>p. p\<lparr>p_name := safestrcpy (p_name p) (\<lambda>i. (last_elem path @ [0]) ! i) 16,
                p_pgdir := pgdir, p_sz := sz, p_tf := (p_tf p)\<lparr>tf_eip := e_entry elf, tf_esp := sp'\<rparr>\<rparr>))
      (kthen (switchuvm (Some c))
      (kthen (freevm old)
             (kret 0))))))))"

definition exec :: "u8 list \<Rightarrow> u8 list list \<Rightarrow> int kk" where
  "exec path argv =
     kbind curproc (\<lambda>c.
     kthen begin_op
     (kbind (namei path) (\<lambda>r. case r of
        None \<Rightarrow> kthen end_op (kthen (cprintf (''exec: fail'' @ [char_of (10 :: nat)]) []) (kret (-1)))
      | Some ip \<Rightarrow>
          kthen (ilock (Some ip))
          (kbind (readi ip DstLocal 0 52) (\<lambda>(r, bs).
           let elf = elfhdr_of_list bs in
           if r \<noteq> 52 \<or> e_magic elf \<noteq> ELF_MAGIC then exec_bad 0 (Some ip) else
           kbind setupkvm (\<lambda>pgdir.
           if pgdir = 0 then exec_bad 0 (Some ip) else
           kbind (exec_load (unat (e_phnum elf)) pgdir ip (e_phoff elf) 0) (\<lambda>r.
           case r of
             None \<Rightarrow> exec_bad pgdir (Some ip)
           | Some sz \<Rightarrow>
               kthen (iunlockput ip)
               (kthen end_op
                      (exec_finish c path elf argv pgdir sz)))))))))"

text \<open>\<open>sys_exec\<close> fetches the argument vector, at most \<open>MAXARG\<close> entries.\<close>

fun fetch_argv :: "nat \<Rightarrow> u32 \<Rightarrow> u8 list list option kk" where
  "fetch_argv 0 uargv = kret None"
| "fetch_argv (Suc k) uargv =
     kbind (fetchint uargv) (\<lambda>r. case r of None \<Rightarrow> kret None | Some uarg \<Rightarrow>
     if uarg = 0 then kret (Some []) else
     kbind (fetchstr uarg) (\<lambda>r. case r of None \<Rightarrow> kret None | Some a \<Rightarrow>
     kbind (fetch_argv k (uargv + 4)) (\<lambda>r. kret (map_option ((#) a) r))))"

definition sys_exec :: "int kk" where
  "sys_exec =
     kbind (argstr 0) (\<lambda>r. case r of None \<Rightarrow> kret (-1) | Some path \<Rightarrow>
     kbind (argint 1) (\<lambda>r. case r of None \<Rightarrow> kret (-1) | Some uargv \<Rightarrow>
     kbind (fetch_argv MAXARG uargv) (\<lambda>r. case r of None \<Rightarrow> kret (-1) | Some argv \<Rightarrow>
     exec path argv)))"

end
