(* ===== verification/Syscall.thy ===== *)
theory Syscall
  imports Exec
begin

unbundle bit_operations_syntax

text \<open>
  System calls on processes (\<open>sysproc.c\<close>), the dispatch of system calls (\<open>syscall.c\<close>) and of traps
  (\<open>trap.c\<close>).
\<close>

section \<open>Processes and threads\<close>

definition int_arg :: "(int \<Rightarrow> int kk) \<Rightarrow> int kk" where
  "int_arg k = kbind (argint 0) (\<lambda>r. case r of None \<Rightarrow> kret (-1) | Some v \<Rightarrow> k (sint v))"

definition sys_fork :: "int kk" where "sys_fork = fork"

definition sys_exit :: "int kk" where "sys_exit = kthen exit (kret 0)"

definition sys_wait :: "int kk" where "sys_wait = wait"

definition sys_kill :: "int kk" where "sys_kill = int_arg kill"

definition sys_getpid :: "int kk" where
  "sys_getpid = kbind curproc (\<lambda>c. proc_get c p_pid)"

definition sys_sbrk :: "int kk" where
  "sys_sbrk = int_arg (\<lambda>n.
     kbind curproc (\<lambda>c.
     kbind (proc_get c p_sz) (\<lambda>addr.
     kbind (growproc n) (\<lambda>r.
     if r < 0 then kret (-1) else kret (sint addr)))))"

fun sys_sleep_loop :: "nat \<Rightarrow> u32 \<Rightarrow> u32 \<Rightarrow> int kk" where
  "sys_sleep_loop 0 ticks0 n = (\<lambda>s. NoFuel)"
| "sys_sleep_loop (Suc k) ticks0 n =
     kbind (kget ticks) (\<lambda>t.
     if t - ticks0 < n then
       kbind curproc (\<lambda>c.
       kbind (proc_get c p_killed) (\<lambda>kd.
       if kd then kthen (release L_ticks) (kret (-1))
       else kthen (sleep ChanTicks L_ticks) (sys_sleep_loop k ticks0 n)))
     else kthen (release L_ticks) (kret 0))"

definition sys_sleep :: "int kk" where
  "sys_sleep = int_arg (\<lambda>n.
     kthen (acquire L_ticks)
     (kbind (kget ticks) (\<lambda>ticks0.
      kbind (kget fuel) (\<lambda>k. sys_sleep_loop (Suc k) ticks0 (of_int n)))))"

definition sys_uptime :: "int kk" where
  "sys_uptime =
     kthen (acquire L_ticks)
     (kbind (kget ticks) (\<lambda>x. kthen (release L_ticks) (kret (sint x))))"

definition sys_clone :: "int kk" where
  "sys_clone =
     kbind (argptr 0 4) (\<lambda>r. case r of None \<Rightarrow> kret (-1) | Some f \<Rightarrow>
     kbind (argptr 1 4) (\<lambda>r. case r of None \<Rightarrow> kret (-1) | Some arg \<Rightarrow>
     kbind (argptr 2 4) (\<lambda>r. case r of None \<Rightarrow> kret (-1) | Some stack \<Rightarrow>
     kbind (argint 3) (\<lambda>r. case r of None \<Rightarrow> kret (-1) | Some flags \<Rightarrow>
     clone f arg stack flags))))"

definition sys_join :: "int kk" where "sys_join = int_arg join"

definition sys_gettgid :: "int kk" where
  "sys_gettgid = kbind curproc (\<lambda>c. proc_get c p_tgid)"

definition sys_getppid :: "int kk" where
  "sys_getppid = kbind curproc (\<lambda>c. kbind (proc_get c p_parent) (\<lambda>q. kbind (deref q) (\<lambda>q. proc_get q p_pid)))"

definition sys_gettid :: "int kk" where
  "sys_gettid = kbind curproc (\<lambda>c. proc_get c p_pid)"

definition sys_threadkill :: "int kk" where "sys_threadkill = int_arg threadkill"

section \<open>Dispatch\<close>

text \<open>The table \<open>syscalls\<close>, indexed by the numbers of \<open>syscall.h\<close> from 1 on.\<close>

definition syscalls :: "(int kk) list" where
  "syscalls =
    [sys_fork, sys_exit, sys_wait, sys_pipe, sys_read, sys_kill, sys_exec, sys_fstat, sys_chdir,
     sys_dup, sys_getpid, sys_sbrk, sys_sleep, sys_uptime, sys_open, sys_write, sys_mknod,
     sys_unlink, sys_link, sys_mkdir, sys_close, sys_clone, sys_join, sys_gettgid, sys_getppid,
     sys_gettid, sys_threadkill]"

definition set_eax :: "nat \<Rightarrow> u32 \<Rightarrow> unit kk" where
  "set_eax c v = proc_mod c (\<lambda>p. p\<lparr>p_tf := (p_tf p)\<lparr>tf_eax := v\<rparr>\<rparr>)"

definition syscall :: "unit kk" where
  "syscall =
     kbind curproc (\<lambda>c.
     kbind (proc_get c id) (\<lambda>p.
     let num = sint (tf_eax (p_tf p)) in
     if num > 0 \<and> num \<le> int (length syscalls)
     then kbind (syscalls ! nat (num - 1)) (\<lambda>r. set_eax c (of_int r))
     else kthen (cprintf (''%d %s: unknown sys call %d'' @ [char_of (10 :: nat)])
                   [CInt (of_int (p_pid p)), CStr (Some (cname_from 16 (p_name p) 0)), CInt (of_int num)])
                (set_eax c (-1))))"

section \<open>Traps\<close>

definition T_SYSCALL :: u32 where "T_SYSCALL = 64"
definition T_IRQ0 :: u32 where "T_IRQ0 = 32"
definition IRQ_TIMER :: u32 where "IRQ_TIMER = 0"
definition IRQ_KBD :: u32 where "IRQ_KBD = 1"
definition IRQ_COM1 :: u32 where "IRQ_COM1 = 4"
definition IRQ_IDE :: u32 where "IRQ_IDE = 14"
definition IRQ_SPURIOUS :: u32 where "IRQ_SPURIOUS = 31"

definition exit_if_killed :: "unit kk" where
  "exit_if_killed = kbind curproc (\<lambda>c. kbind (proc_get c p_killed) (\<lambda>kd. kwhen kd exit))"

text \<open>The test \<open>myproc() && myproc()->killed && (tf->cs&3) == DPL_USER\<close> before a return to user space.\<close>

definition exit_if_killed_user :: "trapframe \<Rightarrow> unit kk" where
  "exit_if_killed_user tf =
     kbind (kget myproc) (\<lambda>r. case r of None \<Rightarrow> kret () | Some c \<Rightarrow>
     kbind (proc_get c p_killed) (\<lambda>kd. kwhen (kd \<and> tf_cs tf AND 3 = DPL_USER) exit))"

definition timer_tick :: "unit kk" where
  "timer_tick =
     kbind (kget cpu) (\<lambda>cid.
     kwhen (cid = 0)
       (kthen (acquire L_ticks)
       (kthen (kmod (\<lambda>s. s\<lparr>ticks := ticks s + 1\<rparr>))
       (kthen (wakeup ChanTicks)
              (release L_ticks)))))"

text \<open>
  The devices: \<open>input\<close> lists what the keyboard or the serial port delivers, \<open>cr2\<close> is the fault
  address register. The interrupt handler of the memory disk does nothing.
\<close>

definition trap_device :: "trapframe \<Rightarrow> int list \<Rightarrow> u32 \<Rightarrow> unit kk" where
  "trap_device tf input cr2 =
     (let no = tf_trapno tf in
      if no = T_IRQ0 + IRQ_TIMER then timer_tick
      else if no = T_IRQ0 + IRQ_IDE \<or> no = T_IRQ0 + IRQ_IDE + 1 then kret ()
      else if no = T_IRQ0 + IRQ_KBD \<or> no = T_IRQ0 + IRQ_COM1 then consoleintr input
      else if no = T_IRQ0 + 7 \<or> no = T_IRQ0 + IRQ_SPURIOUS then
        kbind (kget cpu) (\<lambda>cid.
        cprintf (''cpu%d: spurious interrupt at %x:%x'' @ [char_of (10 :: nat)])
          [CInt (of_nat cid), CInt (ucast (tf_cs tf)), CInt (tf_eip tf)])
      else
        kbind (kget cpu) (\<lambda>cid.
        kbind (kget myproc) (\<lambda>r.
        case r of
          None \<Rightarrow> kpanic ''trap''
        | Some c \<Rightarrow>
            if tf_cs tf AND 3 = 0 then kpanic ''trap'' else
            kbind (proc_get c id) (\<lambda>p.
            kthen (cprintf (''pid %d %s: trap %d err %d on cpu %d eip 0x%x addr 0x%x--kill proc'' @ [char_of (10 :: nat)])
              [CInt (of_int (p_pid p)), CStr (Some (cname_from 16 (p_name p) 0)), CInt no, CInt (tf_err tf),
               CInt (of_nat cid), CInt (tf_eip tf), CInt cr2])
                  (proc_mod c (\<lambda>p. p\<lparr>p_killed := True\<rparr>))))))"

definition trap :: "trapframe \<Rightarrow> int list \<Rightarrow> u32 \<Rightarrow> unit kk" where
  "trap tf input cr2 =
     (if tf_trapno tf = T_SYSCALL then
        kthen exit_if_killed
        (kbind curproc (\<lambda>c.
         kthen (proc_mod c (\<lambda>p. p\<lparr>p_tf := tf\<rparr>))
         (kthen syscall
                exit_if_killed)))
      else
        kthen (trap_device tf input cr2)
        (kthen (exit_if_killed_user tf)
        (kthen (kbind (kget myproc) (\<lambda>r. case r of None \<Rightarrow> kret () | Some c \<Rightarrow>
                kbind (proc_get c p_state) (\<lambda>st.
                kwhen (st = RUNNING \<and> tf_trapno tf = T_IRQ0 + IRQ_TIMER) yield)))
               (exit_if_killed_user tf))))"

end
