(* ===== verification/Frames.thy ===== *)
theory Frames
  imports File
begin

text \<open>
  Which parts of the state the memory, console and file-system code can change. The locale
  \<open>fs_frame\<close> asks of a relation between states that it allows each elementary update these
  functions make; inside it, every function of the theories \<open>Kalloc\<close> to \<open>File\<close> is
  shown to keep the relation, in every stretch of its run. Interpretations give the frame
  property that files never touch the identity of a process, and carry invariants of the whole
  kernel through the file system.
\<close>

named_theorems frame_rules \<open>functions that keep the relation of a frame\<close>

definition wake_all :: "chan \<Rightarrow> proc list \<Rightarrow> proc list" where
  "wake_all ch = map (\<lambda>p. if p_state p = SLEEPING \<and> p_chan p = ch then p\<lparr>p_state := RUNNABLE\<rparr> else p)"

locale fs_frame = frame_relation R for R :: "kernel \<Rightarrow> kernel \<Rightarrow> bool" +
  assumes R_held: "R s (s\<lparr>held := h\<rparr>)"
    and R_mem: "R s (s\<lparr>mem := m\<rparr>)"
    and R_freelist: "R s (s\<lparr>freelist := fl\<rparr>)"
    and R_wake: "R s (s\<lparr>ptable := wake_all ch (ptable s)\<rparr>)"
    and R_sleep: "R s (upd_proc i (\<lambda>q. q\<lparr>p_chan := ch, p_state := SLEEPING\<rparr>) s)"
    and R_nochan: "R s (upd_proc i (\<lambda>q. q\<lparr>p_chan := NoChan\<rparr>) s)"
    and R_buf: "R s (s\<lparr>bufs := (bufs s)[i := b]\<rparr>)"
    and R_blru: "R s (s\<lparr>blru := i # remove1 i (blru s)\<rparr>)"
    and R_klog: "R s (s\<lparr>klog := lg\<rparr>)"
    and R_disk: "R s (s\<lparr>disk := d, dwrites := dw\<rparr>)"
    and R_inode: "R s (s\<lparr>icache := (icache s)[i := ip]\<rparr>)"
    and R_sb: "R s (s\<lparr>sb := v\<rparr>)"
    and R_file: "R s (s\<lparr>ftable := (ftable s)[i := f]\<rparr>)"
    and R_pipes: "R s (s\<lparr>pipes := pp\<rparr>)"
    and R_cons_in: "R s (s\<lparr>cons_in := ci\<rparr>)"
    and R_cons_out: "R s (s\<lparr>cons_out := co\<rparr>)"
    and R_cga: "keeps R (cgaputc c)"
begin

lemma k_acquire [frame_rules]: "keeps R (acquire lk)"
  unfolding acquire_def by (intro keeps_intros keeps_kmod R_held)

lemma k_release [frame_rules]: "keeps R (release lk)"
  unfolding release_def by (intro keeps_intros keeps_kmod R_held)

lemma k_deref [frame_rules]: "keeps R (deref p)"
  unfolding deref_def by (intro keeps_intros)

lemma k_curproc [frame_rules]: "keeps R curproc"
  unfolding curproc_def by (intro keeps_intros frame_rules)

lemma k_proc_get [frame_rules]: "keeps R (proc_get i f)"
  unfolding proc_get_def by (intro keeps_intros)

lemma k_load32 [frame_rules]: "keeps R (load32 a)"
  unfolding load32_def by (intro keeps_intros)

lemma k_store32 [frame_rules]: "keeps R (store32 a v)"
  unfolding store32_def by (intro keeps_kmod R_mem)

lemma k_kmemset [frame_rules]: "keeps R (kmemset a c n)"
  unfolding kmemset_def by (intro keeps_kmod R_mem)

lemma k_kmemmove [frame_rules]: "keeps R (kmemmove d a n)"
  unfolding kmemmove_def by (intro keeps_kmod R_mem)

lemma k_kwrite_bytes [frame_rules]: "keeps R (kwrite_bytes d a n)"
  unfolding kwrite_bytes_def by (intro keeps_kmod R_mem)

lemma k_set_freelist [frame_rules]: "keeps R (kmod (\<lambda>s. s\<lparr>freelist := fl\<rparr>))"
  by (intro keeps_kmod R_freelist)

lemma k_kalloc [frame_rules]: "keeps R kalloc"
  unfolding kalloc_def by (intro keeps_intros frame_rules)

lemma k_kfree [frame_rules]: "keeps R (kfree v)"
  unfolding kfree_def by (intro keeps_intros frame_rules)

subsection \<open>Virtual memory\<close>

lemma phys_eq_R: "phys_eq s t \<Longrightarrow> R s t"
  by (auto simp: phys_eq_def intro: R_trans [OF R_mem R_freelist])

lemma k_phys: "keeps phys_eq m \<Longrightarrow> keeps R m"
  by (erule keeps_weaken) (rule phys_eq_R)

lemmas k_vm [frame_rules] = phys_intros [THEN k_phys]

lemma k_va_load8 [frame_rules]: "keeps R (va_load8 a)"
  unfolding va_load8_def by (intro keeps_intros)

lemma k_va_store8 [frame_rules]: "keeps R (va_store8 a v)"
  unfolding va_store8_def by (intro keeps_intros keeps_kmod R_mem)

lemma k_va_load [frame_rules]: "keeps R (va_load a n)"
  by (induction n arbitrary: a) (simp_all only: va_load.simps, (intro keeps_intros frame_rules; assumption)+)

lemma k_va_store [frame_rules]: "keeps R (va_store a bs)"
  by (induction bs arbitrary: a) (simp_all only: va_store.simps, (intro keeps_intros frame_rules; assumption)+)

lemma k_va_load32 [frame_rules]: "keeps R (va_load32 a)"
  unfolding va_load32_def by (intro keeps_intros frame_rules)

lemma k_va_store32 [frame_rules]: "keeps R (va_store32 a v)"
  unfolding va_store32_def by (intro frame_rules)

subsection \<open>Sleeping\<close>

lemma k_sched [frame_rules]: "keeps R sched"
proof -
  have "keeps R kswitch" by (simp add: keeps_def kswitch_def R_refl)
  then show ?thesis unfolding sched_def by (intro keeps_intros frame_rules)
qed

lemma k_proc_sleep [frame_rules]: "keeps R (proc_mod i (\<lambda>q. q\<lparr>p_chan := ch, p_state := SLEEPING\<rparr>))"
  unfolding proc_mod_def by (intro keeps_kmod R_sleep)

lemma k_proc_nochan [frame_rules]: "keeps R (proc_mod i (\<lambda>q. q\<lparr>p_chan := NoChan\<rparr>))"
  unfolding proc_mod_def by (intro keeps_kmod R_nochan)

lemma k_sleep [frame_rules]: "keeps R (sleep ch lk)"
  unfolding sleep_def by (intro keeps_intros frame_rules)

lemma k_wakeup1 [frame_rules]: "keeps R (wakeup1 ch)"
  unfolding wakeup1_def using R_wake [unfolded wake_all_def] by (intro keeps_kmod)

lemma k_wakeup [frame_rules]: "keeps R (wakeup ch)"
  unfolding wakeup_def by (intro keeps_intros frame_rules)

lemma k_upd_sl [frame_rules]: "keeps R (kmod (upd_sl l v))"
  by (rule keeps_kmod) (cases l; simp add: upd_sl_def R_buf R_inode)

lemma k_initsleeplock [frame_rules]: "keeps R (initsleeplock l)"
  unfolding initsleeplock_def by (intro frame_rules)

lemma k_acquiresleep_loop [frame_rules]: "keeps R (acquiresleep_loop n l)"
  by (induction n) (simp_all only: acquiresleep_loop.simps, (intro keeps_intros frame_rules; assumption)+)

lemma k_acquiresleep [frame_rules]: "keeps R (acquiresleep l)"
  unfolding acquiresleep_def by (intro keeps_intros frame_rules)

lemma k_releasesleep [frame_rules]: "keeps R (releasesleep l)"
  unfolding releasesleep_def by (intro keeps_intros frame_rules)

lemma k_holdingsleep [frame_rules]: "keeps R (holdingsleep l)"
  unfolding holdingsleep_def by (intro keeps_intros frame_rules)


subsection \<open>Buffers and the log\<close>

lemma k_buf_mod [frame_rules]: "keeps R (buf_mod i f)"
  unfolding buf_mod_def by (intro keeps_kmod R_buf)

lemma k_buf_get [frame_rules]: "keeps R (buf_get i f)"
  unfolding buf_get_def by (intro keeps_intros frame_rules)

lemma k_disk_write [frame_rules]: "keeps R (kmod (disk_write b d))"
  unfolding disk_write_def by (intro keeps_kmod R_disk)

lemma k_blru [frame_rules]: "keeps R (kmod (\<lambda>s. s\<lparr>blru := i # remove1 i (blru s)\<rparr>))"
  by (intro keeps_kmod R_blru)

lemma k_iderw [frame_rules]: "keeps R (iderw i)"
  unfolding iderw_def by (intro keeps_intros frame_rules)

lemma k_bget [frame_rules]: "keeps R (bget dev b)"
  unfolding bget_def by (intro keeps_intros frame_rules)

lemma k_bread [frame_rules]: "keeps R (bread dev b)"
  unfolding bread_def by (intro keeps_intros frame_rules)

lemma k_bwrite [frame_rules]: "keeps R (bwrite i)"
  unfolding bwrite_def by (intro keeps_intros frame_rules)

lemma k_brelse [frame_rules]: "keeps R (brelse i)"
  unfolding brelse_def by (intro keeps_intros frame_rules)

lemma k_log_get [frame_rules]: "keeps R (log_get f)"
  unfolding log_get_def by (intro keeps_intros frame_rules)

lemma k_log_mod [frame_rules]: "keeps R (log_mod f)"
  unfolding log_mod_def by (intro keeps_kmod R_klog)

lemma k_readsb [frame_rules]: "keeps R (readsb dev)"
  unfolding readsb_def by (intro keeps_intros frame_rules)

lemma k_install_trans [frame_rules]: "keeps R install_trans"
  unfolding install_trans_def by (intro keeps_intros frame_rules)

lemma k_read_head [frame_rules]: "keeps R read_head"
  unfolding read_head_def by (intro keeps_intros frame_rules)

lemma k_write_head [frame_rules]: "keeps R write_head"
  unfolding write_head_def by (intro keeps_intros frame_rules)

lemma k_recover_from_log [frame_rules]: "keeps R recover_from_log"
  unfolding recover_from_log_def by (intro keeps_intros frame_rules)

lemma k_initlog [frame_rules]: "keeps R (initlog dev)"
  unfolding initlog_def by (intro keeps_intros frame_rules)

lemma k_begin_op_loop [frame_rules]: "keeps R (begin_op_loop n)"
  by (induction n)
     (simp_all only: begin_op_loop.simps, (intro keeps_intros frame_rules; assumption)+)

lemma k_begin_op [frame_rules]: "keeps R begin_op"
  unfolding begin_op_def by (intro keeps_intros frame_rules)

lemma k_write_log [frame_rules]: "keeps R write_log"
  unfolding write_log_def by (intro keeps_intros frame_rules)

lemma k_commit [frame_rules]: "keeps R commit"
  unfolding commit_def by (intro keeps_intros frame_rules)

lemma k_end_op [frame_rules]: "keeps R end_op"
  unfolding end_op_def by (intro keeps_intros frame_rules)

lemma k_log_write [frame_rules]: "keeps R (log_write i)"
  unfolding log_write_def by (intro keeps_intros frame_rules)

subsection \<open>The console\<close>

lemma k_uartputc [frame_rules]: "keeps R (uartputc c)"
  unfolding uartputc_def by (intro keeps_kmod R_cons_out)

lemma k_cgaputc [frame_rules]: "keeps R (cgaputc c)"
  by (rule R_cga)

lemma k_in_mod [frame_rules]: "keeps R (in_mod f)"
  unfolding in_mod_def by (intro keeps_kmod R_cons_in)

lemma k_consputc [frame_rules]: "keeps R (consputc c)"
  unfolding consputc_def by (intro keeps_intros frame_rules)

lemma k_printint [frame_rules]: "keeps R (printint x b g)"
  unfolding printint_def by (intro keeps_intros frame_rules)

lemma k_cprintf [frame_rules]: "keeps R (cprintf fmt args)"
  unfolding cprintf_def by (intro keeps_intros frame_rules)

lemma k_getcallerpcs_from [frame_rules]: "keeps R (getcallerpcs_from n a)"
  by (induction n arbitrary: a)
     (simp_all only: getcallerpcs_from.simps, (intro keeps_intros frame_rules; assumption)+)

lemma k_getcallerpcs [frame_rules]: "keeps R (getcallerpcs v)"
  unfolding getcallerpcs_def by (intro keeps_intros frame_rules)

lemma k_procdump [frame_rules]: "keeps R procdump"
  unfolding procdump_def by (intro keeps_intros frame_rules)

lemma k_kill_line [frame_rules]: "keeps R (kill_line n)"
  by (induction n)
     (simp_all only: kill_line.simps, (intro keeps_intros frame_rules; assumption)+)

lemma k_console_char [frame_rules]: "keeps R (console_char c)"
  unfolding console_char_def by (intro keeps_intros frame_rules)

lemma k_consoleintr [frame_rules]: "keeps R (consoleintr cs)"
  unfolding consoleintr_def by (intro keeps_intros frame_rules)

subsection \<open>Inodes\<close>

lemma k_inode_mod [frame_rules]: "keeps R (inode_mod i f)"
  unfolding inode_mod_def by (intro keeps_kmod R_inode)

lemma k_set_sb [frame_rules]: "keeps R (kmod (\<lambda>s. s\<lparr>sb := v\<rparr>))"
  by (intro keeps_kmod R_sb)

lemma k_inode_get [frame_rules]: "keeps R (inode_get i f)"
  unfolding inode_get_def by (intro keeps_intros frame_rules)

lemma k_bzero [frame_rules]: "keeps R (bzero dev b)"
  unfolding bzero_def by (intro keeps_intros frame_rules)

lemma k_balloc_loop [frame_rules]: "keeps R (balloc_loop dev bs)"
  by (induction bs)
     (simp_all only: balloc_loop.simps, (intro keeps_intros frame_rules; assumption)+)

lemma k_balloc [frame_rules]: "keeps R (balloc dev)"
  unfolding balloc_def by (intro keeps_intros frame_rules)

lemma k_bfree [frame_rules]: "keeps R (bfree dev b)"
  unfolding bfree_def by (intro keeps_intros frame_rules)

lemma k_iinit [frame_rules]: "keeps R (iinit dev)"
  unfolding iinit_def by (intro keeps_intros frame_rules)

lemma k_iget [frame_rules]: "keeps R (iget dev inum)"
  unfolding iget_def by (intro keeps_intros frame_rules)

lemma k_ialloc_loop [frame_rules]: "keeps R (ialloc_loop dev ty ns)"
  by (induction ns)
     (simp_all only: ialloc_loop.simps, (intro keeps_intros frame_rules; assumption)+)

lemma k_ialloc [frame_rules]: "keeps R (ialloc dev ty)"
  unfolding ialloc_def by (intro keeps_intros frame_rules)

lemma k_iupdate [frame_rules]: "keeps R (iupdate i)"
  unfolding iupdate_def by (intro keeps_intros frame_rules)

lemma k_idup [frame_rules]: "keeps R (idup i)"
  unfolding idup_def by (intro keeps_intros frame_rules)

lemma k_ilock [frame_rules]: "keeps R (ilock p)"
  unfolding ilock_def by (intro keeps_intros frame_rules)

lemma k_iunlock [frame_rules]: "keeps R (iunlock p)"
  unfolding iunlock_def by (intro keeps_intros frame_rules)

lemma k_set_addr [frame_rules]: "keeps R (set_addr i k a)"
  unfolding set_addr_def by (intro keeps_intros frame_rules)

lemma k_bmap_addr [frame_rules]: "keeps R (bmap_addr i k)"
  unfolding bmap_addr_def by (intro keeps_intros frame_rules)

lemma k_bmap [frame_rules]: "keeps R (bmap i bn)"
  unfolding bmap_def by (intro keeps_intros frame_rules)

lemma k_itrunc [frame_rules]: "keeps R (itrunc i)"
  unfolding itrunc_def by (intro keeps_intros frame_rules)

lemma k_iput [frame_rules]: "keeps R (iput i)"
  unfolding iput_def by (intro keeps_intros frame_rules)

lemma k_iunlockput [frame_rules]: "keeps R (iunlockput i)"
  unfolding iunlockput_def by (intro keeps_intros frame_rules)

lemma k_stati [frame_rules]: "keeps R (stati i)"
  unfolding stati_def by (intro keeps_intros frame_rules)

subsection \<open>Files and directories\<close>

lemma k_put_dest [frame_rules]: "keeps R (put_dest d k bs)"
  by (cases d) (simp_all add: put_dest_def, (intro keeps_intros frame_rules)+)

lemma k_get_src [frame_rules]: "keeps R (get_src d k n)"
  by (cases d) (simp_all add: get_src_def, (intro keeps_intros frame_rules)+)

lemma k_consoleread_loop [frame_rules]: "keeps R (consoleread_loop n i d tg m acc)"
  by (induction n arbitrary: m acc)
     (simp_all only: consoleread_loop.simps, (intro keeps_intros frame_rules; assumption)+)

lemma k_consoleread [frame_rules]: "keeps R (consoleread i d n)"
  unfolding consoleread_def by (intro keeps_intros frame_rules)

lemma k_consolewrite [frame_rules]: "keeps R (consolewrite i d n)"
  unfolding consolewrite_def by (intro keeps_intros frame_rules)

lemma k_readi_loop [frame_rules]: "keeps R (readi_loop k i d n tot off acc)"
  by (induction k arbitrary: tot off acc)
     (simp_all only: readi_loop.simps, (intro keeps_intros frame_rules; assumption)+)

lemma k_readi [frame_rules]: "keeps R (readi i d off n)"
  unfolding readi_def by (intro keeps_intros frame_rules)

lemma k_writei_loop [frame_rules]: "keeps R (writei_loop k i d n tot off)"
  by (induction k arbitrary: tot off)
     (simp_all only: writei_loop.simps, (intro keeps_intros frame_rules; assumption)+)

lemma k_writei [frame_rules]: "keeps R (writei i d off n)"
  unfolding writei_def by (intro keeps_intros frame_rules)

lemma k_dirlookup_loop [frame_rules]: "keeps R (dirlookup_loop k i nm off)"
  by (induction k arbitrary: off)
     (simp_all only: dirlookup_loop.simps, (intro keeps_intros frame_rules; assumption)+)

lemma k_dirlookup [frame_rules]: "keeps R (dirlookup i nm)"
  unfolding dirlookup_def by (intro keeps_intros frame_rules)

lemma k_dirlink_slot [frame_rules]: "keeps R (dirlink_slot k i off)"
  by (induction k arbitrary: off)
     (simp_all only: dirlink_slot.simps, (intro keeps_intros frame_rules; assumption)+)

lemma k_dirlink [frame_rules]: "keeps R (dirlink i nm inum)"
  unfolding dirlink_def by (intro keeps_intros frame_rules)

lemma k_namex_loop [frame_rules]: "keeps R (namex_loop b i path nm)"
proof (induction "length path" arbitrary: i path nm rule: less_induct)
  case less
  have IH: "keeps R (namex_loop b j q n)" if "skipelem path nm = Some x" "x = (q, n)" for x j q n
    using less that skipelem_shorter by blast
  show ?case
    by (subst namex_loop.simps) (intro keeps_intros frame_rules; erule (1) IH)
qed

lemma k_namex [frame_rules]: "keeps R (namex path b nm)"
  unfolding namex_def by (intro keeps_intros frame_rules)

lemma k_namei [frame_rules]: "keeps R (namei path)"
  unfolding namei_def by (intro keeps_intros frame_rules)

lemma k_nameiparent [frame_rules]: "keeps R (nameiparent path)"
  unfolding nameiparent_def by (intro keeps_intros frame_rules)

lemma k_file_mod [frame_rules]: "keeps R (file_mod f g)"
  unfolding file_mod_def by (intro keeps_kmod R_file)

lemma k_pipe_mod [frame_rules]: "keeps R (pipe_mod p g)"
  unfolding pipe_mod_def by (intro keeps_kmod R_pipes)

lemma keeps_fdtype:
  "keeps R a \<Longrightarrow> keeps R b \<Longrightarrow> keeps R c \<Longrightarrow> keeps R (case ty of FD_NONE \<Rightarrow> a | FD_PIPE \<Rightarrow> b | FD_INODE \<Rightarrow> c)"
  by (cases ty) simp_all

lemma k_file_get [frame_rules]: "keeps R (file_get f g)"
  unfolding file_get_def by (intro keeps_intros frame_rules)

lemma k_filealloc [frame_rules]: "keeps R filealloc"
  unfolding filealloc_def by (intro keeps_intros frame_rules)

lemma k_filedup [frame_rules]: "keeps R (filedup f)"
  unfolding filedup_def by (intro keeps_intros frame_rules)

lemma k_pipe_get [frame_rules]: "keeps R (pipe_get p g)"
  unfolding pipe_get_def by (intro keeps_intros frame_rules)

lemma k_pipeclose [frame_rules]: "keeps R (pipeclose p w)"
  unfolding pipeclose_def by (intro keeps_intros frame_rules)

lemma k_pipewrite_loop [frame_rules]: "keeps R (pipewrite_loop k p a n i)"
  by (induction k arbitrary: i)
     (simp_all only: pipewrite_loop.simps, (intro keeps_intros frame_rules; assumption)+)

lemma k_pipewrite [frame_rules]: "keeps R (pipewrite p a n)"
  unfolding pipewrite_def by (intro keeps_intros frame_rules)

lemma k_piperead_copy [frame_rules]: "keeps R (piperead_copy k p a i)"
  by (induction k arbitrary: i)
     (simp_all only: piperead_copy.simps, (intro keeps_intros frame_rules; assumption)+)

lemma k_piperead_loop [frame_rules]: "keeps R (piperead_loop k p a n)"
  by (induction k)
     (simp_all only: piperead_loop.simps, (intro keeps_intros frame_rules; assumption)+)

lemma k_piperead [frame_rules]: "keeps R (piperead p a n)"
  unfolding piperead_def by (intro keeps_intros frame_rules)

lemma k_fileclose [frame_rules]: "keeps R (fileclose f)"
  unfolding fileclose_def by (intro keeps_intros keeps_fdtype frame_rules)

lemma k_pipealloc_bad [frame_rules]: "keeps R (pipealloc_bad f g)"
  unfolding pipealloc_bad_def by (intro keeps_intros frame_rules)

lemma k_pipealloc [frame_rules]: "keeps R pipealloc"
  unfolding pipealloc_def by (intro keeps_intros frame_rules)

lemma k_store_stat [frame_rules]: "keeps R (store_stat a st)"
  unfolding store_stat_def by (intro keeps_intros frame_rules)

lemma k_filestat [frame_rules]: "keeps R (filestat f a)"
  unfolding filestat_def by (intro keeps_intros frame_rules)

lemma k_fileread [frame_rules]: "keeps R (fileread f a n)"
  unfolding fileread_def by (intro keeps_intros keeps_fdtype frame_rules)

lemma k_filewrite_loop [frame_rules]: "keeps R (filewrite_loop k f ip a n i)"
  by (induction k arbitrary: i)
     (simp_all only: filewrite_loop.simps, (intro keeps_intros frame_rules; assumption)+)

lemma k_filewrite [frame_rules]: "keeps R (filewrite f a n)"
  unfolding filewrite_def by (intro keeps_intros keeps_fdtype frame_rules)

end

section \<open>Files never touch the identity of a process\<close>

text \<open>
  A process apart from its scheduling state, and the relation between states that agree on every
  process in this sense and on the processors.
\<close>

definition ident :: "proc \<Rightarrow> proc" where
  "ident p = p\<lparr>p_state := UNUSED, p_chan := NoChan\<rparr>"

definition same_procs :: "kernel \<Rightarrow> kernel \<Rightarrow> bool" where
  "same_procs s t \<longleftrightarrow> map ident (ptable t) = map ident (ptable s) \<and> nextpid t = nextpid s
     \<and> initproc t = initproc s \<and> cpu t = cpu s \<and> cpu_proc t = cpu_proc s \<and> cr3 t = cr3 s
     \<and> syms t = syms s \<and> fuel t = fuel s"

lemma ident_upd: "ident (f (ptable s ! i)) = ident (ptable s ! i) \<Longrightarrow>
    map ident (ptable (upd_proc i f s)) = map ident (ptable s)"
  by (simp add: upd_proc_def map_list_update_same)

lemma ident_wake: "map ident (wake_all ch ps) = map ident ps"
  by (auto simp: wake_all_def ident_def)

lemma same_procs_upd: "(\<And>p. ident (f p) = ident p) \<Longrightarrow> same_procs s (upd_proc i f s)"
  by (simp add: same_procs_def ident_upd)

lemma same_procs_cga: "keeps same_procs (cgaputc c)"
proof (rule keeps_wlpI)
  fix s
  show "wlp (cgaputc c) (\<lambda>_. same_procs s) (\<lambda>_. False) s"
    by (simp add: wlp_def cgaputc_app Let_def same_procs_def)
qed

interpretation files: fs_frame same_procs
proof
  show "same_procs s t \<Longrightarrow> same_procs t u \<Longrightarrow> same_procs s u" for s t u by (simp add: same_procs_def)
  show "same_procs s (upd_proc i (\<lambda>q. q\<lparr>p_chan := ch, p_state := SLEEPING\<rparr>) s)" for s i ch
    by (rule same_procs_upd) (simp add: ident_def)
  show "same_procs s (upd_proc i (\<lambda>q. q\<lparr>p_chan := NoChan\<rparr>) s)" for s i
    by (rule same_procs_upd) (simp add: ident_def)
qed (simp_all add: same_procs_def ident_wake same_procs_cga)

text \<open>Facts about a run that the frame gives.\<close>

lemma same_procs_field:
  assumes "same_procs s t" "\<And>p q. ident p = ident q \<Longrightarrow> f p = f q"
  shows "i < length (ptable s) \<Longrightarrow> f (proc_at i t) = f (proc_at i s)" "length (ptable t) = length (ptable s)"
proof -
  have m: "map ident (ptable t) = map ident (ptable s)" using assms(1) by (simp add: same_procs_def)
  then show l: "length (ptable t) = length (ptable s)" by (rule map_eq_imp_length_eq)
  assume "i < length (ptable s)"
  then have "ident (ptable t ! i) = ident (ptable s ! i)" using m l by (metis nth_map)
  then show "f (proc_at i t) = f (proc_at i s)" unfolding proc_at_def by (rule assms(2))
qed

end
