(* ===== verification/Invariants.thy ===== *)
theory Invariants
  imports Syscall Frames
begin

text \<open>
  Invariants of the whole kernel. The locale \<open>kernel_frame\<close> extends \<open>fs_frame\<close> with what the
  process code needs: a relation that allows a process entry to change as long as its pid is
  kept or cleared and its tables keep their size, and that \<open>allocproc\<close> keeps. Inside it every
  system call and every trap is shown to keep the relation. Interpretations give two
  invariants of everything the kernel does: the sizes and bounds of its tables, and the
  uniqueness of process ids.
\<close>

section \<open>What process code may change\<close>

text \<open>An update of a process entry that no invariant below depends on.\<close>

definition harmless :: "(proc \<Rightarrow> proc) \<Rightarrow> bool" where
  "harmless f \<longleftrightarrow> (\<forall>p. (p_pid (f p) = p_pid p \<or> p_pid (f p) = 0)
     \<and> (p_state (f p) = RUNNING \<longrightarrow> p_state p = RUNNING)
     \<and> length (p_ofile (f p)) = length (p_ofile p)
     \<and> length (p_ofile_clone (f p)) = length (p_ofile_clone p)
     \<and> length (p_cwd_clone (f p)) = length (p_cwd_clone p))"

lemma length_clear_first [simp]: "length (clear_first c xs) = length xs"
  by (simp add: clear_first_def split: option.splits)

lemmas harmless_defs = harmless_def kill_proc_def fill_slots_def share_files_def clone_flags_def

locale kernel_frame = fs_frame R for R :: "kernel \<Rightarrow> kernel \<Rightarrow> bool" +
  assumes R_proc: "harmless f \<Longrightarrow> R s (upd_proc i f s)"
    and R_allocproc: "keeps R allocproc"
    and R_cr3: "R s (s\<lparr>esp0 := e, cr3 := c\<rparr>)"
    and R_first: "R s (s\<lparr>fork_first := b\<rparr>)"
    and R_initproc: "R s (s\<lparr>initproc := ip\<rparr>)"
    and R_ticks: "R s (s\<lparr>ticks := n\<rparr>)"
begin

lemma k_proc_mod [frame_rules]: "harmless f \<Longrightarrow> keeps R (proc_mod i f)"
  unfolding proc_mod_def by (intro keeps_kmod R_proc)

lemma k_allocproc [frame_rules]: "keeps R allocproc"
  by (rule R_allocproc)

lemma k_switchuvm [frame_rules]: "keeps R (switchuvm p)"
  unfolding switchuvm_def by (intro keeps_intros keeps_kmod R_cr3)

lemma k_set_first [frame_rules]: "keeps R (kmod (\<lambda>s. s\<lparr>fork_first := b\<rparr>))"
  by (intro keeps_kmod R_first)

lemma k_set_initproc [frame_rules]: "keeps R (kmod (\<lambda>s. s\<lparr>initproc := ip\<rparr>))"
  by (intro keeps_kmod R_initproc)

lemma k_tick [frame_rules]: "keeps R (kmod (\<lambda>s. s\<lparr>ticks := ticks s + 1\<rparr>))"
  by (intro keeps_kmod R_ticks)

subsection \<open>Processes\<close>

lemma k_yield [frame_rules]: "keeps R yield"
  unfolding yield_def by (intro keeps_intros frame_rules; simp add: harmless_defs)

lemma k_kill [frame_rules]: "keeps R (kill pid)"
  unfolding kill_def by (intro keeps_intros frame_rules; simp add: harmless_defs)

lemma k_threadkill [frame_rules]: "keeps R (threadkill pid)"
  unfolding threadkill_def by (intro keeps_intros frame_rules; simp add: harmless_defs)

lemma k_userinit [frame_rules]: "keeps R userinit"
  unfolding userinit_def by (intro keeps_intros frame_rules; simp add: harmless_defs)

lemma k_growproc [frame_rules]: "keeps R (growproc n)"
  unfolding growproc_def by (intro keeps_intros frame_rules; simp add: harmless_defs)

lemma k_dup_file [frame_rules]: "keeps R (dup_file c np k)"
  unfolding dup_file_def by (intro keeps_intros frame_rules; simp add: harmless_defs)

lemma k_dup_files [frame_rules]: "keeps R (dup_files c np)"
  unfolding dup_files_def by (intro keeps_intros frame_rules)

lemma k_undo_alloc [frame_rules]: "keeps R (undo_alloc np)"
  unfolding undo_alloc_def by (intro keeps_intros frame_rules; simp add: harmless_defs)

lemma k_set_runnable [frame_rules]: "keeps R (set_runnable np)"
  unfolding set_runnable_def by (intro keeps_intros frame_rules; simp add: harmless_defs)

lemma k_fork [frame_rules]: "keeps R fork"
  unfolding fork_def by (intro keeps_intros frame_rules; simp add: harmless_defs)

lemma k_clone_fs [frame_rules]: "keeps R (clone_fs c np)"
  unfolding clone_fs_def by (intro keeps_intros frame_rules; simp add: harmless_defs)

lemma k_clone_files [frame_rules]: "keeps R (clone_files c np)"
  unfolding clone_files_def by (intro keeps_intros frame_rules; simp add: harmless_defs)

lemma k_clone_parent [frame_rules]: "keeps R (clone_parent c np)"
  unfolding clone_parent_def by (intro keeps_intros frame_rules; simp add: harmless_defs)

lemma k_clone_frame [frame_rules]: "keeps R (clone_frame c np cp f a st fl)"
  unfolding clone_frame_def by (intro keeps_intros frame_rules; simp add: harmless_defs)

lemma k_clone_setup [frame_rules]: "keeps R (clone_setup c np cp f a st fl)"
  unfolding clone_setup_def by (intro keeps_intros frame_rules)

lemma k_clone_into [frame_rules]: "keeps R (clone_into c np f a st fl)"
  unfolding clone_into_def by (intro keeps_intros frame_rules; simp add: harmless_defs)

lemma k_clone [frame_rules]: "keeps R (clone f a st fl)"
  unfolding clone_def by (intro keeps_intros frame_rules)

lemma k_join_scan [frame_rules]: "keeps R (join_scan pid c is h)"
  by (induction "is" arbitrary: h)
     (simp_all only: join_scan.simps, (intro keeps_intros frame_rules; (assumption | simp add: harmless_defs))+)

lemma k_join_loop [frame_rules]: "keeps R (join_loop k pid c)"
  by (induction k)
     (simp_all only: join_loop.simps, (intro keeps_intros frame_rules; (assumption | simp add: harmless_defs))+)

lemma k_join [frame_rules]: "keeps R (join pid)"
  unfolding join_def by (intro keeps_intros frame_rules; simp add: harmless_defs)

lemma k_wait_scan [frame_rules]: "keeps R (wait_scan c is h)"
  by (induction "is" arbitrary: h)
     (simp_all only: wait_scan.simps, (intro keeps_intros frame_rules; (assumption | simp add: harmless_defs))+)

lemma k_wait_loop [frame_rules]: "keeps R (wait_loop k c)"
  by (induction k)
     (simp_all only: wait_loop.simps, (intro keeps_intros frame_rules; (assumption | simp add: harmless_defs))+)

lemma k_wait [frame_rules]: "keeps R wait"
  unfolding wait_def by (intro keeps_intros frame_rules; simp add: harmless_defs)

lemma k_exit_ofile_clone [frame_rules]: "keeps R (exit_ofile_clone c)"
  unfolding exit_ofile_clone_def by (intro keeps_intros frame_rules; simp add: harmless_defs)

lemma k_exit_cwd_clone [frame_rules]: "keeps R (exit_cwd_clone c)"
  unfolding exit_cwd_clone_def by (intro keeps_intros frame_rules; simp add: harmless_defs)

lemma k_exit_files [frame_rules]: "keeps R (exit_files c)"
  unfolding exit_files_def by (intro keeps_intros frame_rules; simp add: harmless_defs)

lemma k_exit_cwd [frame_rules]: "keeps R (exit_cwd c)"
  unfolding exit_cwd_def by (intro keeps_intros frame_rules; simp add: harmless_defs)

lemma k_reparent_one [frame_rules]: "keeps R (reparent_one c i)"
  unfolding reparent_one_def by (intro keeps_intros frame_rules; simp add: harmless_defs)

lemma k_reparent [frame_rules]: "keeps R (reparent c)"
  unfolding reparent_def by (intro keeps_intros frame_rules; simp add: harmless_defs)

lemma k_exit [frame_rules]: "keeps R exit"
  unfolding exit_def by (intro keeps_intros frame_rules; simp add: harmless_defs)

lemma k_forkret [frame_rules]: "keeps R forkret"
  unfolding forkret_def by (intro keeps_intros frame_rules; simp add: harmless_defs)

subsection \<open>System calls on files\<close>

lemma k_fetchint [frame_rules]: "keeps R (fetchint a)"
  unfolding fetchint_def by (intro keeps_intros frame_rules)

lemma k_fetchstr_from [frame_rules]: "keeps R (fetchstr_from n a)"
  by (induction n arbitrary: a)
     (simp_all only: fetchstr_from.simps, (intro keeps_intros frame_rules; (assumption | simp add: harmless_defs))+)

lemma k_fetchstr [frame_rules]: "keeps R (fetchstr a)"
  unfolding fetchstr_def by (intro keeps_intros frame_rules)

lemma k_argint [frame_rules]: "keeps R (argint n)"
  unfolding argint_def by (intro keeps_intros frame_rules)

lemma k_argptr [frame_rules]: "keeps R (argptr n z)"
  unfolding argptr_def by (intro keeps_intros frame_rules)

lemma k_argstr [frame_rules]: "keeps R (argstr n)"
  unfolding argstr_def by (intro keeps_intros frame_rules)

lemma k_open_ofile_clone [frame_rules]:
  "keeps R (open_ofile_clone n c f fd)"
  and k_open_ofile_loop: "keeps R (open_ofile_loop n c f fd is)"
  by (induction n c f fd and n c f fd "is" rule: open_ofile_clone_open_ofile_loop.induct)
     (simp_all only: open_ofile_clone.simps open_ofile_loop.simps, (intro keeps_intros frame_rules; (assumption | simp add: harmless_defs))+)

lemma k_close_ofile_clone [frame_rules]:
  "keeps R (close_ofile_clone n c fd)"
  and k_close_ofile_loop: "keeps R (close_ofile_loop n c fd is)"
  by (induction n c fd and n c fd "is" rule: close_ofile_clone_close_ofile_loop.induct)
     (simp_all only: close_ofile_clone.simps close_ofile_loop.simps, (intro keeps_intros frame_rules; (assumption | simp add: harmless_defs))+)

lemma k_pwd_clone [frame_rules]:
  "keeps R (pwd_clone n c ip)"
  and k_pwd_loop: "keeps R (pwd_loop n c ip is)"
  by (induction n c ip and n c ip "is" rule: pwd_clone_pwd_loop.induct)
     (simp_all only: pwd_clone.simps pwd_loop.simps, (intro keeps_intros frame_rules; (assumption | simp add: harmless_defs))+)

lemma k_argfd [frame_rules]: "keeps R (argfd n)"
  unfolding argfd_def by (intro keeps_intros frame_rules)

lemma k_fdalloc [frame_rules]: "keeps R (fdalloc f)"
  unfolding fdalloc_def by (intro keeps_intros frame_rules; simp add: harmless_defs)

lemma k_sys_dup [frame_rules]: "keeps R sys_dup"
  unfolding sys_dup_def by (intro keeps_intros frame_rules)

lemma k_rw_args [frame_rules]: "keeps R rw_args"
  unfolding rw_args_def by (intro keeps_intros frame_rules)

lemma k_sys_read [frame_rules]: "keeps R sys_read"
  unfolding sys_read_def by (intro keeps_intros frame_rules)

lemma k_sys_write [frame_rules]: "keeps R sys_write"
  unfolding sys_write_def by (intro keeps_intros frame_rules)

lemma k_sys_close [frame_rules]: "keeps R sys_close"
  unfolding sys_close_def by (intro keeps_intros frame_rules; simp add: harmless_defs)

lemma k_sys_fstat [frame_rules]: "keeps R sys_fstat"
  unfolding sys_fstat_def by (intro keeps_intros frame_rules)

lemma k_end_op_fail [frame_rules]: "keeps R end_op_fail"
  unfolding end_op_fail_def by (intro keeps_intros frame_rules)

lemma k_add_nlink [frame_rules]: "keeps R (add_nlink i d)"
  unfolding add_nlink_def by (intro keeps_intros frame_rules)

lemma k_sys_link_bad [frame_rules]: "keeps R (sys_link_bad i)"
  unfolding sys_link_bad_def by (intro keeps_intros frame_rules)

lemma k_sys_link [frame_rules]: "keeps R sys_link"
  unfolding sys_link_def by (intro keeps_intros frame_rules)

lemma k_isdirempty_loop [frame_rules]: "keeps R (isdirempty_loop k i off)"
  by (induction k arbitrary: off)
     (simp_all only: isdirempty_loop.simps, (intro keeps_intros frame_rules; (assumption | simp add: harmless_defs))+)

lemma k_isdirempty [frame_rules]: "keeps R (isdirempty i)"
  unfolding isdirempty_def by (intro keeps_intros frame_rules)

lemma k_sys_unlink_bad [frame_rules]: "keeps R (sys_unlink_bad i)"
  unfolding sys_unlink_bad_def by (intro keeps_intros frame_rules)

lemma k_sys_unlink [frame_rules]: "keeps R sys_unlink"
  unfolding sys_unlink_def by (intro keeps_intros frame_rules)

lemma k_create [frame_rules]: "keeps R (create p t a b)"
  unfolding create_def by (intro keeps_intros frame_rules)

lemma k_sys_open_finish [frame_rules]: "keeps R (sys_open_finish i m)"
  unfolding sys_open_finish_def by (intro keeps_intros frame_rules)

lemma k_sys_open [frame_rules]: "keeps R sys_open"
  unfolding sys_open_def by (intro keeps_intros frame_rules)

lemma k_sys_mkdir [frame_rules]: "keeps R sys_mkdir"
  unfolding sys_mkdir_def by (intro keeps_intros frame_rules)

lemma k_sys_mknod [frame_rules]: "keeps R sys_mknod"
  unfolding sys_mknod_def by (intro keeps_intros frame_rules)

lemma k_sys_chdir [frame_rules]: "keeps R sys_chdir"
  unfolding sys_chdir_def by (intro keeps_intros frame_rules; simp add: harmless_defs)

lemma k_sys_pipe [frame_rules]: "keeps R sys_pipe"
  unfolding sys_pipe_def by (intro keeps_intros frame_rules; simp add: harmless_defs)

subsection \<open>Exec, dispatch and traps\<close>

lemma k_loaduvm_loop [frame_rules]: "keeps R (loaduvm_loop k d a ip off sz i)"
  by (induction k arbitrary: i)
     (simp_all only: loaduvm_loop.simps, (intro keeps_intros frame_rules; (assumption | simp add: harmless_defs))+)

lemma k_loaduvm [frame_rules]: "keeps R (loaduvm d a ip off sz)"
  unfolding loaduvm_def by (intro keeps_intros frame_rules)

lemma k_exec_bad [frame_rules]: "keeps R (exec_bad d ip)"
  unfolding exec_bad_def by (intro keeps_intros frame_rules)

lemma k_exec_load [frame_rules]: "keeps R (exec_load k d ip off sz)"
  by (induction k arbitrary: off sz)
     (simp_all only: exec_load.simps, (intro keeps_intros frame_rules; (assumption | simp add: harmless_defs))+)

lemma k_exec_args [frame_rules]: "keeps R (exec_args d as sp us)"
  by (induction as arbitrary: sp us)
     (simp_all only: exec_args.simps, (intro keeps_intros frame_rules; (assumption | simp add: harmless_defs))+)

lemma k_exec_finish [frame_rules]: "keeps R (exec_finish c p e as d sz)"
  unfolding exec_finish_def by (intro keeps_intros frame_rules; simp add: harmless_defs)

lemma k_exec [frame_rules]: "keeps R (exec p as)"
  unfolding exec_def by (intro keeps_intros frame_rules)

lemma k_fetch_argv [frame_rules]: "keeps R (fetch_argv k a)"
  by (induction k arbitrary: a)
     (simp_all only: fetch_argv.simps, (intro keeps_intros frame_rules; (assumption | simp add: harmless_defs))+)

lemma k_sys_exec [frame_rules]: "keeps R sys_exec"
  unfolding sys_exec_def by (intro keeps_intros frame_rules)

lemma k_int_arg [frame_rules]: "(\<And>n. keeps R (k n)) \<Longrightarrow> keeps R (int_arg k)"
  unfolding int_arg_def by (intro keeps_intros frame_rules)

lemma k_sys_fork [frame_rules]: "keeps R sys_fork"
  unfolding sys_fork_def by (intro keeps_intros frame_rules)

lemma k_sys_exit [frame_rules]: "keeps R sys_exit"
  unfolding sys_exit_def by (intro keeps_intros frame_rules)

lemma k_sys_wait [frame_rules]: "keeps R sys_wait"
  unfolding sys_wait_def by (intro keeps_intros frame_rules)

lemma k_sys_kill [frame_rules]: "keeps R sys_kill"
  unfolding sys_kill_def by (intro keeps_intros frame_rules)

lemma k_sys_getpid [frame_rules]: "keeps R sys_getpid"
  unfolding sys_getpid_def by (intro keeps_intros frame_rules)

lemma k_sys_sbrk [frame_rules]: "keeps R sys_sbrk"
  unfolding sys_sbrk_def by (intro keeps_intros frame_rules)

lemma k_sys_sleep_loop [frame_rules]: "keeps R (sys_sleep_loop k t n)"
  by (induction k)
     (simp_all only: sys_sleep_loop.simps, (intro keeps_intros frame_rules; (assumption | simp add: harmless_defs))+)

lemma k_sys_sleep [frame_rules]: "keeps R sys_sleep"
  unfolding sys_sleep_def by (intro keeps_intros frame_rules)

lemma k_sys_uptime [frame_rules]: "keeps R sys_uptime"
  unfolding sys_uptime_def by (intro keeps_intros frame_rules)

lemma k_sys_clone [frame_rules]: "keeps R sys_clone"
  unfolding sys_clone_def by (intro keeps_intros frame_rules)

lemma k_sys_join [frame_rules]: "keeps R sys_join"
  unfolding sys_join_def by (intro keeps_intros frame_rules)

lemma k_sys_gettgid [frame_rules]: "keeps R sys_gettgid"
  unfolding sys_gettgid_def by (intro keeps_intros frame_rules)

lemma k_sys_getppid [frame_rules]: "keeps R sys_getppid"
  unfolding sys_getppid_def by (intro keeps_intros frame_rules)

lemma k_sys_gettid [frame_rules]: "keeps R sys_gettid"
  unfolding sys_gettid_def by (intro keeps_intros frame_rules)

lemma k_sys_threadkill [frame_rules]: "keeps R sys_threadkill"
  unfolding sys_threadkill_def by (intro keeps_intros frame_rules)

lemma k_syscalls: "\<forall>m \<in> set syscalls. keeps R m"
  unfolding syscalls_def by (simp add: frame_rules)

lemma k_set_eax [frame_rules]: "keeps R (set_eax c v)"
  unfolding set_eax_def by (intro keeps_intros frame_rules; simp add: harmless_defs)

lemma k_syscall [frame_rules]: "keeps R syscall"
  unfolding syscall_def
  by (intro keeps_intros frame_rules; intro bspec [OF k_syscalls] nth_mem | simp add: harmless_defs)+ linarith

lemma k_exit_if_killed [frame_rules]: "keeps R exit_if_killed"
  unfolding exit_if_killed_def by (intro keeps_intros frame_rules)

lemma k_exit_if_killed_user [frame_rules]: "keeps R (exit_if_killed_user tf)"
  unfolding exit_if_killed_user_def by (intro keeps_intros frame_rules)

lemma k_timer_tick [frame_rules]: "keeps R timer_tick"
  unfolding timer_tick_def by (intro keeps_intros frame_rules)

lemma k_trap_device [frame_rules]: "keeps R (trap_device tf input cr2)"
  unfolding trap_device_def by (intro keeps_intros frame_rules; simp add: harmless_defs)

lemma k_trap [frame_rules]: "keeps R (trap tf input cr2)"
  unfolding trap_def by (intro keeps_intros frame_rules; simp add: harmless_defs)

end

section \<open>Invariants\<close>

text \<open>The sizes of the kernel's tables, and the cursor on the screen.\<close>

definition proc_wf :: "proc \<Rightarrow> bool" where
  "proc_wf p \<longleftrightarrow> length (p_ofile p) = NOFILE \<and> length (p_ofile_clone p) = NPROC
     \<and> length (p_cwd_clone p) = NPROC"

definition kernel_wf :: "kernel \<Rightarrow> bool" where
  "kernel_wf s \<longleftrightarrow> length (ptable s) = NPROC \<and> list_all proc_wf (ptable s)
     \<and> length (ftable s) = NFILE \<and> length (icache s) = NINODE \<and> length (bufs s) = NBUF
     \<and> distinct (blru s) \<and> 0 \<le> crt_pos s \<and> crt_pos s < 24 * 80"

text \<open>
  Process ids: those in use are below \<open>nextpid\<close>, which has not overflowed, and no two table
  entries share one. An entry that was never used, or was given back, has id 0.
\<close>

definition pids_ok :: "int \<Rightarrow> int list \<Rightarrow> bool" where
  "pids_ok n ps \<longleftrightarrow> 1 \<le> n \<and> n < 2 ^ 31 \<and> (\<forall>p \<in> set ps. 0 \<le> p \<and> p < n)
     \<and> (\<forall>i < length ps. \<forall>j < length ps. i \<noteq> j \<longrightarrow> ps ! i = ps ! j \<longrightarrow> ps ! i = 0)"

definition pid_inv :: "kernel \<Rightarrow> bool" where
  "pid_inv s \<longleftrightarrow> pids_ok (nextpid s) (map p_pid (ptable s))"

text \<open>Kernel code never makes a process \<open>RUNNING\<close>, and stays on its processor.\<close>

definition no_new_running :: "kernel \<Rightarrow> kernel \<Rightarrow> bool" where
  "no_new_running s t \<longleftrightarrow> cpu t = cpu s \<and> cpu_proc t = cpu_proc s
     \<and> length (ptable t) = length (ptable s)
     \<and> (\<forall>i < length (ptable s). p_state (proc_at i t) = RUNNING \<longrightarrow> p_state (proc_at i s) = RUNNING)"

lemma list_all_update: "list_all P xs \<Longrightarrow> (P (xs ! i) \<Longrightarrow> P v) \<Longrightarrow> list_all P (xs[i := v])"
  by (cases "i < length xs") (auto simp: list_all_length nth_list_update)

lemma list_all_wake: "(\<And>p. P p \<Longrightarrow> P (p\<lparr>p_state := RUNNABLE\<rparr>)) \<Longrightarrow> list_all P ps \<Longrightarrow> list_all P (wake_all ch ps)"
  by (auto simp: wake_all_def list_all_iff)

lemma proc_at_wake: "i < length (ptable s) \<Longrightarrow> proc_at i (s\<lparr>ptable := wake_all ch (ptable s)\<rparr>) =
    (if p_state (proc_at i s) = SLEEPING \<and> p_chan (proc_at i s) = ch then (proc_at i s)\<lparr>p_state := RUNNABLE\<rparr>
     else proc_at i s)"
  by (simp add: wake_all_def proc_at_def)

lemma length_wake [simp]: "length (wake_all ch ps) = length ps"
  by (simp add: wake_all_def)

lemma proc_at_upd_proc: "proc_at j (upd_proc i f s) =
    (if i = j \<and> i < length (ptable s) then f (proc_at i s) else proc_at j s)"
  by (cases "i < length (ptable s)") (auto simp: proc_at_def upd_proc_def list_update_beyond)

lemma length_upd_proc [simp]: "length (ptable (upd_proc i f s)) = length (ptable s)"
  by (simp add: upd_proc_def)

lemma harmless_sleep: "harmless (\<lambda>q. q\<lparr>p_chan := ch, p_state := SLEEPING\<rparr>)" "harmless (\<lambda>q. q\<lparr>p_chan := NoChan\<rparr>)"
  by (simp_all add: harmless_def)

subsection \<open>Table sizes\<close>

lemma wf_upd: "harmless f \<Longrightarrow> kernel_wf s \<Longrightarrow> kernel_wf (upd_proc i f s)"
  by (auto simp: kernel_wf_def upd_proc_def harmless_def proc_wf_def intro!: list_all_update)

lemma wf_cga: "keeps (\<lambda>s t. kernel_wf s \<longrightarrow> kernel_wf t) (cgaputc c)"
proof (rule keeps_wlpI)
  fix s
  show "wlp (cgaputc c) (\<lambda>_ t. kernel_wf s \<longrightarrow> kernel_wf t) (\<lambda>_. False) s"
  proof (cases "kernel_wf s")
    case True
    then have "0 \<le> crt_pos s" "crt_pos s < 24 * 80" by (simp_all add: kernel_wf_def)
    with cgaputc_pos [OF this, of c] crt_pos_after_bounds [OF this, of c] show ?thesis
      using True by (auto simp: wlp_def kernel_wf_def)
  next
    case False
    then show ?thesis by (simp add: wlp_def cgaputc_app Let_def)
  qed
qed

interpretation wf_files: fs_frame "\<lambda>s t. kernel_wf s \<longrightarrow> kernel_wf t"
proof
  show "kernel_wf s \<longrightarrow> kernel_wf (s\<lparr>ptable := wake_all ch (ptable s)\<rparr>)" for s ch
    by (auto simp: kernel_wf_def proc_wf_def intro: list_all_wake)
qed (simp_all add: wf_cga wf_upd harmless_sleep, simp_all add: kernel_wf_def)

lemma wf_allocproc: "keeps (\<lambda>s t. kernel_wf s \<longrightarrow> kernel_wf t) allocproc"
proof -
  have pid: "keeps (\<lambda>s t. kernel_wf s \<longrightarrow> kernel_wf t) next_pid"
    unfolding next_pid_def by (intro wf_files.keeps_intros wf_files.keeps_kmod) (simp add: kernel_wf_def)
  have upd: "(\<And>p. proc_wf p \<Longrightarrow> proc_wf (f p)) \<Longrightarrow> keeps (\<lambda>s t. kernel_wf s \<longrightarrow> kernel_wf t) (proc_mod i f)" for i f
    unfolding proc_mod_def
    by (intro wf_files.keeps_kmod) (auto simp: kernel_wf_def upd_proc_def intro!: list_all_update)
  show ?thesis unfolding allocproc_def alloc_stack_def
    by (intro wf_files.keeps_intros frame_rules upd pid; simp add: proc_wf_def)
qed

interpretation wf: kernel_frame "\<lambda>s t. kernel_wf s \<longrightarrow> kernel_wf t"
  by unfold_locales (auto simp: wf_upd wf_allocproc, auto simp: kernel_wf_def)

subsection \<open>Process ids\<close>

lemma pids_ok_update: "v = xs ! i \<or> v = 0 \<Longrightarrow> pids_ok n xs \<Longrightarrow> pids_ok n (xs[i := v])"
  by (cases "i < length xs")
     (auto simp: pids_ok_def list_update_beyond nth_list_update dest: set_update_subset_insert [THEN subsetD])

lemma pids_ok_new: "n < 2 ^ 31 - 1 \<Longrightarrow> pids_ok n xs \<Longrightarrow> pids_ok (n + 1) (xs[i := n])"
proof (cases "i < length xs")
  case True
  assume n: "n < 2 ^ 31 - 1" and ok: "pids_ok n xs"
  have lt: "xs ! j < n" "0 \<le> xs ! j" if "j < length xs" for j using ok that by (simp_all add: pids_ok_def)
  have "0 \<le> p \<and> p < n + 1" if "p \<in> set (xs[i := n])" for p
    using set_update_subset_insert [THEN subsetD, OF that] ok by (auto simp: pids_ok_def)
  moreover have "(xs[i := n]) ! j = 0"
    if "j < length xs" "k < length xs" "j \<noteq> k" "(xs[i := n]) ! j = (xs[i := n]) ! k" for j k
    using that lt [of j] lt [of k] ok True by (auto simp: nth_list_update pids_ok_def split: if_splits)
  ultimately show ?thesis using n ok by (simp add: pids_ok_def)
next
  case False
  assume "n < 2 ^ 31 - 1" "pids_ok n xs"
  then show ?thesis using False by (auto simp: pids_ok_def list_update_beyond)
qed

lemma pid_inv_upd:
  assumes "\<And>p. p_pid (f p) = p_pid p \<or> p_pid (f p) = 0" "pid_inv s"
  shows "pid_inv (upd_proc i f s)"
proof (cases "i < length (ptable s)")
  case True
  then have "p_pid (f (ptable s ! i)) = map p_pid (ptable s) ! i \<or> p_pid (f (ptable s ! i)) = 0"
    using assms(1) by simp
  then show ?thesis using assms(2) by (simp add: pid_inv_def upd_proc_def map_update pids_ok_update)
next
  case False
  then show ?thesis using assms(2) by (simp add: pid_inv_def upd_proc_def list_update_beyond)
qed

lemma pid_inv_cong: "map p_pid (ptable t) = map p_pid (ptable s) \<Longrightarrow> nextpid t = nextpid s \<Longrightarrow>
    pid_inv s \<Longrightarrow> pid_inv t"
  by (simp add: pid_inv_def)

lemma pid_inv_wake: "pid_inv s \<Longrightarrow> pid_inv (s\<lparr>ptable := wake_all ch (ptable s)\<rparr>)"
  by (erule pid_inv_cong [rotated 2]) (auto simp: wake_all_def)

lemma pid_cga: "keeps (\<lambda>s t. pid_inv s \<longrightarrow> pid_inv t) (cgaputc c)"
proof (rule keeps_wlpI)
  fix s
  show "wlp (cgaputc c) (\<lambda>_ t. pid_inv s \<longrightarrow> pid_inv t) (\<lambda>_. False) s"
    by (simp add: wlp_def cgaputc_app Let_def pid_inv_def)
qed

interpretation pid_files: fs_frame "\<lambda>s t. pid_inv s \<longrightarrow> pid_inv t"
  by unfold_locales (simp_all add: pid_inv_wake pid_inv_upd pid_cga, simp_all add: pid_inv_def)

text \<open>The new id is above every id in use.\<close>

lemma pid_new: "keeps (\<lambda>s t. pid_inv s \<longrightarrow> pid_inv t) (kbind (kget nextpid) (\<lambda>pid.
    kthen (proc_mod i (\<lambda>p. p\<lparr>p_isThread := False, p_state := EMBRYO, p_pid := pid\<rparr>)) next_pid))"
proof (rule keeps_wlpI)
  fix s
  show "wlp (kbind (kget nextpid) (\<lambda>pid.
    kthen (proc_mod i (\<lambda>p. p\<lparr>p_isThread := False, p_state := EMBRYO, p_pid := pid\<rparr>)) next_pid))
    (\<lambda>_ t. pid_inv s \<longrightarrow> pid_inv t) (\<lambda>_. False) s"
    by (simp add: next_pid_def pid_inv_def upd_proc_def map_update pids_ok_new)
qed

lemma pid_allocproc: "keeps (\<lambda>s t. pid_inv s \<longrightarrow> pid_inv t) allocproc"
proof -
  have split: "kbind (kget nextpid) (\<lambda>pid. kthen (a pid) (kthen b c)) =
      kthen (kbind (kget nextpid) (\<lambda>pid. kthen (a pid) b)) c" for a b c
    by (simp add: kthen_def kbind_assoc)
  have upd: "(\<And>p. p_pid (f p) = p_pid p) \<Longrightarrow> keeps (\<lambda>s t. pid_inv s \<longrightarrow> pid_inv t) (proc_mod i f)" for i f
    unfolding proc_mod_def by (intro pid_files.keeps_kmod) (auto intro: pid_inv_upd)
  show ?thesis unfolding allocproc_def alloc_stack_def split
    by (intro pid_files.keeps_intros pid_new frame_rules upd; simp)
qed

interpretation pid: kernel_frame "\<lambda>s t. pid_inv s \<longrightarrow> pid_inv t"
  by unfold_locales (simp_all add: pid_allocproc pid_inv_upd harmless_def, simp_all add: pid_inv_def)

subsection \<open>Running processes\<close>

lemma cpu_upd_proc [simp]: "cpu (upd_proc i f s) = cpu s" "cpu_proc (upd_proc i f s) = cpu_proc s"
  by (simp_all add: upd_proc_def)

lemma running_upd: "(\<And>p. p_state (f p) = RUNNING \<Longrightarrow> p_state p = RUNNING) \<Longrightarrow> no_new_running s (upd_proc i f s)"
  by (auto simp: no_new_running_def proc_at_upd_proc split: if_splits)

lemma running_cong: "ptable t = ptable s \<Longrightarrow> cpu t = cpu s \<Longrightarrow> cpu_proc t = cpu_proc s \<Longrightarrow> no_new_running s t"
  by (simp add: no_new_running_def proc_at_def)

lemma running_cga: "keeps no_new_running (cgaputc c)"
proof (rule keeps_wlpI)
  fix s
  show "wlp (cgaputc c) (\<lambda>_. no_new_running s) (\<lambda>_. False) s"
    by (simp add: wlp_def cgaputc_app Let_def running_cong)
qed

lemma running_trans: "no_new_running s t \<Longrightarrow> no_new_running t u \<Longrightarrow> no_new_running s u"
  by (auto simp: no_new_running_def)

lemma running_wake: "no_new_running s (s\<lparr>ptable := wake_all ch (ptable s)\<rparr>)"
  by (simp add: no_new_running_def proc_at_wake)

interpretation running_files: fs_frame no_new_running
  by unfold_locales
    (simp_all add: running_cong running_cga running_wake, (erule running_trans, assumption | intro running_upd | simp)+)

lemma running_allocproc: "keeps no_new_running allocproc"
proof -
  have pid: "keeps no_new_running next_pid"
    unfolding next_pid_def
    by (intro running_files.keeps_intros running_files.keeps_kmod) (simp add: no_new_running_def proc_at_def)
  have upd: "(\<And>p. p_state (f p) = RUNNING \<Longrightarrow> p_state p = RUNNING) \<Longrightarrow> keeps no_new_running (proc_mod i f)" for i f
    unfolding proc_mod_def by (intro running_files.keeps_kmod running_upd)
  show ?thesis unfolding allocproc_def alloc_stack_def
    by (intro running_files.keeps_intros frame_rules upd pid; simp)
qed

interpretation running: kernel_frame no_new_running
  by unfold_locales (simp_all add: running_cong running_allocproc running_upd harmless_def)

end
