(* ===== verification/Locking.thy ===== *)
theory Locking
  imports Syscall Frames
begin

text \<open>
  The discipline of spin locks. \<open>locks H m H'\<close> says that \<open>m\<close>, started on a processor that holds
  exactly the locks \<open>H\<close>, returns holding exactly \<open>H'\<close>, and that whenever it gives up the processor
  in between it holds exactly \<open>ptable.lock\<close> and its process is no longer \<open>RUNNING\<close>, which the
  scheduler needs. The judgement is
  compositional; the theory derives it for every function of the kernel, up to the system
  calls and traps, which return without a lock.
\<close>

section \<open>The judgement\<close>

text \<open>What the scheduler relies on when a process comes back to it.\<close>

definition at_switch :: "kernel \<Rightarrow> bool" where
  "at_switch t \<longleftrightarrow> held t = [L_ptable] \<and> (\<exists>i. myproc t = Some i \<and> p_state (proc_at i t) \<noteq> RUNNING)"

primrec lock_run :: "('a \<Rightarrow> lockid list) \<Rightarrow> ('a, kernel) kres \<Rightarrow> bool" where
  "lock_run K (Ret x t) \<longleftrightarrow> held t = K x"
| "lock_run K (Switch t c) \<longleftrightarrow> at_switch t \<and> (\<forall>u. held u = [L_ptable] \<longrightarrow> lock_run K (c u))"
| "lock_run K (Panic e) \<longleftrightarrow> True"
| "lock_run K NoFuel \<longleftrightarrow> True"

text \<open>The locks held on return may depend on the value returned; mostly they do not.\<close>

definition locks_to :: "lockid list \<Rightarrow> 'a kk \<Rightarrow> ('a \<Rightarrow> lockid list) \<Rightarrow> bool" where
  "locks_to H m K \<longleftrightarrow> (\<forall>s. held s = H \<longrightarrow> lock_run K (m s))"

definition locks :: "lockid list \<Rightarrow> 'a kk \<Rightarrow> lockid list \<Rightarrow> bool" where
  "locks H m H' \<longleftrightarrow> locks_to H m (\<lambda>_. H')"

named_theorems lock_rules \<open>what each kernel function does to the locks\<close>

lemma lock_run_bind:
  "lock_run K r \<Longrightarrow> (\<And>x. locks_to (K x) (k x) K') \<Longrightarrow> lock_run K' (kres_bind r k)"
  by (induction r) (auto simp: locks_to_def)

lemma locks_to_kbind: "locks_to H m K \<Longrightarrow> (\<And>x. locks_to (K x) (k x) K') \<Longrightarrow> locks_to H (kbind m k) K'"
  unfolding locks_to_def [of H] by (auto simp: kbind_def intro: lock_run_bind)

lemma locks_kbind: "locks H m H1 \<Longrightarrow> (\<And>x. locks H1 (k x) H2) \<Longrightarrow> locks H (kbind m k) H2"
  unfolding locks_def by (rule locks_to_kbind)

lemma locks_kthen: "locks H m H1 \<Longrightarrow> locks H1 k H2 \<Longrightarrow> locks H (kthen m k) H2"
  unfolding kthen_def by (rule locks_kbind)

lemma locks_kret: "locks H (kret x) H"
  by (simp add: locks_def locks_to_def)

lemma locks_Ret: "locks H (Ret x) H"
  by (simp add: locks_def locks_to_def)

lemma locks_kpanic: "locks H (kpanic e) H'"
  by (simp add: locks_def locks_to_def)

lemma locks_NoFuel: "locks H (\<lambda>s. NoFuel) H'"
  by (simp add: locks_def locks_to_def)

lemma locks_kget: "locks H (kget f) H"
  by (simp add: locks_def locks_to_def)

lemma locks_kmod: "(\<And>s. held (f s) = held s) \<Longrightarrow> locks H (kmod f) H"
  by (simp add: locks_def locks_to_def)

lemma locks_kwhen: "(b \<Longrightarrow> locks H m H) \<Longrightarrow> locks H (kwhen b m) H"
  by (simp add: kwhen_def locks_kret)

lemma locks_if: "(b \<Longrightarrow> locks H m H') \<Longrightarrow> (\<not> b \<Longrightarrow> locks H k H') \<Longrightarrow> locks H (if b then m else k) H'"
  by simp

lemma locks_option:
  "(p = None \<Longrightarrow> locks H m H') \<Longrightarrow> (\<And>x. p = Some x \<Longrightarrow> locks H (k x) H') \<Longrightarrow>
   locks H (case p of None \<Rightarrow> m | Some x \<Rightarrow> k x) H'"
  by (cases p) auto

lemma locks_prod: "(\<And>x y. p = (x, y) \<Longrightarrow> locks H (k x y) H') \<Longrightarrow> locks H (case p of (x, y) \<Rightarrow> k x y) H'"
  by (cases p) auto

lemma locks_let: "(\<And>x. locks H (k x) H') \<Longrightarrow> locks H (let x = v in k x) H'"
  by simp

lemma locks_kfor: "(\<And>i. i \<in> set is \<Longrightarrow> locks H (f i) H) \<Longrightarrow> locks H (kfor is f) H"
  by (induction "is") (auto intro: locks_kret locks_kthen)

lemma locks_fdtype:
  "locks H a H' \<Longrightarrow> locks H b H' \<Longrightarrow> locks H c H' \<Longrightarrow>
   locks H (case ty of FD_NONE \<Rightarrow> a | FD_PIPE \<Rightarrow> b | FD_INODE \<Rightarrow> c) H'"
  by (cases ty) simp_all

lemmas lock_intros = locks_kret locks_Ret locks_kpanic locks_NoFuel locks_kget locks_kbind
  locks_kthen locks_kwhen locks_if locks_option locks_prod locks_let locks_kfor

section \<open>Locks and memory\<close>

lemma l_acquire [lock_rules]: "locks H (acquire lk) (lk # H)"
  by (simp add: locks_def locks_to_def acquire_app)

lemma l_release [lock_rules]: "locks (lk # H) (release lk) H"
  by (simp add: locks_def locks_to_def release_app)

lemma l_deref [lock_rules]: "locks H (deref p) H"
  by (cases p) (simp_all add: locks_kret locks_kpanic)

lemma l_curproc [lock_rules]: "locks H curproc H"
  unfolding curproc_def by (rule lock_intros lock_rules)+

lemma l_proc_get [lock_rules]: "locks H (proc_get i f) H"
  unfolding proc_get_def by (rule lock_intros)+

lemma l_proc_mod [lock_rules]: "locks H (proc_mod i f) H"
  unfolding proc_mod_def by (intro locks_kmod) (simp add: upd_proc_def)

lemma l_mem [lock_rules]: "locks H (kmod (\<lambda>s. s\<lparr>mem := m s\<rparr>)) H"
  by (intro locks_kmod) simp

lemma l_load32 [lock_rules]: "locks H (load32 a) H"
  unfolding load32_def by (rule lock_intros)+

lemma l_store32 [lock_rules]: "locks H (store32 a v) H"
  unfolding store32_def by (rule lock_rules)+

lemma l_kmemset [lock_rules]: "locks H (kmemset a c n) H"
  unfolding kmemset_def by (rule lock_rules)+

lemma l_kmemmove [lock_rules]: "locks H (kmemmove d a n) H"
  unfolding kmemmove_def by (rule lock_rules)+

lemma l_kwrite_bytes [lock_rules]: "locks H (kwrite_bytes d a n) H"
  unfolding kwrite_bytes_def by (rule lock_rules)+

lemma l_set_freelist [lock_rules]: "locks H (kmod (\<lambda>s. s\<lparr>freelist := fl\<rparr>)) H"
  by (intro locks_kmod) simp

lemma l_kalloc [lock_rules]: "locks H kalloc H"
  by (auto simp: locks_def locks_to_def kalloc_def acquire_app release_app load32_def kbind_def kthen_def kwhen_def)

lemma l_kfree [lock_rules]: "locks H (kfree v) H"
  by (auto simp: locks_def locks_to_def kfree_def acquire_app release_app mem_op_defs kbind_def kthen_def kwhen_def)

subsection \<open>Virtual memory\<close>

lemma l_walkpgdir [lock_rules]: "locks H (walkpgdir d va a) H"
  unfolding walkpgdir_def by (rule lock_intros lock_rules)+

lemma l_mappages_loop [lock_rules]: "locks H (mappages_loop n d a l pa pm) H"
  by (induction n arbitrary: a pa) (simp_all only: mappages_loop.simps, (rule lock_intros lock_rules | assumption)+)

lemma l_mappages [lock_rules]: "locks H (mappages d va n pa pm) H"
  unfolding mappages_def Let_def by (rule l_mappages_loop)

lemma l_deallocuvm_loop [lock_rules]: "locks H (deallocuvm_loop n d a old) H"
  by (induction n arbitrary: a) (simp_all only: deallocuvm_loop.simps, (rule lock_intros lock_rules | assumption)+)

lemma l_deallocuvm [lock_rules]: "locks H (deallocuvm d old new) H"
  unfolding deallocuvm_def by (rule lock_intros lock_rules)+

lemma l_freevm [lock_rules]: "locks H (freevm d) H"
  unfolding freevm_def by (rule lock_intros lock_rules)+

lemma l_setupkvm_loop [lock_rules]: "locks H (setupkvm_loop d ks) H"
  by (induction ks) (simp_all only: setupkvm_loop.simps, (rule lock_intros lock_rules | assumption)+)

lemma l_setupkvm [lock_rules]: "locks H setupkvm H"
  unfolding setupkvm_def by (rule lock_intros lock_rules)+

lemma l_allocuvm_loop [lock_rules]: "locks H (allocuvm_loop n d a old new) H"
  by (induction n arbitrary: a) (simp_all only: allocuvm_loop.simps, (rule lock_intros lock_rules | assumption)+)

lemma l_allocuvm [lock_rules]: "locks H (allocuvm d old new) H"
  unfolding allocuvm_def by (rule lock_intros lock_rules)+

lemma l_copyuvm_loop [lock_rules]: "locks H (copyuvm_loop n d e i sz) H"
  by (induction n arbitrary: i) (simp_all only: copyuvm_loop.simps, (rule lock_intros lock_rules | assumption)+)

lemma l_copyuvm [lock_rules]: "locks H (copyuvm d sz) H"
  unfolding copyuvm_def by (rule lock_intros lock_rules)+

lemma l_inituvm [lock_rules]: "locks H (inituvm d b n) H"
  unfolding inituvm_def by (rule lock_intros lock_rules)+


lemma l_clearpteu [lock_rules]: "locks H (clearpteu d a) H"
  unfolding clearpteu_def by (rule lock_intros lock_rules)+

lemma l_uva2ka [lock_rules]: "locks H (uva2ka d a) H"
  unfolding uva2ka_def by (rule lock_intros lock_rules)+

lemma l_copyout_loop [lock_rules]: "locks H (copyout_loop n d va p len) H"
  by (induction n arbitrary: va p len)
     (simp_all only: copyout_loop.simps, (rule lock_intros lock_rules | assumption)+)

lemma l_copyout [lock_rules]: "locks H (copyout d va p len) H"
  unfolding copyout_def by (rule lock_intros lock_rules)+

lemma l_va_load8 [lock_rules]: "locks H (va_load8 a) H"
  unfolding va_load8_def by (rule lock_intros)+

lemma l_va_store8 [lock_rules]: "locks H (va_store8 a v) H"
  unfolding va_store8_def by (rule lock_intros lock_rules)+

lemma l_va_load [lock_rules]: "locks H (va_load a n) H"
  by (induction n arbitrary: a) (simp_all only: va_load.simps, (rule lock_intros lock_rules | assumption)+)

lemma l_va_store [lock_rules]: "locks H (va_store a bs) H"
  by (induction bs arbitrary: a) (simp_all only: va_store.simps, (rule lock_intros lock_rules | assumption)+)

lemma l_va_load32 [lock_rules]: "locks H (va_load32 a) H"
  unfolding va_load32_def by (rule lock_intros lock_rules)+

lemma l_va_store32 [lock_rules]: "locks H (va_store32 a v) H"
  unfolding va_store32_def by (rule lock_rules)+

subsection \<open>Sleeping\<close>

lemma l_sched [lock_rules]: "locks H sched H"
  by (auto simp: locks_def locks_to_def at_switch_def sched_cases length_Suc_conv split: option.splits)

lemma l_sleep_enter: "locks (lk # H) (kwhen (lk \<noteq> L_ptable) (kthen (acquire L_ptable) (release lk))) (L_ptable # H)"
proof (cases "lk = L_ptable")
  case False
  then have "locks (L_ptable # lk # H) (release lk) (L_ptable # H)" by (simp add: locks_def locks_to_def release_app)
  then have "locks (lk # H) (kthen (acquire L_ptable) (release lk)) (L_ptable # H)"
    by (rule locks_kthen [OF l_acquire])
  then show ?thesis using False by simp
qed (simp add: locks_kret)

lemma l_sleep_leave: "locks (L_ptable # H) (kwhen (lk \<noteq> L_ptable) (kthen (release L_ptable) (acquire lk))) (lk # H)"
  by (cases "lk = L_ptable") (simp_all add: locks_kret locks_kthen [OF l_release l_acquire])

lemma l_sleep [lock_rules]: "locks (lk # H) (sleep ch lk) (lk # H)"
  unfolding sleep_def by (rule l_sleep_enter l_sleep_leave lock_intros lock_rules)+

lemma l_wakeup1 [lock_rules]: "locks H (wakeup1 ch) H"
  unfolding wakeup1_def by (intro locks_kmod) simp

lemma l_wakeup [lock_rules]: "locks H (wakeup ch) H"
  unfolding wakeup_def by (rule lock_intros lock_rules)+

lemma l_upd_sl [lock_rules]: "locks H (kmod (upd_sl l v)) H"
  by (rule locks_kmod) (cases l; simp add: upd_sl_def)

lemma l_initsleeplock [lock_rules]: "locks H (initsleeplock l) H"
  unfolding initsleeplock_def by (rule lock_rules)+

lemma l_acquiresleep_loop [lock_rules]: "locks (L_sleep l # H) (acquiresleep_loop n l) H"
  by (induction n) (simp_all only: acquiresleep_loop.simps, (rule lock_intros lock_rules | assumption)+)

lemma l_acquiresleep [lock_rules]: "locks H (acquiresleep l) H"
  unfolding acquiresleep_def by (rule lock_intros lock_rules)+

lemma l_releasesleep [lock_rules]: "locks H (releasesleep l) H"
  unfolding releasesleep_def by (rule lock_intros lock_rules)+

lemma l_holdingsleep [lock_rules]: "locks H (holdingsleep l) H"
  unfolding holdingsleep_def by (rule lock_intros lock_rules)+


subsection \<open>Buffers and the log\<close>

lemma l_buf_mod [lock_rules]: "locks H (buf_mod i f) H"
  unfolding buf_mod_def by (intro locks_kmod) simp

lemma l_buf_get [lock_rules]: "locks H (buf_get i f) H"
  unfolding buf_get_def by (rule lock_intros lock_rules)+

lemma l_disk_write [lock_rules]: "locks H (kmod (disk_write b d)) H"
  unfolding disk_write_def by (intro locks_kmod) simp

lemma l_blru [lock_rules]: "locks H (kmod (\<lambda>s. s\<lparr>blru := i # remove1 i (blru s)\<rparr>)) H"
  by (intro locks_kmod) simp

lemma l_iderw [lock_rules]: "locks H (iderw i) H"
  unfolding iderw_def by (rule lock_intros lock_rules)+

lemma l_bget [lock_rules]: "locks H (bget dev b) H"
  unfolding bget_def by (rule lock_intros lock_rules)+

lemma l_bread [lock_rules]: "locks H (bread dev b) H"
  unfolding bread_def by (rule lock_intros lock_rules)+

lemma l_bwrite [lock_rules]: "locks H (bwrite i) H"
  unfolding bwrite_def by (rule lock_intros lock_rules)+

lemma l_brelse [lock_rules]: "locks H (brelse i) H"
  unfolding brelse_def by (rule lock_intros lock_rules)+

lemma l_log_get [lock_rules]: "locks H (log_get f) H"
  unfolding log_get_def by (rule lock_intros lock_rules)+

lemma l_log_mod [lock_rules]: "locks H (log_mod f) H"
  unfolding log_mod_def by (intro locks_kmod) simp

lemma l_readsb [lock_rules]: "locks H (readsb dev) H"
  unfolding readsb_def by (rule lock_intros lock_rules)+

lemma l_install_trans [lock_rules]: "locks H install_trans H"
  unfolding install_trans_def by (rule lock_intros lock_rules)+

lemma l_read_head [lock_rules]: "locks H read_head H"
  unfolding read_head_def by (rule lock_intros lock_rules)+

lemma l_write_head [lock_rules]: "locks H write_head H"
  unfolding write_head_def by (rule lock_intros lock_rules)+

lemma l_recover_from_log [lock_rules]: "locks H recover_from_log H"
  unfolding recover_from_log_def by (rule lock_intros lock_rules)+

lemma l_initlog [lock_rules]: "locks H (initlog dev) H"
  unfolding initlog_def by (rule lock_intros lock_rules)+

lemma l_begin_op_loop [lock_rules]: "locks (L_log # H) (begin_op_loop n) H"
  by (induction n)
     (simp_all only: begin_op_loop.simps, (rule lock_intros lock_rules | assumption)+)

lemma l_begin_op [lock_rules]: "locks H begin_op H"
  unfolding begin_op_def by (rule lock_intros lock_rules)+

lemma l_write_log [lock_rules]: "locks H write_log H"
  unfolding write_log_def by (rule lock_intros lock_rules)+

lemma l_commit [lock_rules]: "locks H commit H"
  unfolding commit_def by (rule lock_intros lock_rules)+

lemma l_end_op [lock_rules]: "locks H end_op H"
  unfolding end_op_def by (rule lock_intros lock_rules)+

lemma l_log_write [lock_rules]: "locks H (log_write i) H"
  unfolding log_write_def by (rule lock_intros lock_rules)+

subsection \<open>The console\<close>

lemma l_uartputc [lock_rules]: "locks H (uartputc c) H"
  unfolding uartputc_def by (intro locks_kmod) simp

lemma l_cgaputc [lock_rules]: "locks H (cgaputc c) H"
  by (simp add: locks_def locks_to_def cgaputc_app Let_def)

lemma l_in_mod [lock_rules]: "locks H (in_mod f) H"
  unfolding in_mod_def by (intro locks_kmod) simp

lemma l_consputc [lock_rules]: "locks H (consputc c) H"
  unfolding consputc_def by (rule lock_intros lock_rules)+

lemma l_printint [lock_rules]: "locks H (printint x b g) H"
  unfolding printint_def by (rule lock_intros lock_rules)+

lemma l_cprintf [lock_rules]: "locks H (cprintf fmt as) H"
proof -
  have body: "locks K (case cprintf_chars fmt as of None \<Rightarrow> kpanic ''cprintf arguments'' | Some cs \<Rightarrow> kfor cs consputc) K" for K
    by (rule lock_intros lock_rules)+
  have "locks H (kthen (kwhen b (acquire L_cons)) (kthen (case cprintf_chars fmt as of
      None \<Rightarrow> kpanic ''cprintf arguments'' | Some cs \<Rightarrow> kfor cs consputc) (kwhen b (release L_cons)))) H" for b
    by (cases b; simp only: kwhen_True kwhen_False; (rule locks_kthen locks_kret body lock_rules)+)
  then show ?thesis unfolding cprintf_def by (rule locks_kbind [OF locks_kget])
qed

lemma l_getcallerpcs_from [lock_rules]: "locks H (getcallerpcs_from n a) H"
  by (induction n arbitrary: a)
     (simp_all only: getcallerpcs_from.simps, (rule lock_intros lock_rules | assumption)+)

lemma l_getcallerpcs [lock_rules]: "locks H (getcallerpcs v) H"
  unfolding getcallerpcs_def by (rule lock_intros lock_rules)+

lemma l_procdump [lock_rules]: "locks H procdump H"
  unfolding procdump_def by (rule lock_intros lock_rules)+

lemma l_kill_line [lock_rules]: "locks H (kill_line n) H"
  by (induction n)
     (simp_all only: kill_line.simps, (rule lock_intros lock_rules | assumption)+)

lemma l_console_char [lock_rules]: "locks H (console_char c) H"
  unfolding console_char_def by (rule lock_intros lock_rules)+

lemma l_consoleintr [lock_rules]: "locks H (consoleintr cs) H"
  unfolding consoleintr_def by (rule lock_intros lock_rules)+

subsection \<open>Inodes\<close>

lemma l_inode_mod [lock_rules]: "locks H (inode_mod i f) H"
  unfolding inode_mod_def by (intro locks_kmod) simp

lemma l_set_sb [lock_rules]: "locks H (kmod (\<lambda>s. s\<lparr>sb := v\<rparr>)) H"
  by (intro locks_kmod) simp

lemma l_inode_get [lock_rules]: "locks H (inode_get i f) H"
  unfolding inode_get_def by (rule lock_intros lock_rules)+

lemma l_bzero [lock_rules]: "locks H (bzero dev b) H"
  unfolding bzero_def by (rule lock_intros lock_rules)+

lemma l_balloc_loop [lock_rules]: "locks H (balloc_loop dev bs) H"
  by (induction bs)
     (simp_all only: balloc_loop.simps, (rule lock_intros lock_rules | assumption)+)

lemma l_balloc [lock_rules]: "locks H (balloc dev) H"
  unfolding balloc_def by (rule lock_intros lock_rules)+

lemma l_bfree [lock_rules]: "locks H (bfree dev b) H"
  unfolding bfree_def by (rule lock_intros lock_rules)+

lemma l_iinit [lock_rules]: "locks H (iinit dev) H"
  unfolding iinit_def by (rule lock_intros lock_rules)+

lemma l_iget [lock_rules]: "locks H (iget dev inum) H"
  unfolding iget_def by (rule lock_intros lock_rules)+

lemma l_ialloc_loop [lock_rules]: "locks H (ialloc_loop dev ty ns) H"
  by (induction ns)
     (simp_all only: ialloc_loop.simps, (rule lock_intros lock_rules | assumption)+)

lemma l_ialloc [lock_rules]: "locks H (ialloc dev ty) H"
  unfolding ialloc_def by (rule lock_intros lock_rules)+

lemma l_iupdate [lock_rules]: "locks H (iupdate i) H"
  unfolding iupdate_def by (rule lock_intros lock_rules)+

lemma l_idup [lock_rules]: "locks H (idup i) H"
  unfolding idup_def by (rule lock_intros lock_rules)+

lemma l_ilock [lock_rules]: "locks H (ilock p) H"
  unfolding ilock_def by (rule lock_intros lock_rules)+

lemma l_iunlock [lock_rules]: "locks H (iunlock p) H"
  unfolding iunlock_def by (rule lock_intros lock_rules)+

lemma l_set_addr [lock_rules]: "locks H (set_addr i k a) H"
  unfolding set_addr_def by (rule lock_intros lock_rules)+

lemma l_bmap_addr [lock_rules]: "locks H (bmap_addr i k) H"
  unfolding bmap_addr_def by (rule lock_intros lock_rules)+

lemma l_bmap [lock_rules]: "locks H (bmap i bn) H"
  unfolding bmap_def by (rule lock_intros lock_rules)+

lemma l_itrunc [lock_rules]: "locks H (itrunc i) H"
  unfolding itrunc_def by (rule lock_intros lock_rules)+

lemma l_iput [lock_rules]: "locks H (iput i) H"
  unfolding iput_def by (rule lock_intros lock_rules)+

lemma l_iunlockput [lock_rules]: "locks H (iunlockput i) H"
  unfolding iunlockput_def by (rule lock_intros lock_rules)+

lemma l_stati [lock_rules]: "locks H (stati i) H"
  unfolding stati_def by (rule lock_intros lock_rules)+

subsection \<open>Files and directories\<close>

lemma l_put_dest [lock_rules]: "locks H (put_dest d k bs) H"
  by (cases d) (simp_all add: put_dest_def, (intro lock_intros lock_rules)+)

lemma l_get_src [lock_rules]: "locks H (get_src d k n) H"
  by (cases d) (simp_all add: get_src_def, (intro lock_intros lock_rules)+)

lemma l_consoleread_loop [lock_rules]: "locks (L_cons # H) (consoleread_loop n i d tg m acc) H"
  by (induction n arbitrary: m acc)
     (simp_all only: consoleread_loop.simps, (rule lock_intros lock_rules | assumption)+)

lemma l_consoleread [lock_rules]: "locks H (consoleread i d n) H"
  unfolding consoleread_def by (rule lock_intros lock_rules)+

lemma l_consolewrite [lock_rules]: "locks H (consolewrite i d n) H"
  unfolding consolewrite_def by (rule lock_intros lock_rules)+

lemma l_readi_loop [lock_rules]: "locks H (readi_loop k i d n tot off acc) H"
  by (induction k arbitrary: tot off acc)
     (simp_all only: readi_loop.simps, (rule lock_intros lock_rules | assumption)+)

lemma l_readi [lock_rules]: "locks H (readi i d off n) H"
  unfolding readi_def by (rule lock_intros lock_rules)+

lemma l_writei_loop [lock_rules]: "locks H (writei_loop k i d n tot off) H"
  by (induction k arbitrary: tot off)
     (simp_all only: writei_loop.simps, (rule lock_intros lock_rules | assumption)+)

lemma l_writei [lock_rules]: "locks H (writei i d off n) H"
  unfolding writei_def by (rule lock_intros lock_rules)+

lemma l_dirlookup_loop [lock_rules]: "locks H (dirlookup_loop k i nm off) H"
  by (induction k arbitrary: off)
     (simp_all only: dirlookup_loop.simps, (rule lock_intros lock_rules | assumption)+)

lemma l_dirlookup [lock_rules]: "locks H (dirlookup i nm) H"
  unfolding dirlookup_def by (rule lock_intros lock_rules)+

lemma l_dirlink_slot [lock_rules]: "locks H (dirlink_slot k i off) H"
  by (induction k arbitrary: off)
     (simp_all only: dirlink_slot.simps, (rule lock_intros lock_rules | assumption)+)

lemma l_dirlink [lock_rules]: "locks H (dirlink i nm inum) H"
  unfolding dirlink_def by (rule lock_intros lock_rules)+

lemma l_namex_loop [lock_rules]: "locks H (namex_loop b i path nm) H"
proof (induction "length path" arbitrary: i path nm rule: less_induct)
  case less
  have IH: "locks H (namex_loop b j q n) H" if "skipelem path nm = Some x" "x = (q, n)" for x j q n
    using less that skipelem_shorter by blast
  show ?case
    by (subst namex_loop.simps) (rule lock_intros lock_rules | erule (1) IH)+
qed

lemma l_namex [lock_rules]: "locks H (namex path b nm) H"
  unfolding namex_def by (rule lock_intros lock_rules)+

lemma l_namei [lock_rules]: "locks H (namei path) H"
  unfolding namei_def by (rule lock_intros lock_rules)+

lemma l_nameiparent [lock_rules]: "locks H (nameiparent path) H"
  unfolding nameiparent_def by (rule lock_intros lock_rules)+

lemma l_file_mod [lock_rules]: "locks H (file_mod f g) H"
  unfolding file_mod_def by (intro locks_kmod) simp

lemma l_pipe_mod [lock_rules]: "locks H (pipe_mod p g) H"
  unfolding pipe_mod_def by (intro locks_kmod) simp

lemma l_file_get [lock_rules]: "locks H (file_get f g) H"
  unfolding file_get_def by (rule lock_intros lock_rules)+

lemma l_filealloc [lock_rules]: "locks H filealloc H"
  unfolding filealloc_def by (rule lock_intros lock_rules)+

lemma l_filedup [lock_rules]: "locks H (filedup f) H"
  unfolding filedup_def by (rule lock_intros lock_rules)+

lemma l_pipe_get [lock_rules]: "locks H (pipe_get p g) H"
  unfolding pipe_get_def by (rule lock_intros lock_rules)+

lemma l_pipeclose [lock_rules]: "locks H (pipeclose p w) H"
  unfolding pipeclose_def by (rule lock_intros lock_rules)+

lemma l_pipewrite_loop [lock_rules]: "locks (L_pipe p # H) (pipewrite_loop k p a n i) H"
  by (induction k arbitrary: i)
     (simp_all only: pipewrite_loop.simps, (rule lock_intros lock_rules | assumption)+)

lemma l_pipewrite [lock_rules]: "locks H (pipewrite p a n) H"
  unfolding pipewrite_def by (rule lock_intros lock_rules)+

lemma l_piperead_copy [lock_rules]: "locks H (piperead_copy k p a i) H"
  by (induction k arbitrary: i)
     (simp_all only: piperead_copy.simps, (rule lock_intros lock_rules | assumption)+)

lemma l_piperead_loop [lock_rules]: "locks (L_pipe p # H) (piperead_loop k p a n) H"
  by (induction k)
     (simp_all only: piperead_loop.simps, (rule lock_intros lock_rules | assumption)+)

lemma l_piperead [lock_rules]: "locks H (piperead p a n) H"
  unfolding piperead_def by (rule lock_intros lock_rules)+

lemma l_fileclose [lock_rules]: "locks H (fileclose f) H"
  unfolding fileclose_def by (rule lock_intros locks_fdtype lock_rules)+

lemma l_pipealloc_bad [lock_rules]: "locks H (pipealloc_bad f g) H"
  unfolding pipealloc_bad_def by (rule lock_intros lock_rules)+

lemma l_pipealloc [lock_rules]: "locks H pipealloc H"
  unfolding pipealloc_def by (rule lock_intros lock_rules)+

lemma l_store_stat [lock_rules]: "locks H (store_stat a st) H"
  unfolding store_stat_def by (rule lock_intros lock_rules)+

lemma l_filestat [lock_rules]: "locks H (filestat f a) H"
  unfolding filestat_def by (rule lock_intros lock_rules)+

lemma l_fileread [lock_rules]: "locks H (fileread f a n) H"
  unfolding fileread_def by (rule lock_intros locks_fdtype lock_rules)+

lemma l_filewrite_loop [lock_rules]: "locks H (filewrite_loop k f ip a n i) H"
  by (induction k arbitrary: i)
     (simp_all only: filewrite_loop.simps, (rule lock_intros lock_rules | assumption)+)

lemma l_filewrite [lock_rules]: "locks H (filewrite f a n) H"
  unfolding filewrite_def by (rule lock_intros locks_fdtype lock_rules)+

subsection \<open>Processes\<close>

lemma l_fields [lock_rules]:
  "locks H (kmod (\<lambda>s. s\<lparr>esp0 := e s, cr3 := c s\<rparr>)) H"
  "locks H (kmod (\<lambda>s. s\<lparr>nextpid := n\<rparr>)) H"
  "locks H (kmod (\<lambda>s. s\<lparr>initproc := i\<rparr>)) H"
  "locks H (kmod (\<lambda>s. s\<lparr>fork_first := b\<rparr>)) H"
  "locks H (kmod (\<lambda>s. s\<lparr>ticks := ticks s + 1\<rparr>)) H"
  by (rule locks_kmod, simp)+

lemma l_switchuvm [lock_rules]: "locks H (switchuvm p) H"
  unfolding switchuvm_def by (rule lock_intros lock_rules)+

lemma l_next_pid [lock_rules]: "locks H next_pid H"
  unfolding next_pid_def by (rule lock_intros lock_rules)+

lemma l_alloc_stack [lock_rules]: "locks H (alloc_stack i) H"
  unfolding alloc_stack_def by (rule lock_intros lock_rules)+

lemma l_allocproc [lock_rules]: "locks H allocproc H"
  unfolding allocproc_def by (rule lock_intros lock_rules)+

lemma l_yield [lock_rules]: "locks H yield H"
  unfolding yield_def by (rule lock_intros lock_rules)+

lemma l_kill [lock_rules]: "locks H (kill pid) H"
  unfolding kill_def by (rule lock_intros lock_rules)+

lemma l_threadkill [lock_rules]: "locks H (threadkill pid) H"
  unfolding threadkill_def by (rule lock_intros lock_rules)+

lemma l_userinit [lock_rules]: "locks H userinit H"
  unfolding userinit_def by (rule lock_intros lock_rules)+

lemma l_growproc [lock_rules]: "locks H (growproc n) H"
  unfolding growproc_def by (rule lock_intros lock_rules)+

lemma l_dup_file [lock_rules]: "locks H (dup_file c np k) H"
  unfolding dup_file_def by (rule lock_intros lock_rules)+

lemma l_dup_files [lock_rules]: "locks H (dup_files c np) H"
  unfolding dup_files_def by (rule lock_intros lock_rules)+

lemma l_undo_alloc [lock_rules]: "locks H (undo_alloc np) H"
  unfolding undo_alloc_def by (rule lock_intros lock_rules)+

lemma l_set_runnable [lock_rules]: "locks H (set_runnable np) H"
  unfolding set_runnable_def by (rule lock_intros lock_rules)+

lemma l_fork [lock_rules]: "locks H fork H"
  unfolding fork_def by (rule lock_intros lock_rules)+

lemma l_clone_fs [lock_rules]: "locks H (clone_fs c np) H"
  unfolding clone_fs_def by (rule lock_intros lock_rules)+

lemma l_clone_files [lock_rules]: "locks H (clone_files c np) H"
  unfolding clone_files_def by (rule lock_intros lock_rules)+

lemma l_clone_parent [lock_rules]: "locks H (clone_parent c np) H"
  unfolding clone_parent_def by (rule lock_intros lock_rules)+

lemma l_clone_frame [lock_rules]: "locks H (clone_frame c np cp f a st fl) H"
  unfolding clone_frame_def by (rule lock_intros lock_rules)+

lemma l_clone_setup [lock_rules]: "locks H (clone_setup c np cp f a st fl) H"
  unfolding clone_setup_def by (rule lock_intros lock_rules)+

lemma l_clone_into [lock_rules]: "locks H (clone_into c np f a st fl) H"
  unfolding clone_into_def by (rule lock_intros lock_rules)+

lemma l_clone [lock_rules]: "locks H (clone f a st fl) H"
  unfolding clone_def by (rule lock_intros lock_rules)+

text \<open>The scans of \<open>join\<close> and \<open>wait\<close> release \<open>ptable.lock\<close> themselves when they settle the call.\<close>

definition scan_locks :: "lockid list \<Rightarrow> int option \<times> bool \<Rightarrow> lockid list" where
  "scan_locks H r = (if fst r = None then L_ptable # H else H)"

lemma scan_ret: "locks_to (L_ptable # H) (kret (None, h)) (scan_locks H)" "locks_to H (kret (Some v, h)) (scan_locks H)"
  by (simp_all add: locks_to_def scan_locks_def)

lemma scan_step: "locks H m H1 \<Longrightarrow> (\<And>x. locks_to H1 (k x) K) \<Longrightarrow> locks_to H (kbind m k) K"
  "locks H m H1 \<Longrightarrow> locks_to H1 n K \<Longrightarrow> locks_to H (kthen m n) K"
  "(b \<Longrightarrow> locks_to H a K) \<Longrightarrow> (\<not> b \<Longrightarrow> locks_to H a' K) \<Longrightarrow> locks_to H (if b then a else a') K"
  by (auto simp: locks_def kthen_def intro: locks_to_kbind)

lemma locks_scan: "locks_to H m K \<Longrightarrow> (\<And>x. locks (K x) (k x) H') \<Longrightarrow> locks H (kbind m k) H'"
  unfolding locks_def by (rule locks_to_kbind)

lemma l_join_scan: "locks_to (L_ptable # H) (join_scan pid c is h) (scan_locks H)"
  by (induction "is" arbitrary: h)
     (simp_all only: join_scan.simps, (rule scan_ret scan_step lock_intros lock_rules | assumption)+)

lemma l_join_loop [lock_rules]: "locks (L_ptable # H) (join_loop k pid c) H"
proof (induction k)
  case (Suc k)
  have after: "locks (scan_locks H x) (case x of (r, havekids) \<Rightarrow> case r of
      None \<Rightarrow> kbind (proc_get c p_killed) (\<lambda>kd. if \<not> havekids \<or> kd then kthen (release L_ptable) (kret (-1))
        else kthen (sleep (ChanProc c) L_ptable) (join_loop k pid c))
    | Some v \<Rightarrow> kret v) H" for x
    by (cases x; cases "fst x"; simp add: scan_locks_def; (rule Suc lock_intros lock_rules)+)
  show ?case by (simp only: join_loop.simps) (rule locks_kbind [OF locks_kget] locks_scan [OF l_join_scan] after)+
qed (simp add: locks_NoFuel)

lemma l_join [lock_rules]: "locks H (join pid) H"
  unfolding join_def by (rule lock_intros lock_rules)+

lemma l_wait_scan: "locks_to (L_ptable # H) (wait_scan c is h) (scan_locks H)"
  by (induction "is" arbitrary: h)
     (simp_all only: wait_scan.simps, (rule scan_ret scan_step lock_intros lock_rules | assumption)+)

lemma l_wait_loop [lock_rules]: "locks (L_ptable # H) (wait_loop k c) H"
proof (induction k)
  case (Suc k)
  have after: "locks (scan_locks H x) (case x of (r, havekids) \<Rightarrow> case r of
      None \<Rightarrow> kbind (proc_get c p_killed) (\<lambda>kd. if \<not> havekids \<or> kd then kthen (release L_ptable) (kret (-1))
        else kthen (sleep (ChanProc c) L_ptable) (wait_loop k c))
    | Some v \<Rightarrow> kret v) H" for x
    by (cases x; cases "fst x"; simp add: scan_locks_def; (rule Suc lock_intros lock_rules)+)
  show ?case by (simp only: wait_loop.simps) (rule locks_kbind [OF locks_kget] locks_scan [OF l_wait_scan] after)+
qed (simp add: locks_NoFuel)

lemma l_wait [lock_rules]: "locks H wait H"
  unfolding wait_def by (rule lock_intros lock_rules)+

lemma l_exit_ofile_clone [lock_rules]: "locks H (exit_ofile_clone c) H"
  unfolding exit_ofile_clone_def by (rule lock_intros lock_rules)+

lemma l_exit_cwd_clone [lock_rules]: "locks H (exit_cwd_clone c) H"
  unfolding exit_cwd_clone_def by (rule lock_intros lock_rules)+

lemma l_exit_files [lock_rules]: "locks H (exit_files c) H"
  unfolding exit_files_def by (rule lock_intros lock_rules)+

lemma l_exit_cwd [lock_rules]: "locks H (exit_cwd c) H"
  unfolding exit_cwd_def by (rule lock_intros lock_rules)+

lemma l_reparent_one [lock_rules]: "locks H (reparent_one c i) H"
  unfolding reparent_one_def by (rule lock_intros lock_rules)+

lemma l_reparent [lock_rules]: "locks H (reparent c) H"
  unfolding reparent_def by (rule lock_intros lock_rules)+

lemma l_exit [lock_rules]: "locks H exit H'"
  unfolding exit_def by (rule lock_intros lock_rules)+

lemma l_forkret [lock_rules]: "locks (L_ptable # H) forkret H"
  unfolding forkret_def by (rule lock_intros lock_rules)+

subsection \<open>System calls on files\<close>

lemma l_fetchint [lock_rules]: "locks H (fetchint a) H"
  unfolding fetchint_def by (rule lock_intros lock_rules)+

lemma l_fetchstr_from [lock_rules]: "locks H (fetchstr_from n a) H"
  by (induction n arbitrary: a)
     (simp_all only: fetchstr_from.simps, (rule lock_intros lock_rules | assumption)+)

lemma l_fetchstr [lock_rules]: "locks H (fetchstr a) H"
  unfolding fetchstr_def by (rule lock_intros lock_rules)+

lemma l_argint [lock_rules]: "locks H (argint n) H"
  unfolding argint_def by (rule lock_intros lock_rules)+

lemma l_argptr [lock_rules]: "locks H (argptr n z) H"
  unfolding argptr_def by (rule lock_intros lock_rules)+

lemma l_argstr [lock_rules]: "locks H (argstr n) H"
  unfolding argstr_def by (rule lock_intros lock_rules)+

lemma l_open_ofile_clone [lock_rules]:
  "locks H (open_ofile_clone n c f fd) H"
  and l_open_ofile_loop: "locks H (open_ofile_loop n c f fd is) H"
  by (induction n c f fd and n c f fd "is" rule: open_ofile_clone_open_ofile_loop.induct)
     (simp_all only: open_ofile_clone.simps open_ofile_loop.simps, (rule lock_intros lock_rules | assumption | (simp; fail))+)

lemma l_close_ofile_clone [lock_rules]:
  "locks H (close_ofile_clone n c fd) H"
  and l_close_ofile_loop: "locks H (close_ofile_loop n c fd is) H"
  by (induction n c fd and n c fd "is" rule: close_ofile_clone_close_ofile_loop.induct)
     (simp_all only: close_ofile_clone.simps close_ofile_loop.simps, (rule lock_intros lock_rules | assumption | (simp; fail))+)

lemma l_pwd_clone [lock_rules]:
  "locks H (pwd_clone n c ip) H"
  and l_pwd_loop: "locks H (pwd_loop n c ip is) H"
  by (induction n c ip and n c ip "is" rule: pwd_clone_pwd_loop.induct)
     (simp_all only: pwd_clone.simps pwd_loop.simps, (rule lock_intros lock_rules | assumption | (simp; fail))+)

lemma l_argfd [lock_rules]: "locks H (argfd n) H"
  unfolding argfd_def by (rule lock_intros lock_rules)+

lemma l_fdalloc [lock_rules]: "locks H (fdalloc f) H"
  unfolding fdalloc_def by (rule lock_intros lock_rules)+

lemma l_sys_dup [lock_rules]: "locks H sys_dup H"
  unfolding sys_dup_def by (rule lock_intros lock_rules)+

lemma l_rw_args [lock_rules]: "locks H rw_args H"
  unfolding rw_args_def by (rule lock_intros lock_rules)+

lemma l_sys_read [lock_rules]: "locks H sys_read H"
  unfolding sys_read_def by (rule lock_intros lock_rules)+

lemma l_sys_write [lock_rules]: "locks H sys_write H"
  unfolding sys_write_def by (rule lock_intros lock_rules)+

lemma l_sys_close [lock_rules]: "locks H sys_close H"
  unfolding sys_close_def by (rule lock_intros lock_rules)+

lemma l_sys_fstat [lock_rules]: "locks H sys_fstat H"
  unfolding sys_fstat_def by (rule lock_intros lock_rules)+

lemma l_end_op_fail [lock_rules]: "locks H end_op_fail H"
  unfolding end_op_fail_def by (rule lock_intros lock_rules)+

lemma l_add_nlink [lock_rules]: "locks H (add_nlink i d) H"
  unfolding add_nlink_def by (rule lock_intros lock_rules)+

lemma l_sys_link_bad [lock_rules]: "locks H (sys_link_bad i) H"
  unfolding sys_link_bad_def by (rule lock_intros lock_rules)+

lemma l_sys_link [lock_rules]: "locks H sys_link H"
  unfolding sys_link_def by (rule lock_intros lock_rules)+

lemma l_isdirempty_loop [lock_rules]: "locks H (isdirempty_loop k i off) H"
  by (induction k arbitrary: off)
     (simp_all only: isdirempty_loop.simps, (rule lock_intros lock_rules | assumption)+)

lemma l_isdirempty [lock_rules]: "locks H (isdirempty i) H"
  unfolding isdirempty_def by (rule lock_intros lock_rules)+

lemma l_sys_unlink_bad [lock_rules]: "locks H (sys_unlink_bad i) H"
  unfolding sys_unlink_bad_def by (rule lock_intros lock_rules)+

lemma l_sys_unlink [lock_rules]: "locks H sys_unlink H"
  unfolding sys_unlink_def by (rule lock_intros lock_rules)+

lemma l_create [lock_rules]: "locks H (create p t a b) H"
  unfolding create_def by (rule lock_intros lock_rules)+

lemma l_sys_open_finish [lock_rules]: "locks H (sys_open_finish i m) H"
  unfolding sys_open_finish_def by (rule lock_intros lock_rules)+

lemma l_sys_open [lock_rules]: "locks H sys_open H"
  unfolding sys_open_def by (rule lock_intros lock_rules)+

lemma l_sys_mkdir [lock_rules]: "locks H sys_mkdir H"
  unfolding sys_mkdir_def by (rule lock_intros lock_rules)+

lemma l_sys_mknod [lock_rules]: "locks H sys_mknod H"
  unfolding sys_mknod_def by (rule lock_intros lock_rules)+

lemma l_sys_chdir [lock_rules]: "locks H sys_chdir H"
  unfolding sys_chdir_def by (rule lock_intros lock_rules)+

lemma l_sys_pipe [lock_rules]: "locks H sys_pipe H"
  unfolding sys_pipe_def by (rule lock_intros lock_rules)+

subsection \<open>Exec, dispatch and traps\<close>

lemma l_loaduvm_loop [lock_rules]: "locks H (loaduvm_loop k d a ip off sz i) H"
  by (induction k arbitrary: i)
     (simp_all only: loaduvm_loop.simps, (rule lock_intros lock_rules | assumption)+)

lemma l_loaduvm [lock_rules]: "locks H (loaduvm d a ip off sz) H"
  unfolding loaduvm_def by (rule lock_intros lock_rules)+

lemma l_exec_bad [lock_rules]: "locks H (exec_bad d ip) H"
  unfolding exec_bad_def by (rule lock_intros lock_rules)+

lemma l_exec_load [lock_rules]: "locks H (exec_load k d ip off sz) H"
  by (induction k arbitrary: off sz)
     (simp_all only: exec_load.simps, (rule lock_intros lock_rules | assumption)+)

lemma l_exec_args [lock_rules]: "locks H (exec_args d as sp us) H"
  by (induction as arbitrary: sp us)
     (simp_all only: exec_args.simps, (rule lock_intros lock_rules | assumption)+)

lemma l_exec_finish [lock_rules]: "locks H (exec_finish c p e as d sz) H"
  unfolding exec_finish_def by (rule lock_intros lock_rules)+

lemma l_exec [lock_rules]: "locks H (exec p as) H"
  unfolding exec_def by (rule lock_intros lock_rules)+

lemma l_fetch_argv [lock_rules]: "locks H (fetch_argv k a) H"
  by (induction k arbitrary: a)
     (simp_all only: fetch_argv.simps, (rule lock_intros lock_rules | assumption)+)

lemma l_sys_exec [lock_rules]: "locks H sys_exec H"
  unfolding sys_exec_def by (rule lock_intros lock_rules)+

lemma l_int_arg [lock_rules]: "(\<And>n. locks H (k n) H) \<Longrightarrow> locks H (int_arg k) H"
  unfolding int_arg_def by (rule lock_intros lock_rules)+

lemma l_sys_fork [lock_rules]: "locks H sys_fork H"
  unfolding sys_fork_def by (rule lock_intros lock_rules)+

lemma l_sys_exit [lock_rules]: "locks H sys_exit H"
  unfolding sys_exit_def by (rule lock_intros lock_rules)+

lemma l_sys_wait [lock_rules]: "locks H sys_wait H"
  unfolding sys_wait_def by (rule lock_intros lock_rules)+

lemma l_sys_kill [lock_rules]: "locks H sys_kill H"
  unfolding sys_kill_def by (rule lock_intros lock_rules)+

lemma l_sys_getpid [lock_rules]: "locks H sys_getpid H"
  unfolding sys_getpid_def by (rule lock_intros lock_rules)+

lemma l_sys_sbrk [lock_rules]: "locks H sys_sbrk H"
  unfolding sys_sbrk_def by (rule lock_intros lock_rules)+

lemma l_sys_sleep_loop [lock_rules]: "locks (L_ticks # H) (sys_sleep_loop k t n) H"
  by (induction k)
     (simp_all only: sys_sleep_loop.simps, (rule lock_intros lock_rules | assumption)+)

lemma l_sys_sleep [lock_rules]: "locks H sys_sleep H"
  unfolding sys_sleep_def by (rule lock_intros lock_rules)+

lemma l_sys_uptime [lock_rules]: "locks H sys_uptime H"
  unfolding sys_uptime_def by (rule lock_intros lock_rules)+

lemma l_sys_clone [lock_rules]: "locks H sys_clone H"
  unfolding sys_clone_def by (rule lock_intros lock_rules)+

lemma l_sys_join [lock_rules]: "locks H sys_join H"
  unfolding sys_join_def by (rule lock_intros lock_rules)+

lemma l_sys_gettgid [lock_rules]: "locks H sys_gettgid H"
  unfolding sys_gettgid_def by (rule lock_intros lock_rules)+

lemma l_sys_getppid [lock_rules]: "locks H sys_getppid H"
  unfolding sys_getppid_def by (rule lock_intros lock_rules)+

lemma l_sys_gettid [lock_rules]: "locks H sys_gettid H"
  unfolding sys_gettid_def by (rule lock_intros lock_rules)+

lemma l_sys_threadkill [lock_rules]: "locks H sys_threadkill H"
  unfolding sys_threadkill_def by (rule lock_intros lock_rules)+

lemma l_syscalls: "\<forall>m \<in> set syscalls. locks H m H"
  unfolding syscalls_def by (simp add: lock_rules)

lemma l_set_eax [lock_rules]: "locks H (set_eax c v) H"
  unfolding set_eax_def by (rule lock_intros lock_rules)+

lemma l_syscall [lock_rules]: "locks H syscall H"
  unfolding syscall_def
  by (rule lock_intros lock_rules | rule bspec [OF l_syscalls] nth_mem | linarith)+

lemma l_exit_if_killed [lock_rules]: "locks H exit_if_killed H"
  unfolding exit_if_killed_def by (rule lock_intros lock_rules)+

lemma l_exit_if_killed_user [lock_rules]: "locks H (exit_if_killed_user tf) H"
  unfolding exit_if_killed_user_def by (rule lock_intros lock_rules)+

lemma l_timer_tick [lock_rules]: "locks H timer_tick H"
  unfolding timer_tick_def by (rule lock_intros lock_rules)+

lemma l_trap_device [lock_rules]: "locks H (trap_device tf input cr2) H"
  unfolding trap_device_def by (rule lock_intros lock_rules)+

lemma l_trap [lock_rules]: "locks H (trap tf input cr2) H"
  unfolding trap_def by (rule lock_intros lock_rules)+

end
