(* ===== verification/System.thy ===== *)
theory System
  imports Invariants Locking
begin

text \<open>
  The kernel as a whole on one processor: \<open>main\<close> of \<open>main.c\<close> boots it, and from then on the
  scheduler of \<open>proc.c\<close> and the traps of user programs take turns. A process that gave up the
  processor is represented by the continuation it left in \<open>sched\<close>, which stands for its kernel
  stack and is filed under its process id; one that was never scheduled starts in \<open>forkret\<close>.
  The invariants of the theories \<open>Invariants\<close> and \<open>Locking\<close> are composed into an invariant of
  every reachable state.
\<close>

section \<open>Booting\<close>

text \<open>
  \<open>main\<close> without the calls that only program hardware (\<open>mpinit\<close>, \<open>lapicinit\<close>, \<open>seginit\<close>, \<open>picinit\<close>,
  \<open>ioapicinit\<close>, \<open>uartinit\<close>, \<open>tvinit\<close>, \<open>startothers\<close>) or name locks (\<open>pinit\<close>, \<open>fileinit\<close>).
\<close>

definition kmain :: "u32 \<Rightarrow> unit kk" where
  "kmain img_size =
     kbind (kget (\<lambda>s. sym_end (syms s))) (\<lambda>e.
     kthen (kinit1 e (P2V (4 * 1024 * 1024)))
     (kthen kvmalloc
     (kthen consoleinit
     (kthen binit
     (kthen (ideinit_mem img_size)
     (kthen (kinit2 (P2V (4 * 1024 * 1024)) (P2V PHYSTOP))
     (kthen userinit
     (kbind (kget cpu) (\<lambda>cid.
      cprintf (''cpu%d: starting %d'' @ [char_of (10 :: nat)]) [CInt (of_nat cid), CInt (of_nat cid)])))))))))"

text \<open>The scheduler before its first look at the table.\<close>

definition scheduler_start :: "unit kk" where
  "scheduler_start = kthen (set_cpu_proc None) (acquire L_ptable)"

section \<open>Running processes\<close>

text \<open>The processor either runs the scheduler or the user code of a process.\<close>

datatype mode = Idle | User nat

type_synonym kont = "kernel \<Rightarrow> (unit, kernel) kres"

record sys =
  sys_kern :: kernel
  sys_mode :: mode
  sys_saved :: "int \<Rightarrow> kont option"

text \<open>
  What follows a run of kernel code of process \<open>i\<close>: back to its user code, or back in the
  scheduler after \<open>swtch\<close>. A panic ends everything.
\<close>

definition settle :: "nat \<Rightarrow> (int \<Rightarrow> kont option) \<Rightarrow> (unit, kernel) kres \<Rightarrow> sys option" where
  "settle i saved r = (case r of
       Ret _ t \<Rightarrow> Some \<lparr>sys_kern = t, sys_mode = User i, sys_saved = saved\<rparr>
     | Switch t c \<Rightarrow>
         (case scheduler_back t of
            Ret _ u \<Rightarrow> Some \<lparr>sys_kern = u, sys_mode = Idle, sys_saved = saved(p_pid (proc_at i t) \<mapsto> c)\<rparr>
          | _ \<Rightarrow> None)
     | Panic e \<Rightarrow> None
     | NoFuel \<Rightarrow> None)"

definition resume :: "sys \<Rightarrow> nat \<Rightarrow> kont" where
  "resume x i = (case sys_saved x (p_pid (proc_at i (sys_kern x))) of None \<Rightarrow> forkret | Some c \<Rightarrow> c)"

text \<open>
  The steps. While the scheduler scans the table it holds \<open>ptable.lock\<close>; it lets interrupts in
  between two scans. User code is any computation on memory, which covers what the page table
  lets it touch.
\<close>

inductive sys_step :: "sys \<Rightarrow> sys \<Rightarrow> bool" where
  dispatch: "sys_mode x = Idle \<Longrightarrow> i < length (ptable (sys_kern x)) \<Longrightarrow>
     p_state (proc_at i (sys_kern x)) = RUNNABLE \<Longrightarrow> scheduler_visit i (sys_kern x) = Ret () s \<Longrightarrow>
     settle i (sys_saved x) (resume x i s) = Some y \<Longrightarrow> sys_step x y"
| user: "sys_mode x = User i \<Longrightarrow> sys_step x (x\<lparr>sys_kern := (sys_kern x)\<lparr>mem := m\<rparr>\<rparr>)"
| trapped: "sys_mode x = User i \<Longrightarrow> settle i (sys_saved x) (trap tf input cr2 (sys_kern x)) = Some y \<Longrightarrow>
     sys_step x y"
| interrupt: "sys_mode x = Idle \<Longrightarrow>
     kthen (release L_ptable) (kthen (trap tf input cr2) (acquire L_ptable)) (sys_kern x) = Ret () s \<Longrightarrow>
     sys_step x (x\<lparr>sys_kern := s\<rparr>)"

section \<open>The invariant\<close>

definition running :: "kernel \<Rightarrow> nat set" where
  "running s = {i. i < length (ptable s) \<and> p_state (proc_at i s) = RUNNING}"

definition kont_ok :: "kont \<Rightarrow> bool" where
  "kont_ok c \<longleftrightarrow> locks [L_ptable] c [] \<and> keeps (\<lambda>s t. kernel_wf s \<longrightarrow> kernel_wf t) c
     \<and> keeps (\<lambda>s t. pid_inv s \<longrightarrow> pid_inv t) c \<and> keeps no_new_running c"

definition sys_ok :: "sys \<Rightarrow> bool" where
  "sys_ok x \<longleftrightarrow> kernel_wf (sys_kern x) \<and> pid_inv (sys_kern x) \<and> cpu (sys_kern x) < length (cpu_proc (sys_kern x))
     \<and> (\<forall>pid c. sys_saved x pid = Some c \<longrightarrow> kont_ok c)
     \<and> (case sys_mode x of
          Idle \<Rightarrow> held (sys_kern x) = [L_ptable] \<and> myproc (sys_kern x) = None \<and> running (sys_kern x) = {}
        | User i \<Rightarrow> held (sys_kern x) = [] \<and> myproc (sys_kern x) = Some i \<and> running (sys_kern x) \<subseteq> {i})"

text \<open>A run of kernel code of the current process, and what the steps make of it.\<close>

definition run_ok :: "kernel \<Rightarrow> (unit, kernel) kres \<Rightarrow> bool" where
  "run_ok s r \<longleftrightarrow> lock_run (\<lambda>_. []) r \<and> stretches (\<lambda>s t. kernel_wf s \<longrightarrow> kernel_wf t) r s
     \<and> stretches (\<lambda>s t. pid_inv s \<longrightarrow> pid_inv t) r s \<and> stretches no_new_running r s"

lemma run_ok_kont: "kont_ok c \<Longrightarrow> held s = [L_ptable] \<Longrightarrow> run_ok s (c s)"
  by (simp add: kont_ok_def run_ok_def locks_def locks_to_def keeps_def)

lemma run_ok_trap: "held s = [] \<Longrightarrow> run_ok s (trap tf input cr2 s)"
  using l_trap [of "[]" tf input cr2]
  by (simp add: run_ok_def locks_def locks_to_def wf.k_trap [THEN keepsD] pid.k_trap [THEN keepsD]
      running.k_trap [THEN keepsD])

lemma kont_ok_forkret: "kont_ok forkret"
  using l_forkret [of "[]"] by (simp add: kont_ok_def wf.k_forkret pid.k_forkret running.k_forkret)

lemma run_ok_saved: "run_ok s (Switch t c) \<Longrightarrow> kont_ok c"
  by (simp add: run_ok_def kont_ok_def locks_def locks_to_def keeps_def)

lemma no_new_running_set: "no_new_running s t \<Longrightarrow> running t \<subseteq> running s"
  by (auto simp: no_new_running_def running_def)

lemma no_new_running_myproc: "no_new_running s t \<Longrightarrow> myproc t = myproc s \<and> cpu t = cpu s \<and> cpu_proc t = cpu_proc s"
  by (simp add: no_new_running_def myproc_def)

lemma settle_ok:
  assumes run: "run_ok s r" and s: "kernel_wf s" "pid_inv s" "cpu s < length (cpu_proc s)"
    "myproc s = Some i" "running s \<subseteq> {i}"
    and saved: "\<forall>pid c. saved pid = Some c \<longrightarrow> kont_ok c"
    and y: "settle i saved r = Some y"
  shows "sys_ok y"
proof (cases r)
  case (Ret v t)
  have "no_new_running s t" using run Ret by (simp add: run_ok_def)
  note same = no_new_running_myproc [OF this] no_new_running_set [OF this]
  then show ?thesis using run s saved y Ret
    by (auto simp: settle_def run_ok_def sys_ok_def)
next
  case (Switch t c)
  have n: "no_new_running s t" and a: "at_switch t" using run Switch by (simp_all add: run_ok_def)
  note same = no_new_running_myproc [OF n] no_new_running_set [OF n]
  have none: "running t = {}"
    using a same s(4,5) by (auto simp: at_switch_def running_def)
  have c: "kont_ok c" using run Switch by (auto intro: run_ok_saved)
  show ?thesis using run s saved y Switch c none a same
    by (auto simp: settle_def scheduler_back_def switchkvm_def run_ok_def sys_ok_def at_switch_def
        kernel_wf_def pid_inv_def myproc_def running_def proc_at_def split: if_splits)
qed (use y in \<open>simp_all add: settle_def\<close>)

lemma dispatch_ok:
  assumes x: "sys_ok x" "sys_mode x = Idle" "i < length (ptable (sys_kern x))"
    and run: "p_state (proc_at i (sys_kern x)) = RUNNABLE" "scheduler_visit i (sys_kern x) = Ret () s"
  shows "kernel_wf s" "pid_inv s" "cpu s < length (cpu_proc s)" "myproc s = Some i" "running s \<subseteq> {i}"
    "held s = [L_ptable]"
proof -
  let ?k = "sys_kern x"
  obtain e c where s: "s = upd_proc i (\<lambda>p. p\<lparr>p_state := RUNNING\<rparr>) (?k\<lparr>cpu_proc := (cpu_proc ?k)[cpu ?k := Some i], esp0 := e, cr3 := c\<rparr>)"
    using run by (auto simp: scheduler_visit_def switchuvm_def elim!: kthen_RetE split: if_splits)
  show "kernel_wf s" using x(1) unfolding s
    by (auto simp: sys_ok_def kernel_wf_def upd_proc_def proc_wf_def intro!: list_all_update)
  show "pid_inv s" using x(1) unfolding s by (intro pid_inv_upd) (auto simp: sys_ok_def pid_inv_def)
  show "cpu s < length (cpu_proc s)" "myproc s = Some i" "held s = [L_ptable]"
    using x(1,2) unfolding s by (auto simp: sys_ok_def myproc_def upd_proc_def)
  have "running ?k = {}" using x(1,2) by (simp add: sys_ok_def)
  then show "running s \<subseteq> {i}" unfolding s by (auto simp: running_def proc_at_upd_proc)
qed

lemma sys_step_ok: "sys_step x y \<Longrightarrow> sys_ok x \<Longrightarrow> sys_ok y"
proof (induction rule: sys_step.induct)
  case (dispatch x i s y)
  note d = dispatch_ok [OF dispatch.prems dispatch.hyps(1-4)]
  have saved: "\<forall>pid c. sys_saved x pid = Some c \<longrightarrow> kont_ok c" using dispatch.prems by (simp add: sys_ok_def)
  then have "kont_ok (resume x i)" using kont_ok_forkret by (auto simp: resume_def split: option.splits)
  from settle_ok [OF run_ok_kont [OF this d(6)] d(1-5) saved dispatch.hyps(5)] show ?case .
next
  case (user x i m)
  then show ?case by (auto simp: sys_ok_def kernel_wf_def pid_inv_def myproc_def running_def proc_at_def)
next
  case (trapped x i tf input cr2 y)
  then have "held (sys_kern x) = []" by (simp add: sys_ok_def)
  from run_ok_trap [OF this, of tf input cr2] show ?case
    by (rule settle_ok) (use trapped in \<open>auto simp: sys_ok_def\<close>)
next
  case (interrupt x tf input cr2 s)
  let ?m = "kthen (release L_ptable) (kthen (trap tf input cr2) (acquire L_ptable))"
  have x: "held (sys_kern x) = [L_ptable]" using interrupt by (simp add: sys_ok_def)
  have "locks [L_ptable] ?m [L_ptable]" by (rule lock_intros lock_rules)+
  then have h: "held s = [L_ptable]" using interrupt(2) x by (auto simp: locks_def locks_to_def)
  have "keeps (\<lambda>s t. kernel_wf s \<longrightarrow> kernel_wf t) ?m" "keeps (\<lambda>s t. pid_inv s \<longrightarrow> pid_inv t) ?m"
    "keeps no_new_running ?m"
    by (intro wf_files.keeps_intros wf.k_trap wf_files.k_release wf_files.k_acquire
        pid_files.keeps_intros pid.k_trap pid_files.k_release pid_files.k_acquire
        running_files.keeps_intros running.k_trap running_files.k_release running_files.k_acquire)+
  from this [THEN keeps_RetD, OF interrupt(2)] show ?case using h interrupt
    by (auto simp: sys_ok_def dest: no_new_running_myproc no_new_running_set)
qed

lemma sys_steps_ok: "sys_step\<^sup>*\<^sup>* x y \<Longrightarrow> sys_ok x \<Longrightarrow> sys_ok y"
  by (induction rule: rtranclp_induct) (auto intro: sys_step_ok)

section \<open>Boot establishes the invariant\<close>

definition start :: "kernel \<Rightarrow> sys" where
  "start s = \<lparr>sys_kern = s, sys_mode = Idle, sys_saved = (\<lambda>_. None)\<rparr>"

lemma binit_app:
  "\<exists>bs. binit s = Ret () (s\<lparr>bufs := bs, blru := rev [0 ..< NBUF]\<rparr>) \<and> length bs = length (bufs s)"
proof -
  define f where "f = (\<lambda>i. kthen (initsleeplock (SL_Buf i)) (kmod (\<lambda>s. s\<lparr>blru := i # blru s\<rparr>)))"
  have f: "f i s = Ret () (s\<lparr>bufs := (bufs s)[i := (bufs s ! i)\<lparr>b_lock := \<lparr>sl_locked = False, sl_pid = 0\<rparr>\<rparr>],
      blru := i # blru s\<rparr>)" for i s
    by (simp add: f_def initsleeplock_def upd_sl_def)
  have "\<exists>bs. kfor xs f s = Ret () (s\<lparr>bufs := bs, blru := rev xs @ blru s\<rparr>) \<and> length bs = length (bufs s)" for xs s
  proof (induction xs arbitrary: s)
    case Nil
    show ?case by (rule exI [of _ "bufs s"]) simp
  next
    case (Cons i xs)
    define u where "u = s\<lparr>bufs := (bufs s)[i := (bufs s ! i)\<lparr>b_lock := \<lparr>sl_locked = False, sl_pid = 0\<rparr>\<rparr>], blru := i # blru s\<rparr>"
    obtain bs where "kfor xs f u = Ret () (u\<lparr>bufs := bs, blru := rev xs @ blru u\<rparr>)" "length bs = length (bufs u)"
      using Cons [of u] by blast
    then show ?case by (intro exI [of _ bs]) (simp add: f [of i s] u_def)
  qed
  from this [of "[0 ..< NBUF]" "s\<lparr>blru := []\<rparr>"] show ?thesis by (simp add: binit_def f_def [symmetric])
qed

locale boot_frame = kernel_frame R for R :: "kernel \<Rightarrow> kernel \<Rightarrow> bool" +
  assumes R_use_lock: "R s (s\<lparr>use_lock := b\<rparr>)"
    and R_kpgdir: "R s (s\<lparr>kpgdir := d\<rparr>)"
    and R_kvm: "R s (s\<lparr>cr3 := c\<rparr>)"
    and R_devsw: "R s (s\<lparr>devsw := dv, cons_locking := b\<rparr>)"
    and R_disksize: "R s (s\<lparr>disksize := n\<rparr>)"
    and R_binit: "R s (s\<lparr>bufs := bs, blru := rev [0 ..< NBUF]\<rparr>) \<or> length bs \<noteq> length (bufs s)"
begin

lemma k_binit: "keeps R binit"
proof (rule keepsI)
  fix s
  obtain bs where "binit s = Ret () (s\<lparr>bufs := bs, blru := rev [0 ..< NBUF]\<rparr>)" "length bs = length (bufs s)"
    using binit_app [of s] by auto
  then show "stretches R (binit s) s" using R_binit [of s bs] by simp
qed

lemma k_freerange_from: "keeps R (freerange_from n p e)"
  by (induction n arbitrary: p)
     (simp_all only: freerange_from.simps, (intro keeps_intros k_kfree; assumption)+)

lemma k_kmain: "keeps R (kmain img)"
  unfolding kmain_def kinit1_def kinit2_def freerange_def kvmalloc_def switchkvm_def consoleinit_def ideinit_mem_def
  by (intro keeps_intros k_freerange_from k_binit k_userinit k_cprintf k_vm
      keeps_kmod R_use_lock R_kpgdir R_kvm R_devsw R_disksize)

end

lemma distinct_boot_lru: "distinct (rev [0 ..< NBUF])"
  by simp

interpretation wf_boot: boot_frame "\<lambda>s t. kernel_wf s \<longrightarrow> kernel_wf t"
  by unfold_locales (auto simp: kernel_wf_def)

interpretation pid_boot: boot_frame "\<lambda>s t. pid_inv s \<longrightarrow> pid_inv t"
  by unfold_locales (auto simp: pid_inv_def)

interpretation running_boot: boot_frame no_new_running
  by unfold_locales (auto simp: running_cong)

lemma l_boot [lock_rules]:
  "locks H (kmod (\<lambda>s. s\<lparr>use_lock := b\<rparr>)) H" "locks H (kmod (\<lambda>s. s\<lparr>kpgdir := d\<rparr>)) H"
  "locks H switchkvm H" "locks H consoleinit H" "locks H (ideinit_mem n) H"
  unfolding switchkvm_def consoleinit_def ideinit_mem_def by (rule locks_kmod, simp)+

lemma l_binit [lock_rules]: "locks H binit H"
proof -
  have "lock_run (\<lambda>_. held s) (binit s)" for s using binit_app [of s] by auto
  then show ?thesis by (auto simp: locks_def locks_to_def)
qed

lemma l_freerange_from [lock_rules]: "locks H (freerange_from n p e) H"
  by (induction n arbitrary: p)
     (simp_all only: freerange_from.simps, (rule lock_intros lock_rules | assumption)+)

lemma l_kmain: "locks H (kmain img) H"
  unfolding kmain_def kinit1_def kinit2_def freerange_def kvmalloc_def
  by (rule lock_intros lock_rules)+

lemma boot_kernel_ok: "kernel_wf (boot_kernel y m d n)" "pid_inv (boot_kernel y m d n)"
  "myproc (boot_kernel y m d n) = None" "running (boot_kernel y m d n) = {}"
  "cpu (boot_kernel y m d n) < length (cpu_proc (boot_kernel y m d n))"
  by (auto simp: boot_kernel_def kernel_wf_def proc_wf_def zero_proc_def pid_inv_def pids_ok_def myproc_def
      running_def proc_at_def NCPU_def list_all_iff)

lemma kmain_ok:
  "wlp (kthen (kmain img) scheduler_start) (\<lambda>_ s. sys_ok (start s)) (\<lambda>_. False) (boot_kernel y m d n)"
proof -
  let ?s = "boot_kernel y m d n"
  note run = wf_boot.k_kmain [THEN keepsD, of img ?s] pid_boot.k_kmain [THEN keepsD, of img ?s]
    running_boot.k_kmain [THEN keepsD, of img ?s]
  have lk: "lock_run (\<lambda>_. []) (kmain img ?s)"
    using l_kmain [of "[]" img] by (simp add: locks_def locks_to_def boot_kernel_def)
  show ?thesis
  proof (cases "kmain img ?s")
    case (Ret v t)
    have t: "kernel_wf t" "pid_inv t" "no_new_running ?s t" "held t = []"
      using run lk boot_kernel_ok(1,2) [of y m d n] Ret by auto
    note same = no_new_running_myproc [OF t(3)] no_new_running_set [OF t(3)]
    have "sys_ok (start (t\<lparr>cpu_proc := (cpu_proc t)[cpu t := None], held := [L_ptable]\<rparr>))"
      using t same boot_kernel_ok [of y m d n]
      by (auto simp: sys_ok_def start_def kernel_wf_def pid_inv_def myproc_def running_def proc_at_def)
    then show ?thesis using Ret t(4) by (simp add: wlp_def scheduler_start_def acquire_app)
  next
    case (Switch t c)
    then have "myproc t = None" "at_switch t" using run(3) lk boot_kernel_ok(3) [of y m d n]
      by (auto dest: no_new_running_myproc)
    then show ?thesis by (simp add: at_switch_def)
  qed (simp_all add: wlp_def kthen_def kbind_def)
qed

section \<open>Properties of every reachable state\<close>




text \<open>
  C13: Every trap, whatever it is, returns with exactly the spin locks held that it was entered with, and
  whenever it gives up the processor on the way it holds exactly \<open>ptable.lock\<close> and its process is
  not \<open>RUNNING\<close>.
\<close>

theorem trap_lock_balance: "locks H (trap tf input cr2) H"
  by (rule l_trap)

subsection \<open>An example run\<close>

text \<open>A freshly booted kernel with one process ready to run, and the state after it was dispatched.\<close>

definition ready_proc :: proc where
  "ready_proc = zero_proc\<lparr>p_state := RUNNABLE, p_pid := 1, p_kstack := 0x80500000, p_pgdir := 0x80501000\<rparr>"

definition ready_kernel :: kernel where
  "ready_kernel = (boot_kernel \<lparr>sym_end = 0, sym_data = 0, sym_forkret = 0, sym_trapret = 0,
       sym_initcode = (\<lambda>_. 0), sym_initcode_size = 0\<rparr> (\<lambda>_. 0) (\<lambda>_ _. 0) 0)
     \<lparr>ptable := ready_proc # replicate 63 zero_proc, nextpid := 2, fork_first := False, held := [L_ptable]\<rparr>"

definition dispatched_kernel :: kernel where
  "dispatched_kernel = ready_kernel\<lparr>ptable := ready_proc\<lparr>p_state := RUNNING\<rparr> # replicate 63 zero_proc,
     cpu_proc := (cpu_proc ready_kernel)[0 := Some 0], esp0 := 0x80500000 + KSTACKSIZE, cr3 := V2P 0x80501000, held := []\<rparr>"

definition dispatched :: sys where
  "dispatched = \<lparr>sys_kern = dispatched_kernel, sys_mode = User 0, sys_saved = (\<lambda>_. None)\<rparr>"

lemma ready_ok: "sys_ok (start ready_kernel)"
  by (auto simp: sys_ok_def start_def ready_kernel_def boot_kernel_def kernel_wf_def proc_wf_def ready_proc_def
      zero_proc_def pid_inv_def pids_ok_def myproc_def running_def proc_at_def list_all_iff nth_Cons' NCPU_def NPROC_def)

lemma ready_step: "sys_step (start ready_kernel) dispatched"
proof (rule sys_step.dispatch)
  show "sys_mode (start ready_kernel) = Idle" by (simp add: start_def)
  show "0 < length (ptable (sys_kern (start ready_kernel)))" by (simp add: start_def ready_kernel_def)
  show "p_state (proc_at 0 (sys_kern (start ready_kernel))) = RUNNABLE"
    by (simp add: start_def ready_kernel_def proc_at_def ready_proc_def)
  show "scheduler_visit 0 (sys_kern (start ready_kernel)) = Ret () (dispatched_kernel\<lparr>held := [L_ptable]\<rparr>)"
    by (simp add: scheduler_visit_def switchuvm_def start_def ready_kernel_def dispatched_kernel_def proc_at_def
        ready_proc_def upd_proc_def boot_kernel_def)
  show "settle 0 (sys_saved (start ready_kernel)) (resume (start ready_kernel) 0 (dispatched_kernel\<lparr>held := [L_ptable]\<rparr>))
      = Some dispatched"
    by (simp add: settle_def resume_def start_def forkret_def release_app dispatched_def dispatched_kernel_def
        ready_kernel_def boot_kernel_def)
qed

lemma ready_steps: "sys_step\<^sup>*\<^sup>* (start ready_kernel) dispatched"
  using ready_step by (rule r_into_rtranclp)



end
