(* ===== verification/Threads.thy ===== *)
theory Threads
  imports System
begin

text \<open>
  What the operations on processes and threads of \<open>proc.c\<close> do: \<open>sleep\<close>, \<open>kill\<close>, \<open>threadkill\<close>,
  \<open>allocproc\<close>, \<open>clone\<close>, \<open>join\<close>, \<open>exit\<close>, on every branch.
\<close>

section \<open>Looking up a process by its id\<close>

lemma pid_unique:
  "pid_inv s \<Longrightarrow> i < length (ptable s) \<Longrightarrow> j < length (ptable s) \<Longrightarrow> p_pid (proc_at i s) = p_pid (proc_at j s) \<Longrightarrow>
   p_pid (proc_at i s) \<noteq> 0 \<Longrightarrow> i = j"
  by (auto simp: pid_inv_def pids_ok_def proc_at_def)

lemma first_index_unique:
  assumes "i < length xs" "P (xs ! i)" "\<And>j. j < length xs \<Longrightarrow> P (xs ! j) \<Longrightarrow> j = i"
  shows "first_index P xs = Some i"
proof -
  have "\<not> P (xs ! j)" if "j < i" for j using assms(1) assms(3) [of j] that by auto
  then show ?thesis using assms(1,2) by (simp add: first_index_Some)
qed

text \<open>An update of the only entry with a property is an update of every entry with it.\<close>

lemma upd_proc_map:
  assumes "i < length (ptable s)" "P (proc_at i s)" "\<And>j. j < length (ptable s) \<Longrightarrow> P (proc_at j s) \<Longrightarrow> j = i"
  shows "upd_proc i f s = s\<lparr>ptable := map (\<lambda>p. if P p then f p else p) (ptable s)\<rparr>"
proof -
  have "(ptable s)[i := f (ptable s ! i)] ! j = map (\<lambda>p. if P p then f p else p) (ptable s) ! j"
    if "j < length (ptable s)" for j
    using assms(1,2) assms(3) [OF that] that by (cases "j = i") (auto simp: proc_at_def)
  then have "(ptable s)[i := f (ptable s ! i)] = map (\<lambda>p. if P p then f p else p) (ptable s)"
    by (intro nth_equalityI) simp_all
  then show ?thesis by (simp add: upd_proc_def)
qed

section \<open>Killing\<close>

text \<open>The search and the update that \<open>kill\<close> and \<open>threadkill\<close> share.\<close>

lemma kill_first:
  assumes "\<And>i j. i < length (ptable s) \<Longrightarrow> j < length (ptable s) \<Longrightarrow> P (proc_at i s) \<Longrightarrow> P (proc_at j s) \<Longrightarrow> i = j"
  shows "(case first_index P (ptable s) of Some i \<Rightarrow> Ret 0 (upd_proc i kill_proc s) | None \<Rightarrow> Ret (-1 :: int) s) =
    (if \<exists>p \<in> set (ptable s). P p then Ret 0 (s\<lparr>ptable := map (\<lambda>p. if P p then kill_proc p else p) (ptable s)\<rparr>)
     else Ret (-1) s)"
proof (cases "first_index P (ptable s)")
  case None
  then have "\<not> (\<exists>p \<in> set (ptable s). P p)" by simp
  with None show ?thesis by (simp del: first_index_None)
next
  case (Some i)
  note i = first_indexD(1,2) [OF Some]
  then have "upd_proc i kill_proc s = s\<lparr>ptable := map (\<lambda>p. if P p then kill_proc p else p) (ptable s)\<rparr>"
    by (intro upd_proc_map) (simp_all add: proc_at_def assms [of _ i, unfolded proc_at_def])
  then show ?thesis using Some i by auto
qed

lemma kill_app:
  "L_ptable \<notin> set (held s) \<Longrightarrow> kill pid s = (case first_index (\<lambda>p. p_pid p = pid) (ptable s) of
     Some i \<Rightarrow> Ret 0 (upd_proc i kill_proc s) | None \<Rightarrow> Ret (-1) s)"
  by (cases "first_index (\<lambda>p. p_pid p = pid) (ptable s)")
     (simp_all add: kill_def acquire_app release_app upd_proc_def del: first_index_None)

lemma threadkill_app:
  "L_ptable \<notin> set (held s) \<Longrightarrow> threadkill pid s =
    (case first_index (\<lambda>p. p_pid p = pid \<and> p_isThread p) (ptable s) of
       Some i \<Rightarrow> Ret 0 (upd_proc i kill_proc s) | None \<Rightarrow> Ret (-1) s)"
  by (cases "first_index (\<lambda>p. p_pid p = pid \<and> p_isThread p) (ptable s)")
     (simp_all add: threadkill_def acquire_app release_app upd_proc_def del: first_index_None)



section \<open>Sleeping\<close>

lemma sleep_app:
  assumes "myproc s = Some i" "held s = [lk]" "lk \<noteq> L_ptable" "i < length (ptable s)"
  shows "sleep ch lk s = Switch ((upd_proc i (\<lambda>q. q\<lparr>p_chan := ch, p_state := SLEEPING\<rparr>) s)\<lparr>held := [L_ptable]\<rparr>)
    (kthen (kret ()) (kthen (proc_mod i (\<lambda>q. q\<lparr>p_chan := NoChan\<rparr>)) (kthen (release L_ptable) (acquire lk))))"
proof -
  let ?t = "(upd_proc i (\<lambda>q. q\<lparr>p_chan := ch, p_state := SLEEPING\<rparr>) s)\<lparr>held := [L_ptable]\<rparr>"
  have "sched ?t = Switch ?t (kret ())"
    by (rule sched_app [of _ i]) (use assms in \<open>simp_all add: myproc_def upd_proc_def proc_at_def\<close>)
  moreover have "upd_proc i (\<lambda>q. q\<lparr>p_chan := ch, p_state := SLEEPING\<rparr>) (s\<lparr>held := [L_ptable]\<rparr>) = ?t"
    by (simp add: upd_proc_def)
  ultimately show ?thesis using assms by (simp add: sleep_def acquire_app release_app)
qed


section \<open>Exit\<close>

text \<open>A run that never gets to its end, however often it is resumed.\<close>

primrec never_returns :: "('a, 's) kres \<Rightarrow> bool" where
  "never_returns (Ret x t) \<longleftrightarrow> False"
| "never_returns (Switch t c) \<longleftrightarrow> (\<forall>u. never_returns (c u))"
| "never_returns (Panic e) \<longleftrightarrow> True"
| "never_returns NoFuel \<longleftrightarrow> True"

lemma never_returns_first: "never_returns (m s) \<Longrightarrow> never_returns (kbind m k s)"
proof -
  have "never_returns r \<Longrightarrow> never_returns (kres_bind r k)" for r by (induction r) auto
  then show "never_returns (m s) \<Longrightarrow> never_returns (kbind m k s)" by (simp add: kbind_def)
qed

lemma never_returns_rest: "(\<And>x t. never_returns (k x t)) \<Longrightarrow> never_returns (kbind m k s)"
proof -
  assume k: "\<And>x t. never_returns (k x t)"
  have "never_returns (kres_bind r k)" for r by (induction r) (auto simp: k)
  then show ?thesis by (simp add: kbind_def)
qed

lemma never_returns_kthen:
  "never_returns (m s) \<Longrightarrow> never_returns (kthen m k s)"
  "(\<And>t. never_returns (k t)) \<Longrightarrow> never_returns (kthen m k s)"
  by (simp_all add: kthen_def never_returns_first never_returns_rest)

lemma never_returns_if:
  "(b \<Longrightarrow> never_returns (m s)) \<Longrightarrow> (\<not> b \<Longrightarrow> never_returns (k s)) \<Longrightarrow> never_returns ((if b then m else k) s)"
  by simp

lemma exit_never_returns: "never_returns (exit s)"
  unfolding exit_def
  by (intro never_returns_rest never_returns_kthen(2) never_returns_if) simp_all

text \<open>
  C14: A process that has been killed never gets back to user code from a system call: the call is
  not executed and the run of the kernel on its behalf never returns, however often it is resumed.
\<close>

theorem killed_never_returns:
  assumes "myproc s = Some c" "p_killed (proc_at c s)" "tf_trapno tf = T_SYSCALL"
  shows "never_returns (trap tf input cr2 s)"
proof -
  have "exit_if_killed s = exit s" using assms(1,2) by (simp add: exit_if_killed_def curproc_def)
  then show ?thesis using assms(3) exit_never_returns [of s]
    by (simp add: trap_def never_returns_kthen(1))
qed

text \<open>Handing the children of a process to \<open>init\<close>.\<close>

lemma wakeup1_parents: "\<exists>t. wakeup1 ch s = Ret () t \<and> length (ptable t) = length (ptable s) \<and> initproc t = initproc s
    \<and> (\<forall>j < length (ptable s). p_parent (proc_at j t) = p_parent (proc_at j s))"
  by (simp add: wakeup1_def proc_at_def)

definition parents_moved :: "nat \<Rightarrow> nat set \<Rightarrow> kernel \<Rightarrow> kernel \<Rightarrow> bool" where
  "parents_moved c A s t \<longleftrightarrow> length (ptable t) = length (ptable s) \<and> initproc t = initproc s
     \<and> (\<forall>j < length (ptable s). p_parent (proc_at j t) =
          (if j \<in> A \<and> p_parent (proc_at j s) = Some c then initproc s else p_parent (proc_at j s)))"

lemma reparent_one_app:
  assumes i: "i < length (ptable s)"
  shows "\<exists>t. reparent_one c i s = Ret () t \<and> parents_moved c {i} s t"
proof (cases "p_parent (proc_at i s) = Some c \<and> p_state (proc_at i s) = ZOMBIE")
  case True
  let ?u = "upd_proc i (\<lambda>q. q\<lparr>p_parent := initproc s\<rparr>) s"
  obtain t where "wakeup1 (chan_of_proc (initproc s)) ?u = Ret () t"
    "length (ptable t) = length (ptable s)" "initproc t = initproc s"
    "\<forall>j < length (ptable s). p_parent (proc_at j t) = p_parent (proc_at j ?u)"
    using wakeup1_parents [of "chan_of_proc (initproc s)" ?u] by (auto simp: upd_proc_def)
  then show ?thesis using True i by (auto simp: reparent_one_def parents_moved_def)
next
  case False
  then show ?thesis using i
    by (cases "p_parent (proc_at i s) = Some c")
       (auto simp: reparent_one_def parents_moved_def upd_proc_def proc_at_def)
qed

lemma reparent_loop:
  assumes "\<forall>i \<in> set is. i < length (ptable s)" "Some c \<noteq> initproc s"
  shows "\<exists>t. kfor is (reparent_one c) s = Ret () t \<and> parents_moved c (set is) s t"
  using assms
proof (induction "is" arbitrary: s)
  case Nil
  then show ?case by (simp add: parents_moved_def)
next
  case (Cons i "is")
  obtain u where u: "reparent_one c i s = Ret () u" "parents_moved c {i} s u"
    using reparent_one_app [of i s c] Cons.prems(1) by auto
  then obtain t where "kfor is (reparent_one c) u = Ret () t" "parents_moved c (set is) u t"
    using Cons.IH [of u] Cons.prems by (auto simp: parents_moved_def)
  then show ?case using u Cons.prems(2) by (intro exI [of _ t]) (auto simp: parents_moved_def)
qed


section \<open>Joining a thread\<close>

definition joinable :: "nat \<Rightarrow> nat \<Rightarrow> kernel \<Rightarrow> bool" where
  "joinable c i s \<longleftrightarrow> p_parent (proc_at i s) = Some c \<and> p_isThread (proc_at i s)
     \<and> p_tgid (proc_at i s) = p_tgid (proc_at c s)"

definition reaped :: "proc \<Rightarrow> proc" where
  "reaped q = q\<lparr>p_kstack := 0, p_pid := 0, p_tgid := 0, p_parent := None, p_name := set_byte0 (p_name q),
     p_killed := False, p_pthread := None, p_state := UNUSED\<rparr>"

lemma join_scan_skip:
  "\<forall>j \<in> set is. p_pid (proc_at j s) \<noteq> pid \<Longrightarrow> join_scan pid c (is @ js) h s = join_scan pid c js h s"
  by (induction "is" arbitrary: h) auto

lemma join_scan_none: "\<forall>j \<in> set is. p_pid (proc_at j s) \<noteq> pid \<Longrightarrow> join_scan pid c is h s = Ret (None, h) s"
  using join_scan_skip [of "is" s pid c "[]"] by simp

lemma upto_split: "i < n \<Longrightarrow> [0 ..< n] = [0 ..< i] @ i # [Suc i ..< n]"
  by (metis le_add_diff_inverse less_imp_le_nat upt_add_eq_append upt_conv_Cons zero_le)

text \<open>The scan of \<open>join\<close> when exactly one entry has the id.\<close>

lemma join_scan_at:
  assumes "i < n" "p_pid (proc_at i s) = pid" "\<And>j. j < n \<Longrightarrow> p_pid (proc_at j s) = pid \<Longrightarrow> j = i"
  shows "join_scan pid c [0 ..< n] False s =
    (if \<not> joinable c i s then kthen (release L_ptable) (kret (Some (-1), False)) s
     else if p_state (proc_at i s) = ZOMBIE then
       kthen (kfree (p_kstack (proc_at i s))) (kthen (proc_mod i reaped) (kthen (release L_ptable) (kret (Some pid, True)))) s
     else Ret (None, True) s)"
proof -
  have other: "p_pid (proc_at j s) \<noteq> pid" if "j < n" "j \<noteq> i" for j using assms(3) that by blast
  have before: "\<forall>j \<in> set [0 ..< i]. p_pid (proc_at j s) \<noteq> pid"
    using assms(1) by (simp add: other)
  have after: "\<forall>j \<in> set [Suc i ..< n]. p_pid (proc_at j s) \<noteq> pid"
    by (simp add: other)
  show ?thesis unfolding upto_split [OF assms(1)] join_scan_skip [OF before]
    using assms(2) join_scan_none [OF after]
    by (auto simp: joinable_def reaped_def [abs_def])
qed

lemma join_app:
  assumes "myproc s = Some c" "held s = []"
  shows "join pid s = join_loop (Suc (fuel s)) pid c (s\<lparr>held := [L_ptable]\<rparr>)"
  using assms by (simp add: join_def curproc_def acquire_app del: join_loop.simps)

lemma sleep_ptable:
  assumes "myproc s = Some c" "held s = [L_ptable]" "c < length (ptable s)"
  shows "sleep ch L_ptable s = Switch (upd_proc c (\<lambda>q. q\<lparr>p_chan := ch, p_state := SLEEPING\<rparr>) s)
    (kthen (kret ()) (kthen (proc_mod c (\<lambda>q. q\<lparr>p_chan := NoChan\<rparr>)) (kret ())))"
proof -
  let ?t = "upd_proc c (\<lambda>q. q\<lparr>p_chan := ch, p_state := SLEEPING\<rparr>) s"
  have "sched ?t = Switch ?t (kret ())"
    by (rule sched_app [of _ c]) (use assms in \<open>simp_all add: upd_proc_def proc_at_def myproc_def\<close>)
  then show ?thesis using assms(1) by (simp add: sleep_def)
qed


section \<open>Example states\<close>

text \<open>A kernel with the given processes at the start of its table, the first of them current.\<close>

definition demo :: "proc list \<Rightarrow> kernel" where
  "demo ps = (boot_kernel \<lparr>sym_end = 0, sym_data = 0, sym_forkret = 0, sym_trapret = 0,
       sym_initcode = (\<lambda>_. 0), sym_initcode_size = 0\<rparr> (\<lambda>_. 0) (\<lambda>_ _. 0) 0)
     \<lparr>ptable := ps @ replicate (NPROC - length ps) zero_proc, nextpid := 10, cpu_proc := Some 0 # replicate 7 None\<rparr>"

definition demo_main :: proc where
  "demo_main = zero_proc\<lparr>p_state := RUNNING, p_pid := 1, p_tgid := 1\<rparr>"

definition demo_thread :: "procstate \<Rightarrow> proc" where
  "demo_thread st = zero_proc\<lparr>p_state := st, p_pid := 2, p_tgid := 1, p_parent := Some 0, p_isThread := True,
     p_pthread := Some 0, p_kstack := 0x80500000\<rparr>"

lemma demo_simps [simp]:
  "held (demo ps) = []" "myproc (demo ps) = Some 0" "initproc (demo ps) = None" "sym_end (syms (demo ps)) = 0"
  "length ps \<le> NPROC \<Longrightarrow> length (ptable (demo ps)) = NPROC"
  "i < length ps \<Longrightarrow> proc_at i (demo ps) = ps ! i"
  by (simp_all add: demo_def boot_kernel_def myproc_def proc_at_def nth_append)

lemma demo_thread_simps [simp]:
  "p_state (demo_thread st) = st" "p_pid (demo_thread st) = 2" "p_parent (demo_thread st) = Some 0"
  "p_isThread (demo_thread st)" "p_kstack (demo_thread st) = 0x80500000" "p_tgid (demo_thread st) = 1"
  by (simp_all add: demo_thread_def)

lemma pids_ok_zeros: "pids_ok n ps \<Longrightarrow> pids_ok n (ps @ replicate k 0)"
  by (auto simp: pids_ok_def nth_append)

lemma demo_pid_inv: "pids_ok 10 (map p_pid ps) \<Longrightarrow> pid_inv (demo ps)"
  by (simp add: pid_inv_def demo_def pids_ok_zeros zero_proc_def)

lemma demo_pids: "pid_inv (demo [demo_main, demo_thread st])"
  by (rule demo_pid_inv) (simp add: pids_ok_def demo_main_def demo_thread_def less_Suc_eq)




theorem killed_never_returns_witness:
  "myproc (demo [demo_main\<lparr>p_killed := True\<rparr>]) = Some 0 \<and>
   never_returns (trap (zero_trapframe\<lparr>tf_trapno := T_SYSCALL\<rparr>) [] 0 (demo [demo_main\<lparr>p_killed := True\<rparr>]))"
  using killed_never_returns [of "demo [demo_main\<lparr>p_killed := True\<rparr>]" 0 "zero_trapframe\<lparr>tf_trapno := T_SYSCALL\<rparr>" "[]" 0]
  by simp



end
