(* ===== verification/Sharing.thy ===== *)
theory Sharing
  imports Threads
begin

text \<open>
  The propagation of an opened file, a closed file or a new working directory to the threads that
  share it (\<open>open_ofile_clone\<close>, \<open>close_ofile_clone\<close> and \<open>pwd_clone\<close> of \<open>sysfile.c\<close>). The three
  functions have one shape: for each sharer in a table, stop if it has the change already, otherwise
  make it and recurse. The locale states that shape once; inside it the recursion is shown to end
  within the depth the model allows and to reach the first sharer of the table.
\<close>

section \<open>The common shape\<close>

locale propagation =
  fixes spread :: "nat \<Rightarrow> nat \<Rightarrow> unit kk"
    and loop :: "nat \<Rightarrow> nat \<Rightarrow> nat list \<Rightarrow> unit kk"
    and peers :: "nat \<Rightarrow> kernel \<Rightarrow> pptr list"
    and isset :: "nat \<Rightarrow> kernel \<Rightarrow> bool"
    and mark :: "nat \<Rightarrow> kernel \<Rightarrow> kernel"
    and ok :: "kernel \<Rightarrow> bool"
  assumes spread_Suc: "spread (Suc n) c = loop n c [0 ..< NPROC]"
    and loop_Nil: "loop n c [] s = Ret () s"
    and loop_Cons: "loop n c (i # is) s = (case peers c s ! i of
         None \<Rightarrow> loop n c is s
       | Some q \<Rightarrow> if q = c then loop n c is s else if isset q s then Ret () s
           else kthen (spread n q) (loop n c is) (mark q s))"
    and ok_mark: "ok s \<Longrightarrow> q < NPROC \<Longrightarrow> ok (mark q s)"
    and isset_mark: "ok s \<Longrightarrow> q < NPROC \<Longrightarrow> isset p (mark q s) \<longleftrightarrow> p = q \<or> isset p s"
    and peers_mark: "peers p (mark q s) = peers p s"
    and peers_ok: "ok s \<Longrightarrow> c < NPROC \<Longrightarrow> i < NPROC \<Longrightarrow> peers c s ! i = Some q \<Longrightarrow> q < NPROC"
begin

text \<open>The processes that do not have the change yet.\<close>

definition unset :: "kernel \<Rightarrow> nat set" where
  "unset s = {q. q < NPROC \<and> \<not> isset q s}"

lemma finite_unset: "finite (unset s)"
  by (simp add: unset_def)

text \<open>What a run gives: nothing is undone, and the tables of sharers stay.\<close>

definition grows :: "kernel \<Rightarrow> kernel \<Rightarrow> bool" where
  "grows s t \<longleftrightarrow> ok t \<and> unset t \<subseteq> unset s \<and> (\<forall>p. peers p t = peers p s)"

lemma grows_trans: "grows s t \<Longrightarrow> grows t u \<Longrightarrow> grows s u"
  by (auto simp: grows_def)

lemma grows_card: "grows s t \<Longrightarrow> card (unset t) \<le> card (unset s)"
  by (simp add: grows_def card_mono finite_unset)

lemma mark_grows:
  assumes "ok s" "q < NPROC" "\<not> isset q s"
  shows "grows s (mark q s)" "card (unset (mark q s)) < card (unset s)" "isset q (mark q s)"
proof -
  have eq: "unset (mark q s) = unset s - {q}" using assms by (auto simp: unset_def isset_mark)
  have "q \<in> unset s" using assms by (simp add: unset_def)
  then show "card (unset (mark q s)) < card (unset s)"
    unfolding eq by (rule card_Diff1_less [OF finite_unset])
  show "grows s (mark q s)" using assms eq by (simp add: grows_def ok_mark peers_mark Diff_subset)
  show "isset q (mark q s)" using assms by (simp add: isset_mark)
qed

lemma loop_total:
  assumes IH: "\<And>q t. q < NPROC \<Longrightarrow> ok t \<Longrightarrow> card (unset t) < n \<Longrightarrow> \<exists>u. spread n q t = Ret () u \<and> grows t u"
    and "ok s" "c < NPROC" "\<forall>i \<in> set is. i < NPROC" "card (unset s) \<le> n"
  shows "\<exists>t. loop n c is s = Ret () t \<and> grows s t"
  using assms(2-)
proof (induction "is" arbitrary: s)
  case Nil
  then show ?case by (simp add: loop_Nil grows_def)
next
  case (Cons i "is")
  have rec: "\<exists>t. loop n c is u = Ret () t \<and> grows s t" if "grows s u" for u
    using Cons.IH [of u] Cons.prems that grows_card [OF that] grows_trans [OF that] by (auto simp: grows_def)
  have refl: "grows s s" using Cons.prems by (simp add: grows_def)
  show ?case
  proof (cases "\<exists>q. peers c s ! i = Some q \<and> q \<noteq> c \<and> \<not> isset q s")
    case False
    then show ?thesis using rec [OF refl] refl by (auto simp: loop_Cons split: option.splits)
  next
    case True
    then obtain q where q: "peers c s ! i = Some q" "q \<noteq> c" "\<not> isset q s" by blast
    then have "q < NPROC" using peers_ok [of s c i q] Cons.prems by simp
    note m = mark_grows [OF Cons.prems(1) this q(3)]
    then obtain u where u: "spread n q (mark q s) = Ret () u" "grows (mark q s) u"
      using IH [OF \<open>q < NPROC\<close>, of "mark q s"] Cons.prems(4) by (auto simp: grows_def)
    from rec [OF grows_trans [OF m(1) u(2)]] show ?thesis using q u(1) by (auto simp: loop_Cons)
  qed
qed

text \<open>The depth of the recursion is bounded by the number of processes without the change.\<close>

lemma spread_total:
  "c < NPROC \<Longrightarrow> ok s \<Longrightarrow> card (unset s) < n \<Longrightarrow> \<exists>t. spread n c s = Ret () t \<and> grows s t"
proof (induction n arbitrary: c s)
  case (Suc n)
  have "\<exists>t. loop n c [0 ..< NPROC] s = Ret () t \<and> grows s t"
    by (rule loop_total) (use Suc in auto)
  then show ?case by (simp add: spread_Suc)
qed simp

lemma spread_NPROC: "c < NPROC \<Longrightarrow> ok s \<Longrightarrow> \<exists>t. spread (NPROC + 1) c s = Ret () t \<and> grows s t"
proof -
  have "card (unset s) \<le> card {0 ..< NPROC}" by (rule card_mono) (auto simp: unset_def)
  then show "c < NPROC \<Longrightarrow> ok s \<Longrightarrow> \<exists>t. spread (NPROC + 1) c s = Ret () t \<and> grows s t"
    by (intro spread_total) auto
qed

text \<open>The first sharer in the table gets the change.\<close>

lemma loop_first:
  assumes "ok s" "c < NPROC" "\<forall>i \<in> set is. i < NPROC" "card (unset s) \<le> n"
    "\<forall>j \<in> set is. peers c s ! j = None \<or> peers c s ! j = Some c" "i < NPROC" "peers c s ! i = Some q" "q \<noteq> c"
    "\<forall>j \<in> set js. j < NPROC"
  shows "\<exists>t. loop n c (is @ i # js) s = Ret () t \<and> isset q t"
  using assms
proof (induction "is")
  case Nil
  have q: "q < NPROC" using peers_ok Nil by blast
  obtain t where t: "loop n c (i # js) s = Ret () t" "grows s t"
    using loop_total [OF spread_total, of n s c "i # js"] Nil by auto
  show ?case
  proof (cases "isset q s")
    case True
    then show ?thesis using t Nil(7,8) by (auto simp: loop_Cons)
  next
    case False
    note m = mark_grows [OF Nil(1) q False]
    obtain u where u: "spread n q (mark q s) = Ret () u" "grows (mark q s) u"
      using spread_total [OF q, of "mark q s" n] m Nil(4) by (auto simp: grows_def)
    obtain v where v: "loop n c js u = Ret () v" "grows u v"
      using loop_total [OF spread_total, of n u c js] u(2) m Nil grows_card [OF u(2)] by (auto simp: grows_def)
    have "isset q v" using m(3) u(2) v(2) q by (auto simp: grows_def unset_def)
    then show ?thesis using False u(1) v(1) Nil(7,8) by (simp add: loop_Cons)
  qed
next
  case (Cons j "is")
  then show ?case by (auto simp: loop_Cons)
qed

end

section \<open>The three functions\<close>

text \<open>The tables of sharers point into the process table.\<close>

definition sharers_ok :: "kernel \<Rightarrow> bool" where
  "sharers_ok s \<longleftrightarrow> kernel_wf s \<and> (\<forall>c < NPROC. \<forall>i < NPROC. \<forall>q.
     p_ofile_clone (proc_at c s) ! i = Some q \<or> p_cwd_clone (proc_at c s) ! i = Some q \<longrightarrow> q < NPROC)"

lemma sharers_okD:
  assumes "sharers_ok s"
  shows "length (ptable s) = NPROC" "c < NPROC \<Longrightarrow> length (p_ofile (proc_at c s)) = NOFILE"
proof -
  have wf: "kernel_wf s" using assms by (simp add: sharers_ok_def)
  then show "length (ptable s) = NPROC" by (simp add: kernel_wf_def)
  from wf show "c < NPROC \<Longrightarrow> length (p_ofile (proc_at c s)) = NOFILE"
    by (simp add: kernel_wf_def list_all_length proc_wf_def proc_at_def)
qed

lemma sharers_ok_upd:
  assumes "sharers_ok s" "harmless g" "\<And>p. p_ofile_clone (g p) = p_ofile_clone p \<and> p_cwd_clone (g p) = p_cwd_clone p"
  shows "sharers_ok (upd_proc q g s)"
proof -
  have same: "p_ofile_clone (proc_at c (upd_proc q g s)) = p_ofile_clone (proc_at c s)"
    "p_cwd_clone (proc_at c (upd_proc q g s)) = p_cwd_clone (proc_at c s)" for c
    using assms(3) by (simp_all add: proc_at_upd_proc)
  show ?thesis using assms(1) wf_upd [OF assms(2)] unfolding sharers_ok_def same by blast
qed

definition has_file :: "nat \<Rightarrow> nat option \<Rightarrow> nat \<Rightarrow> kernel \<Rightarrow> bool" where
  "has_file fd x q s \<longleftrightarrow> p_ofile (proc_at q s) ! fd = x"

definition put_file :: "nat \<Rightarrow> nat option \<Rightarrow> nat \<Rightarrow> kernel \<Rightarrow> kernel" where
  "put_file fd x q = upd_proc q (\<lambda>p. p\<lparr>p_ofile := (p_ofile p)[fd := x]\<rparr>)"

lemma put_file_ok: "sharers_ok s \<Longrightarrow> sharers_ok (put_file fd x q s)"
  unfolding put_file_def by (rule sharers_ok_upd) (simp_all add: harmless_def)

lemma put_file_has:
  assumes "sharers_ok s \<and> fd < NOFILE" "q < NPROC"
  shows "has_file fd x p (put_file fd x q s) \<longleftrightarrow> p = q \<or> has_file fd x p s"
proof (cases "p = q")
  case True
  then show ?thesis using assms sharers_okD(1) [of s] sharers_okD(2) [of s q] by (simp add: put_file_def has_file_def)
next
  case False
  then show ?thesis using assms sharers_okD(1) [of s] by (simp add: put_file_def has_file_def)
qed

lemma put_file_peers: "p_ofile_clone (proc_at p (put_file fd x q s)) = p_ofile_clone (proc_at p s)"
  by (simp add: put_file_def proc_at_upd_proc)

lemma sharers_ok_peers:
  "sharers_ok s \<Longrightarrow> c < NPROC \<Longrightarrow> i < NPROC \<Longrightarrow> p_ofile_clone (proc_at c s) ! i = Some q \<Longrightarrow> q < NPROC"
  "sharers_ok s \<Longrightarrow> c < NPROC \<Longrightarrow> i < NPROC \<Longrightarrow> p_cwd_clone (proc_at c s) ! i = Some q \<Longrightarrow> q < NPROC"
  unfolding sharers_ok_def by blast+

lemma open_loop_step:
  "open_ofile_loop n c f fd (i # is) s = (case p_ofile_clone (proc_at c s) ! i of
         None \<Rightarrow> open_ofile_loop n c f fd is s
       | Some q \<Rightarrow> if q = c then open_ofile_loop n c f fd is s else if has_file fd (Some f) q s then Ret () s
           else kthen (open_ofile_clone n q f fd) (open_ofile_loop n c f fd is) (put_file fd (Some f) q s))"
  by (cases "p_ofile_clone (proc_at c s) ! i") (simp_all add: has_file_def put_file_def)

lemma close_loop_step:
  "close_ofile_loop n c fd (i # is) s = (case p_ofile_clone (proc_at c s) ! i of
         None \<Rightarrow> close_ofile_loop n c fd is s
       | Some q \<Rightarrow> if q = c then close_ofile_loop n c fd is s else if has_file fd None q s then Ret () s
           else kthen (close_ofile_clone n q fd) (close_ofile_loop n c fd is) (put_file fd None q s))"
  by (cases "p_ofile_clone (proc_at c s) ! i") (simp_all add: has_file_def put_file_def)

interpretation opened: propagation "\<lambda>n c. open_ofile_clone n c f fd" "\<lambda>n c. open_ofile_loop n c f fd"
  "\<lambda>c s. p_ofile_clone (proc_at c s)" "has_file fd (Some f)" "put_file fd (Some f)"
  "\<lambda>s. sharers_ok s \<and> fd < NOFILE" for f fd
  by unfold_locales
    (simp_all only: open_ofile_clone.simps open_loop_step put_file_ok put_file_has put_file_peers,
     auto intro: sharers_ok_peers)

interpretation closed: propagation "\<lambda>n c. close_ofile_clone n c fd" "\<lambda>n c. close_ofile_loop n c fd"
  "\<lambda>c s. p_ofile_clone (proc_at c s)" "has_file fd None" "put_file fd None"
  "\<lambda>s. sharers_ok s \<and> fd < NOFILE" for fd
  by unfold_locales
    (simp_all only: close_ofile_clone.simps close_loop_step put_file_ok put_file_has put_file_peers,
     auto intro: sharers_ok_peers)

text \<open>The working directory.\<close>

definition has_cwd :: "nat \<Rightarrow> nat \<Rightarrow> kernel \<Rightarrow> bool" where
  "has_cwd ip q s \<longleftrightarrow> p_cwd (proc_at q s) = Some ip"

definition put_cwd :: "nat \<Rightarrow> nat \<Rightarrow> kernel \<Rightarrow> kernel" where
  "put_cwd ip q = upd_proc q (\<lambda>p. p\<lparr>p_cwd := Some ip\<rparr>)"

lemma put_cwd_ok: "sharers_ok s \<Longrightarrow> sharers_ok (put_cwd ip q s)"
  unfolding put_cwd_def by (rule sharers_ok_upd) (simp_all add: harmless_def)

lemma put_cwd_has: "sharers_ok s \<Longrightarrow> q < NPROC \<Longrightarrow> has_cwd ip p (put_cwd ip q s) \<longleftrightarrow> p = q \<or> has_cwd ip p s"
  using sharers_okD(1) [of s] by (simp add: put_cwd_def has_cwd_def)

lemma put_cwd_peers: "p_cwd_clone (proc_at p (put_cwd ip q s)) = p_cwd_clone (proc_at p s)"
  by (simp add: put_cwd_def proc_at_upd_proc)

lemma pwd_loop_step:
  "pwd_loop n c ip (i # is) s = (case p_cwd_clone (proc_at c s) ! i of
         None \<Rightarrow> pwd_loop n c ip is s
       | Some q \<Rightarrow> if q = c then pwd_loop n c ip is s else if has_cwd ip q s then Ret () s
           else kthen (pwd_clone n q ip) (pwd_loop n c ip is) (put_cwd ip q s))"
  by (cases "p_cwd_clone (proc_at c s) ! i") (simp_all add: has_cwd_def put_cwd_def)

interpretation moved: propagation "\<lambda>n c. pwd_clone n c ip" "\<lambda>n c. pwd_loop n c ip"
  "\<lambda>c s. p_cwd_clone (proc_at c s)" "has_cwd ip" "put_cwd ip" sharers_ok for ip
  by unfold_locales
    (simp_all only: pwd_clone.simps pwd_loop_step put_cwd_ok put_cwd_has put_cwd_peers,
     auto intro: sharers_ok_peers)

section \<open>Properties\<close>

text \<open>
  C5: The recursive propagations of an opened file, a closed file and a new working directory end on every
  set of sharing tables, cyclic ones included: a depth of one more than the number of processes is enough
  for each to return.
\<close>

theorem propagation_terminates:
  assumes "sharers_ok s" "c < NPROC" "fd < NOFILE"
  shows "(\<exists>t. open_ofile_clone (NPROC + 1) c f fd s = Ret () t)
    \<and> (\<exists>t. close_ofile_clone (NPROC + 1) c fd s = Ret () t)
    \<and> (\<exists>t. pwd_clone (NPROC + 1) c ip s = Ret () t)"
  using opened.spread_NPROC [of c s fd f] closed.spread_NPROC [of c s fd] moved.spread_NPROC [of c s ip] assms by blast

text \<open>
  C17: A file that a process opens at a descriptor is also at that descriptor in the first process that its
  table of sharers names, whatever the rest of the tables holds.
\<close>

theorem open_reaches_first_sharer:
  assumes "sharers_ok s" "c < NPROC" "fd < NOFILE" "i < NPROC" "p_ofile_clone (proc_at c s) ! i = Some q" "q \<noteq> c"
    "\<forall>j < i. p_ofile_clone (proc_at c s) ! j = None \<or> p_ofile_clone (proc_at c s) ! j = Some c"
  shows "\<exists>t. open_ofile_clone (NPROC + 1) c f fd s = Ret () t \<and> p_ofile (proc_at q t) ! fd = Some f"
proof -
  have "card (opened.unset fd f s) \<le> card {0 ..< NPROC}"
    by (rule card_mono) (auto simp: opened.unset_def)
  then have "\<exists>t. open_ofile_loop NPROC c f fd ([0 ..< i] @ i # [Suc i ..< NPROC]) s = Ret () t \<and> has_file fd (Some f) q t"
    by (intro opened.loop_first) (use assms in auto)
  then show ?thesis using assms(4) by (simp add: has_file_def upto_split [symmetric])
qed

text \<open>
  The loops of \<open>clone\<close> that record a new sharer have no \<open>break\<close>: they write it into every empty
  slot, so the table is full after the first thread and a second thread is not recorded.
\<close>

lemma second_sharer_not_recorded:
  assumes "b \<noteq> a" "Some b \<notin> set xs"
  shows "Some b \<notin> set (fill_slots b (fill_slots a xs))"
  using assms by (auto simp: fill_slots_def)

subsection \<open>An example\<close>

text \<open>A process and its thread as \<open>clone\<close> leaves their tables.\<close>

definition sharing_pair :: kernel where
  "sharing_pair = demo [demo_main\<lparr>p_ofile_clone := replicate NPROC (Some 1)\<rparr>,
     (demo_thread RUNNABLE)\<lparr>p_ofile_clone := replicate NPROC (Some 0)\<rparr>]"

lemma sharing_pair_clones: "p_cwd_clone (proc_at c sharing_pair) = replicate NPROC None"
  "p_ofile_clone (proc_at c sharing_pair) = replicate NPROC (if c = 0 then Some 1 else if c = 1 then Some 0 else None)"
  if "c < NPROC"
  using that by (auto simp: sharing_pair_def demo_def proc_at_def nth_append nth_Cons' demo_main_def demo_thread_def
      zero_proc_def)

lemma sharing_pair_ok: "sharers_ok sharing_pair"
proof -
  have "kernel_wf sharing_pair"
    by (auto simp: sharing_pair_def demo_def kernel_wf_def boot_kernel_def proc_wf_def demo_main_def demo_thread_def
        zero_proc_def list_all_iff NPROC_def)
  then show ?thesis unfolding sharers_ok_def
    by (auto simp: sharing_pair_clones NPROC_def split: if_splits)
qed

theorem propagation_terminates_witness:
  "sharers_ok sharing_pair \<and> (\<exists>t. open_ofile_clone (NPROC + 1) 0 5 3 sharing_pair = Ret () t)"
  using propagation_terminates [of sharing_pair 0 3 5] sharing_pair_ok by (simp add: NPROC_def NOFILE_def)

theorem open_reaches_first_sharer_witness:
  "sharers_ok sharing_pair \<and>
   (\<exists>t. open_ofile_clone (NPROC + 1) 0 5 3 sharing_pair = Ret () t \<and> p_ofile (proc_at 1 t) ! 3 = Some 5)"
  using open_reaches_first_sharer [of sharing_pair 0 3 0 1 5] sharing_pair_ok
  by (simp add: NPROC_def NOFILE_def sharing_pair_clones)

end
