(* ===== verification/Clone.thy ===== *)
theory Clone
  imports System
begin

text \<open>
  \<open>clone\<close> and \<open>allocproc\<close> of \<open>proc.c\<close>: what a new thread gets from its creator. The proof follows
  the stages of the code; a stage is a predicate on the caller's entry and the new one, all other
  entries being as they were.
\<close>

lemma wlp_seq:
  "wlp m Q R s \<Longrightarrow> (\<And>x t. Q x t \<Longrightarrow> wlp (k x) Q' R t) \<Longrightarrow> wlp (kbind m k) Q' R s"
  "wlp m Q R s \<Longrightarrow> (\<And>x t. Q x t \<Longrightarrow> wlp n Q' R t) \<Longrightarrow> wlp (kthen m n) Q' R s"
  by (auto elim!: wlp_mono)

section \<open>Code that leaves the process table alone\<close>

definition same_table :: "kernel \<Rightarrow> kernel \<Rightarrow> bool" where
  "same_table s t \<longleftrightarrow> ptable t = ptable s \<and> myproc t = myproc s"

definition cur_running :: "nat \<Rightarrow> kernel \<Rightarrow> bool" where
  "cur_running c s \<longleftrightarrow> myproc s = Some c \<and> c < length (ptable s) \<and> p_state (proc_at c s) = RUNNING"

interpretation table: frame_relation same_table
  by unfold_locales (simp_all add: same_table_def)

text \<open>A running process can only give up the processor after its entry changed.\<close>

lemma wlp_same_table:
  assumes "keeps same_table m" "\<And>H. locks H m H" "cur_running c s"
  shows "wlp m (\<lambda>_. same_table s) (\<lambda>_. False) s"
proof (cases "m s")
  case (Switch t k)
  have "same_table s t" using keepsD [OF assms(1), of s] Switch by simp
  moreover have "at_switch t" using assms(2) [of "held s"] Switch by (simp add: locks_def locks_to_def, metis lock_run.simps(2))
  ultimately show ?thesis using assms(3) by (auto simp: same_table_def at_switch_def cur_running_def proc_at_def)
next
  case (Ret x t)
  then show ?thesis using keepsD [OF assms(1), of s] by (simp add: wlp_def)
qed (simp_all add: wlp_def)

lemma table_phys: "keeps phys_eq m \<Longrightarrow> keeps same_table m"
  by (erule keeps_weaken) (auto simp: phys_eq_def same_table_def myproc_def)

lemma table_lock: "keeps same_table (acquire lk)" "keeps same_table (release lk)"
  unfolding acquire_def release_def
  by (intro table.keeps_intros table.keeps_kmod; simp add: same_table_def myproc_def)+

lemma table_filedup: "keeps same_table (filedup f)"
  unfolding filedup_def file_get_def file_mod_def
  by (intro table.keeps_intros table.keeps_kmod table_lock; simp add: same_table_def myproc_def)

lemma table_idup: "keeps same_table (idup i)"
  unfolding idup_def inode_mod_def
  by (intro table.keeps_intros table.keeps_kmod table_lock; simp add: same_table_def myproc_def)

lemma table_va_store: "keeps same_table (va_store a bs)"
proof (induction bs arbitrary: a)
  case (Cons b bs)
  have "keeps same_table (va_store8 a b)" for a b unfolding va_store8_def
    by (intro table.keeps_intros table.keeps_kmod; simp add: same_table_def myproc_def)
  then show ?case using Cons by (auto intro: table.keeps_intros)
qed (simp add: table.keeps_intros)

lemma table_va_store32: "keeps same_table (va_store32 a v)"
  unfolding va_store32_def by (rule table_va_store)

lemmas table_wlp = table_filedup [THEN wlp_same_table, OF l_filedup]
  table_idup [THEN wlp_same_table, OF l_idup]
  table_va_store32 [THEN wlp_same_table, OF l_va_store32]
  phys_copyuvm [THEN table_phys, THEN wlp_same_table, OF l_copyuvm]
  phys_kalloc [THEN table_phys, THEN wlp_same_table, OF l_kalloc]
  phys_kfree [THEN table_phys, THEN wlp_same_table, OF l_kfree]
  phys_store32 [THEN table_phys, THEN wlp_same_table, OF l_store32]

section \<open>allocproc\<close>

text \<open>
  What a stage of \<open>clone\<close> leaves: the caller \<open>c\<close> still runs, every entry apart from \<open>c\<close> and the new
  one \<open>np\<close> is as it was, and these two satisfy a predicate.
\<close>

definition stage :: "nat \<Rightarrow> nat \<Rightarrow> kernel \<Rightarrow> (proc \<Rightarrow> proc \<Rightarrow> bool) \<Rightarrow> kernel \<Rightarrow> bool" where
  "stage c np s P t \<longleftrightarrow> cur_running c t \<and> length (ptable t) = length (ptable s)
     \<and> (\<forall>j < length (ptable s). j \<noteq> c \<longrightarrow> j \<noteq> np \<longrightarrow> proc_at j t = proc_at j s)
     \<and> c \<noteq> np \<and> np < length (ptable s) \<and> P (proc_at c t) (proc_at np t)"

lemma stage_calm:
  assumes "keeps same_table m" "\<And>H. locks H m H" "stage c np s P t"
  shows "wlp m (\<lambda>_. stage c np s P) (\<lambda>_. False) t"
  by (rule wlp_mono [OF wlp_same_table [OF assms(1,2), of c t]])
     (use assms(3) in \<open>auto simp: stage_def cur_running_def same_table_def proc_at_def\<close>)

lemma stage_np:
  "stage c np s P t \<Longrightarrow> (\<And>p q. P p q \<Longrightarrow> P' p (f q)) \<Longrightarrow> stage c np s P' (upd_proc np f t)"
  by (auto simp: stage_def cur_running_def proc_at_upd_proc)

lemma stage_c:
  "stage c np s P t \<Longrightarrow> (\<And>p q. P p q \<Longrightarrow> P' (f p) q) \<Longrightarrow> (\<And>p. p_state (f p) = p_state p) \<Longrightarrow> stage c np s P' (upd_proc c f t)"
  by (auto simp: stage_def cur_running_def proc_at_upd_proc)

lemma stage_get: "stage c np s P t \<Longrightarrow> P (proc_at c t) (proc_at np t)"
  by (simp add: stage_def)


text \<open>The caller apart from its tables of sharers.\<close>

definition same_caller :: "kernel \<Rightarrow> nat \<Rightarrow> proc \<Rightarrow> bool" where
  "same_caller s c p \<longleftrightarrow> p\<lparr>p_ofile_clone := [], p_cwd_clone := []\<rparr> = (proc_at c s)\<lparr>p_ofile_clone := [], p_cwd_clone := []\<rparr>"

lemma same_callerD:
  assumes "same_caller s c p"
  shows "p_ofile p = p_ofile (proc_at c s)" "p_cwd p = p_cwd (proc_at c s)" "p_tf p = p_tf (proc_at c s)"
    "p_parent p = p_parent (proc_at c s)" "p_isThread p = p_isThread (proc_at c s)" "p_sz p = p_sz (proc_at c s)"
    "p_tgid p = p_tgid (proc_at c s)" "p_pid p = p_pid (proc_at c s)" "p_pgdir p = p_pgdir (proc_at c s)"
    "p_name p = p_name (proc_at c s)"
  using assms by (auto simp: same_caller_def proc.equality dest: arg_cong [where f = p_ofile] arg_cong [where f = p_cwd]
      arg_cong [where f = p_tf] arg_cong [where f = p_parent] arg_cong [where f = p_isThread] arg_cong [where f = p_sz]
      arg_cong [where f = p_tgid] arg_cong [where f = p_pid] arg_cong [where f = p_pgdir] arg_cong [where f = p_name])

lemma same_caller_upd:
  "same_caller s c p \<Longrightarrow> same_caller s c (p\<lparr>p_ofile_clone := x\<rparr>)"
  "same_caller s c p \<Longrightarrow> same_caller s c (p\<lparr>p_cwd_clone := x\<rparr>)"
  by (simp_all add: same_caller_def)

text \<open>An entry \<open>allocproc\<close> has just handed out.\<close>

definition fresh_proc :: "kernel \<Rightarrow> nat \<Rightarrow> nat \<Rightarrow> proc \<Rightarrow> proc \<Rightarrow> bool" where
  "fresh_proc s c np p q \<longleftrightarrow> same_caller s c p \<and> p_pid q = nextpid s \<and> p_state q = EMBRYO
     \<and> p_state (proc_at np s) = UNUSED \<and> length (p_ofile q) = length (p_ofile (proc_at np s))"

lemma fresh_upd:
  "fresh_proc s c np p q \<Longrightarrow> fresh_proc s c np p (q\<lparr>p_kstack := k\<rparr>)"
  "fresh_proc s c np p q \<Longrightarrow> fresh_proc s c np p (q\<lparr>p_context := x\<rparr>)"
  by (simp_all add: fresh_proc_def)

lemma allocproc_new:
  assumes c: "cur_running c s" and i: "first_index (\<lambda>p. p_state p = UNUSED) (ptable s) = Some i"
  shows "stage c i s (fresh_proc s c i) (upd_proc i (\<lambda>p. p\<lparr>p_isThread := False, p_state := EMBRYO, p_pid := nextpid s\<rparr>) s)"
proof -
  have "i < length (ptable s)" "p_state (proc_at i s) = UNUSED" using first_indexD [OF i] by (simp_all add: proc_at_def)
  moreover from this have "c \<noteq> i" using c by (auto simp: cur_running_def)
  ultimately show ?thesis using c
    by (auto simp: stage_def cur_running_def fresh_proc_def proc_at_upd_proc same_caller_def)
qed

lemma stage_cong: "stage c np s P t \<Longrightarrow> ptable u = ptable t \<Longrightarrow> myproc u = myproc t \<Longrightarrow> stage c np s P u"
  by (simp add: stage_def cur_running_def proc_at_def)

lemma alloc_stack_stage:
  assumes "stage c i s (fresh_proc s c i) t"
  shows "wlp (alloc_stack i) (\<lambda>r t. \<forall>np. r = Some np \<longrightarrow> stage c np s (fresh_proc s c np) t) (\<lambda>_. False) t"
proof -
  let ?F = "fresh_proc s c i"
  have "wlp kalloc (\<lambda>_. stage c i s ?F) (\<lambda>_. False) t"
    using assms by (rule stage_calm [OF phys_kalloc [THEN table_phys] l_kalloc])
  then show ?thesis unfolding alloc_stack_def
  proof (rule wlp_seq)
    fix ks u assume "stage c i s ?F u"
    then have "stage c i s ?F (upd_proc i (\<lambda>p. p\<lparr>p_kstack := ks\<rparr>) u)" by (rule stage_np) (rule fresh_upd)
    note store = stage_calm [OF phys_store32 [THEN table_phys] l_store32 this]
    show "wlp (kthen (proc_mod i (\<lambda>p. p\<lparr>p_kstack := ks\<rparr>))
         (if ks = 0 then kthen (proc_mod i (\<lambda>p. p\<lparr>p_state := UNUSED\<rparr>)) (kret None) else
          kbind (kget syms) (\<lambda>y.
          let sp = ks + KSTACKSIZE - 76 - 4 in
          kthen (store32 sp (sym_trapret y))
          (kthen (proc_mod i (\<lambda>p. p\<lparr>p_context := zero_kcontext\<lparr>ctx_eip := sym_forkret y\<rparr>\<rparr>))
                 (kret (Some i))))))
       (\<lambda>r t. \<forall>np. r = Some np \<longrightarrow> stage c np s (fresh_proc s c np) t) (\<lambda>_. False) u"
      by (auto simp: Let_def intro!: wlp_mono [OF store] stage_np [where P = ?F] fresh_upd)
  qed
qed

lemma alloc_stage:
  assumes "cur_running c s"
  shows "wlp allocproc (\<lambda>r t. \<forall>np. r = Some np \<longrightarrow> stage c np s (fresh_proc s c np) t) (\<lambda>_. False) s"
proof (cases "first_index (\<lambda>p. p_state p = UNUSED) (ptable s)")
  case None
  then show ?thesis by (simp add: allocproc_def del: first_index_None)
next
  case (Some i)
  let ?new = "upd_proc i (\<lambda>p. p\<lparr>p_isThread := False, p_state := EMBRYO, p_pid := nextpid s\<rparr>) s"
  have "stage c i s (fresh_proc s c i) (?new\<lparr>nextpid := n\<rparr>)" for n
    by (rule stage_cong [OF allocproc_new [OF assms Some]]) (simp_all add: myproc_def)
  from alloc_stack_stage [OF this] show ?thesis using Some
    by (simp add: allocproc_def next_pid_def upd_proc_def)
qed

section \<open>clone\<close>

text \<open>The part of the new entry that a stage establishes, kept by the later ones.\<close>

definition new_files :: "kernel \<Rightarrow> nat \<Rightarrow> proc \<Rightarrow> bool" where
  "new_files s c q \<longleftrightarrow> length (p_ofile q) = NOFILE
     \<and> (\<forall>k < NOFILE. p_ofile (proc_at c s) ! k \<noteq> None \<longrightarrow> p_ofile q ! k = p_ofile (proc_at c s) ! k)"

lemma clone_fs_stage:
  assumes t: "stage c np s P t"
    and P: "\<And>p q x. P p q \<Longrightarrow> P p (q\<lparr>p_cwd_clone := x\<rparr>)" "\<And>p q x. P p q \<Longrightarrow> P (p\<lparr>p_cwd_clone := x\<rparr>) q"
      "\<And>p q. P p q \<Longrightarrow> P' p (q\<lparr>p_cwd := p_cwd (proc_at c s)\<rparr>)"
    and caller: "\<And>p q. P p q \<Longrightarrow> same_caller s c p"
  shows "wlp (clone_fs c np) (\<lambda>_. stage c np s P') (\<lambda>_. False) t"
proof -
  have cw: "p_cwd (proc_at c u) = p_cwd (proc_at c s)" if "stage c np s P u" for u
    using caller [OF stage_get [OF that]] by (rule same_callerD)
  have upd: "stage c np s P (upd_proc np (\<lambda>p. p\<lparr>p_cwd_clone := fill_slots k (p_cwd_clone p)\<rparr>) u)"
    "stage c np s P (upd_proc c (\<lambda>p. p\<lparr>p_cwd_clone := fill_slots k (p_cwd_clone p)\<rparr>) u)" if "stage c np s P u" for k u
    using that by (auto intro!: stage_np [where P = P] stage_c [where P = P] P)
  have last: "stage c np s P' (upd_proc np (\<lambda>p. p\<lparr>p_cwd := p_cwd (proc_at c s)\<rparr>) u)" if "stage c np s P u" for u
    using that by (rule stage_np) (rule P(3))
  note dup = stage_calm [OF table_idup l_idup t]
  show ?thesis
  proof (cases "p_cwd (proc_at c s)")
    case None
    then show ?thesis using t cw [OF t] upd last [unfolded None] by (simp add: clone_fs_def)
  next
    case (Some i)
    have "wlp (idup i) (\<lambda>j u. j = i \<and> stage c np s P u) (\<lambda>_. False) t"
      using dup [of i] by (simp add: idup_def inode_mod_def)
    then have "wlp (idup i) (\<lambda>j. wlp (proc_mod np (\<lambda>p. p\<lparr>p_cwd := Some j\<rparr>)) (\<lambda>_. stage c np s P') (\<lambda>_. False)) (\<lambda>_. False) t"
      by (rule wlp_mono) (auto simp: Some intro!: last [unfolded Some])
    then show ?thesis using t cw [OF t] upd last [unfolded Some] Some by (simp add: clone_fs_def)
  qed
qed

text \<open>The first \<open>n\<close> open files of the caller are also those of the new entry.\<close>

definition files_upto :: "kernel \<Rightarrow> nat \<Rightarrow> nat \<Rightarrow> proc \<Rightarrow> bool" where
  "files_upto s c n q \<longleftrightarrow> length (p_ofile q) = NOFILE
     \<and> (\<forall>k < n. p_ofile (proc_at c s) ! k \<noteq> None \<longrightarrow> p_ofile q ! k = p_ofile (proc_at c s) ! k)"

lemma dup_file_stage:
  assumes u: "stage c np s (\<lambda>p q. P p q \<and> files_upto s c n q) u" and n: "n < NOFILE"
    and P: "\<And>p q x. P p q \<Longrightarrow> P p (q\<lparr>p_ofile := x\<rparr>)"
    and caller: "\<And>p q. P p q \<Longrightarrow> same_caller s c p"
  shows "wlp (dup_file c np n) (\<lambda>_. stage c np s (\<lambda>p q. P p q \<and> files_upto s c (Suc n) q)) (\<lambda>_. False) u"
proof -
  have same: "p_ofile (proc_at c u) = p_ofile (proc_at c s)"
    using caller stage_get [OF u] same_callerD(1) by blast
  show ?thesis
  proof (cases "p_ofile (proc_at c s) ! n")
    case None
    then show ?thesis using u same by (auto simp: dup_file_def files_upto_def stage_def less_Suc_eq)
  next
    case (Some f)
    have "wlp (filedup f) (\<lambda>g v. g = f \<and> stage c np s (\<lambda>p q. P p q \<and> files_upto s c n q) v) (\<lambda>_. False) u"
      using stage_calm [OF table_filedup l_filedup u, of f] by (auto simp: filedup_def file_get_def file_mod_def)
    then have "wlp (filedup f) (\<lambda>g. wlp (proc_mod np (\<lambda>p. p\<lparr>p_ofile := (p_ofile p)[n := Some g]\<rparr>))
        (\<lambda>_. stage c np s (\<lambda>p q. P p q \<and> files_upto s c (Suc n) q)) (\<lambda>_. False)) (\<lambda>_. False) u"
      by (rule wlp_mono) (auto simp: files_upto_def Some n less_Suc_eq intro!: stage_np P)
    then show ?thesis using Some same by (simp add: dup_file_def)
  qed
qed

lemma dup_files_stage:
  assumes t: "stage c np s (\<lambda>p q. P p q \<and> length (p_ofile q) = NOFILE) t"
    and P: "\<And>p q x. P p q \<Longrightarrow> P p (q\<lparr>p_ofile := x\<rparr>)"
    and caller: "\<And>p q. P p q \<Longrightarrow> same_caller s c p"
  shows "wlp (dup_files c np) (\<lambda>_. stage c np s (\<lambda>p q. P p q \<and> files_upto s c NOFILE q)) (\<lambda>_. False) t"
proof -
  have loop: "wlp (kfor [m ..< NOFILE] (dup_file c np)) (\<lambda>_. stage c np s (\<lambda>p q. P p q \<and> files_upto s c NOFILE q)) (\<lambda>_. False) u"
    if "stage c np s (\<lambda>p q. P p q \<and> files_upto s c m q) u" "m \<le> NOFILE" for m u
    using that
  proof (induction "NOFILE - m" arbitrary: m u)
    case 0
    then show ?case by simp
  next
    case (Suc n)
    then have m: "m < NOFILE" and upt: "[m ..< NOFILE] = m # [Suc m ..< NOFILE]" by (simp_all add: upt_conv_Cons)
    have "n = NOFILE - Suc m" "Suc m \<le> NOFILE" using Suc(2) m by simp_all
    note next_ok = Suc(1) [OF this(1) _ this(2)]
    show ?case unfolding upt kfor.simps
      by (rule wlp_seq(2) [OF dup_file_stage [OF Suc.prems(1) m P caller] next_ok])
  qed
  have "stage c np s (\<lambda>p q. P p q \<and> files_upto s c 0 q) t" using t by (simp add: files_upto_def)
  from loop [OF this] show ?thesis by (simp add: dup_files_def)
qed

lemma share_files_upto:
  "length (p_ofile q) = NOFILE \<Longrightarrow> files_upto s c NOFILE (q\<lparr>p_ofile := share_files (p_ofile (proc_at c s)) (p_ofile q)\<rparr>)"
  by (auto simp: files_upto_def share_files_def split: option.splits)

lemma clone_files_stage:
  assumes t: "stage c np s (\<lambda>p q. P p q \<and> length (p_ofile q) = NOFILE) t"
    and P: "\<And>p q x. P p q \<Longrightarrow> P p (q\<lparr>p_ofile := x\<rparr>)" "\<And>p q x. P p q \<Longrightarrow> P p (q\<lparr>p_ofile_clone := x\<rparr>)"
      "\<And>p q x. P p q \<Longrightarrow> P (p\<lparr>p_ofile_clone := x\<rparr>) q"
    and caller: "\<And>p q. P p q \<Longrightarrow> same_caller s c p"
  shows "wlp (clone_files c np) (\<lambda>_. stage c np s (\<lambda>p q. P p q \<and> files_upto s c NOFILE q)) (\<lambda>_. False) t"
proof -
  let ?P = "\<lambda>p q. P p q \<and> length (p_ofile q) = NOFILE"
  let ?u = "upd_proc c (\<lambda>p. p\<lparr>p_ofile_clone := fill_slots np (p_ofile_clone p)\<rparr>)
    (upd_proc np (\<lambda>p. p\<lparr>p_ofile_clone := fill_slots c (p_ofile_clone p)\<rparr>) t)"
  have u: "stage c np s ?P ?u"
    using t by (auto intro!: stage_np [where P = ?P] stage_c [where P = ?P] P)
  have same: "p_ofile (proc_at c ?u) = p_ofile (proc_at c s)"
    using caller stage_get [OF u] same_callerD(1) by blast
  have "stage c np s (\<lambda>p q. P p q \<and> files_upto s c NOFILE q)
      (upd_proc np (\<lambda>p. p\<lparr>p_ofile := share_files (p_ofile (proc_at c s)) (p_ofile p)\<rparr>) ?u)"
    by (rule stage_np [OF u]) (simp add: P share_files_upto)
  then show ?thesis using dup_files_stage [OF t P(1) caller] same
    by (simp add: clone_files_def)
qed

text \<open>The parent a new thread gets, where the code determines it from the caller alone.\<close>

definition parent_ok :: "kernel \<Rightarrow> nat \<Rightarrow> u32 \<Rightarrow> pptr \<Rightarrow> bool" where
  "parent_ok s c flags par \<longleftrightarrow>
     (\<not> p_isThread (proc_at c s) \<longrightarrow> par = (if flag flags 3 then p_parent (proc_at c s) else Some c))
     \<and> (p_isThread (proc_at c s) \<and> \<not> flag flags 3 \<longrightarrow> par = p_parent (proc_at c s))"

lemma clone_parent_stage:
  assumes t: "stage c np s P t"
    and P: "\<And>p q x. P p q \<Longrightarrow> P p (q\<lparr>p_parent := x\<rparr>)"
    and caller: "\<And>p q. P p q \<Longrightarrow> same_caller s c p \<and> p_CLONE_PARENT q = flag flags 3"
  shows "wlp (clone_parent c np) (\<lambda>_. stage c np s (\<lambda>p q. P p q \<and> parent_ok s c flags (p_parent q))) (\<lambda>_. False) t"
proof -
  have c: "p_isThread (proc_at c t) = p_isThread (proc_at c s)" "p_parent (proc_at c t) = p_parent (proc_at c s)"
    and np: "p_CLONE_PARENT (proc_at np t) = flag flags 3"
    using caller [OF stage_get [OF t]] by (auto dest: same_callerD)
  have upd: "stage c np s (\<lambda>p q. P p q \<and> parent_ok s c flags (p_parent q)) (upd_proc np (\<lambda>p. p\<lparr>p_parent := x\<rparr>) t)"
    if "parent_ok s c flags x" for x
    by (rule stage_np [OF t]) (simp add: P that)
  show ?thesis
    by (cases "p_parent (proc_at c s)") (auto simp: clone_parent_def c np intro!: upd, auto simp: parent_ok_def)
qed

text \<open>What \<open>clone\<close> promises of the entry of the new thread, and of the caller's.\<close>

definition thread_of :: "kernel \<Rightarrow> nat \<Rightarrow> u32 \<Rightarrow> u32 \<Rightarrow> u32 \<Rightarrow> proc \<Rightarrow> proc \<Rightarrow> bool" where
  "thread_of s c f stack flags p q \<longleftrightarrow> same_caller s c p
     \<and> p_pid q = nextpid s \<and> p_state q = RUNNABLE \<and> p_isThread q \<and> p_pthread q = Some c
     \<and> p_tstack q = stack \<and> p_sz q = p_sz p \<and> p_tgid q = (if flag flags 4 then p_tgid p else p_pid p)
     \<and> parent_ok s c flags (p_parent q) \<and> (flag flags 0 \<longrightarrow> p_pgdir q = p_pgdir p)
     \<and> p_cwd q = p_cwd p \<and> files_upto s c NOFILE q
     \<and> p_tf q = (p_tf p)\<lparr>tf_eax := 0, tf_ebp := stack + PGSIZE - 8, tf_esp := stack + PGSIZE - 8, tf_eip := f\<rparr>"

text \<open>The predicates that the stages establish one after the other.\<close>

definition flags_ok :: "kernel \<Rightarrow> nat \<Rightarrow> nat \<Rightarrow> u32 \<Rightarrow> proc \<Rightarrow> proc \<Rightarrow> bool" where
  "flags_ok s c np flags p q \<longleftrightarrow> same_caller s c p \<and> p_pid q = nextpid s \<and> p_state q = EMBRYO
     \<and> p_CLONE_PARENT q = flag flags 3 \<and> (flag flags 0 \<longrightarrow> p_pgdir q = p_pgdir p)"

lemma flags_ok_upd:
  "flags_ok s c np flags p q \<Longrightarrow> flags_ok s c np flags p (q\<lparr>p_cwd := w\<rparr>)"
  "flags_ok s c np flags p q \<Longrightarrow> flags_ok s c np flags p (q\<lparr>p_cwd_clone := x\<rparr>)"
  "flags_ok s c np flags p q \<Longrightarrow> flags_ok s c np flags (p\<lparr>p_cwd_clone := x\<rparr>) q"
  "flags_ok s c np flags p q \<Longrightarrow> flags_ok s c np flags p (q\<lparr>p_ofile := y\<rparr>)"
  "flags_ok s c np flags p q \<Longrightarrow> flags_ok s c np flags p (q\<lparr>p_ofile_clone := x\<rparr>)"
  "flags_ok s c np flags p q \<Longrightarrow> flags_ok s c np flags (p\<lparr>p_ofile_clone := x\<rparr>) q"
  "flags_ok s c np flags p q \<Longrightarrow> flags_ok s c np flags p (q\<lparr>p_parent := z\<rparr>)"
  by (simp_all add: flags_ok_def same_caller_upd)

text \<open>The states between the stages, and the last part.\<close>

definition files_ok :: "kernel \<Rightarrow> nat \<Rightarrow> nat \<Rightarrow> u32 \<Rightarrow> proc \<Rightarrow> proc \<Rightarrow> bool" where
  "files_ok s c np flags p q \<longleftrightarrow> (flags_ok s c np flags p q \<and> p_cwd q = p_cwd (proc_at c s)) \<and> files_upto s c NOFILE q"

lemma set_runnable_stage:
  assumes "stage c np s P t" "\<And>p q. P p q \<Longrightarrow> P' p (q\<lparr>p_state := RUNNABLE\<rparr>)"
  shows "wlp (set_runnable np) (\<lambda>_. stage c np s P') (\<lambda>_. False) t"
proof -
  have "stage c np s P' (upd_proc np (\<lambda>p. p\<lparr>p_state := RUNNABLE\<rparr>) t)" using assms by (rule stage_np)
  then show ?thesis
    by (auto simp: set_runnable_def upd_proc_def myproc_def elim!: stage_cong)
qed

text \<open>The thread's entry apart from its registers and its scheduling state.\<close>

definition thread_fields :: "kernel \<Rightarrow> nat \<Rightarrow> nat \<Rightarrow> u32 \<Rightarrow> u32 \<Rightarrow> proc \<Rightarrow> proc \<Rightarrow> bool" where
  "thread_fields s c np stack flags p q \<longleftrightarrow> files_ok s c np flags p q \<and> parent_ok s c flags (p_parent q)
     \<and> p_isThread q \<and> p_pthread q = Some c \<and> p_tstack q = stack \<and> p_sz q = p_sz (proc_at c s)
     \<and> p_tgid q = (if flag flags 4 then p_tgid (proc_at c s) else p_pid (proc_at c s))"

lemma thread_fields_tf: "thread_fields s c np stack flags p q \<Longrightarrow> thread_fields s c np stack flags p (q\<lparr>p_tf := x\<rparr>)"
  by (simp add: thread_fields_def files_ok_def flags_ok_def files_upto_def)

lemma thread_of_fields:
  "thread_fields s c np stack flags p q \<Longrightarrow>
   p_tf q = (p_tf (proc_at c s))\<lparr>tf_eax := 0, tf_ebp := stack + PGSIZE - 8, tf_esp := stack + PGSIZE - 8, tf_eip := f\<rparr> \<Longrightarrow>
   thread_of s c f stack flags p (q\<lparr>p_state := RUNNABLE\<rparr>)"
  by (auto simp: thread_of_def thread_fields_def files_ok_def flags_ok_def files_upto_def dest: same_callerD)

lemma clone_frame_stage:
  assumes t: "stage c np s (\<lambda>p q. files_ok s c np flags p q \<and> parent_ok s c flags (p_parent q)) t"
    and cp: "same_caller s c cp"
  shows "wlp (clone_frame c np cp f arg stack flags)
    (\<lambda>r u. r = nextpid s \<and> stage c np s (thread_of s c f stack flags) u) (\<lambda>_. False) t"
proof -
  let ?th = "\<lambda>p q. thread_fields s c np stack flags p q \<and> p_tf q = (p_tf (proc_at c s))\<lparr>tf_eax := 0\<rparr>"
  let ?re = "\<lambda>p q. thread_fields s c np stack flags p q \<and> p_tf q = (p_tf (proc_at c s))\<lparr>tf_eax := 0,
     tf_ebp := stack + PGSIZE - 8, tf_esp := stack + PGSIZE - 8, tf_eip := f\<rparr>"
  let ?us = "stack + PGSIZE - 4"
  define g where "g = (\<lambda>p :: proc. p\<lparr>p_tgid := (if flag flags 4 then p_tgid cp else p_pid cp),
                p_pthread := Some c, p_isThread := True, p_tstack := stack,
                p_tf := (p_tf cp)\<lparr>tf_eax := 0\<rparr>, p_sz := p_sz cp,
                p_name := safestrcpy (p_name p) (p_name cp) 16\<rparr>)"
  have t1: "stage c np s ?th (upd_proc np g t)"
    by (rule stage_np [OF t])
       (simp add: g_def thread_fields_def files_ok_def flags_ok_def files_upto_def same_callerD [OF cp])
  then have pid: "p_pid (proc_at np (upd_proc np g t)) = nextpid s"
    by (auto dest!: stage_get simp: thread_fields_def files_ok_def flags_ok_def)
  have store: "wlp (va_store32 a v) (\<lambda>_. stage c np s ?th) (\<lambda>_. False) u" if "stage c np s ?th u" for a v u
    using that by (rule stage_calm [OF table_va_store32 l_va_store32])
  have regs: "wlp (kthen (proc_mod np (\<lambda>p. p\<lparr>p_tf := (p_tf p)\<lparr>tf_ebp := ?us - 4, tf_esp := ?us - 4, tf_eip := f\<rparr>\<rparr>))
        (kthen (set_runnable np) (kret pid)))
      (\<lambda>r u. r = pid \<and> stage c np s (thread_of s c f stack flags) u) (\<lambda>_. False) u" if "stage c np s ?th u" for pid u
  proof -
    have "stage c np s ?re (upd_proc np (\<lambda>p. p\<lparr>p_tf := (p_tf p)\<lparr>tf_ebp := ?us - 4, tf_esp := ?us - 4, tf_eip := f\<rparr>\<rparr>) u)"
      by (rule stage_np [OF that]) (simp add: thread_fields_tf)
    then have "wlp (set_runnable np) (\<lambda>_. stage c np s (thread_of s c f stack flags)) (\<lambda>_. False)
        (upd_proc np (\<lambda>p. p\<lparr>p_tf := (p_tf p)\<lparr>tf_ebp := ?us - 4, tf_esp := ?us - 4, tf_eip := f\<rparr>\<rparr>) u)"
      by (rule set_runnable_stage) (elim conjE, erule (1) thread_of_fields)
    then show ?thesis by (simp add: wlp_mono)
  qed
  have "wlp (kthen (va_store32 ?us arg) (kthen (va_store32 (?us - 4) 0xffffffff)
      (kthen (proc_mod np (\<lambda>p. p\<lparr>p_tf := (p_tf p)\<lparr>tf_ebp := ?us - 4, tf_esp := ?us - 4, tf_eip := f\<rparr>\<rparr>))
        (kthen (set_runnable np) (kret (nextpid s))))))
      (\<lambda>r u. r = nextpid s \<and> stage c np s (thread_of s c f stack flags) u) (\<lambda>_. False) (upd_proc np g t)"
    by (intro wlp_seq(2) [OF store [OF t1]] wlp_seq(2) [OF store] regs)
  then show ?thesis unfolding clone_frame_def g_def [symmetric] by (simp add: Let_def pid)
qed

lemma undo_alloc_stage:
  assumes "stage c np s P t"
  shows "wlp (undo_alloc np) (\<lambda>r _. r = -1) (\<lambda>_. False) t"
  using stage_calm [OF phys_kfree [THEN table_phys] l_kfree assms, of "p_kstack (proc_at np t)"]
  by (auto simp: undo_alloc_def elim!: wlp_mono)

lemma clone_setup_stage:
  assumes t: "stage c np s (\<lambda>p q. flags_ok s c np flags p q \<and> length (p_ofile q) = NOFILE) t"
    and cp: "same_caller s c cp"
  shows "wlp (clone_setup c np cp f arg stack flags)
    (\<lambda>r u. r = nextpid s \<and> stage c np s (thread_of s c f stack flags) u) (\<lambda>_. False) t"
proof -
  let ?B = "\<lambda>p q. (flags_ok s c np flags p q \<and> p_cwd q = p_cwd (proc_at c s)) \<and> length (p_ofile q) = NOFILE"
  let ?D = "\<lambda>p q. files_ok s c np flags p q \<and> parent_ok s c flags (p_parent q)"
  have fs: "wlp (clone_fs c np) (\<lambda>_. stage c np s ?B) (\<lambda>_. False) t"
    by (rule clone_fs_stage [OF t]) (auto simp: flags_ok_upd, simp add: flags_ok_def)
  have files: "wlp (clone_files c np) (\<lambda>_. stage c np s (files_ok s c np flags)) (\<lambda>_. False) u" if "stage c np s ?B u" for u
    unfolding files_ok_def [abs_def]
    by (rule clone_files_stage [OF that]) (auto simp: flags_ok_upd, simp add: flags_ok_def)
  have par: "wlp (clone_parent c np) (\<lambda>_. stage c np s ?D) (\<lambda>_. False) u" if "stage c np s (files_ok s c np flags) u" for u
    by (rule clone_parent_stage [OF that]) (auto simp: flags_ok_upd files_upto_def files_ok_def, (simp add: flags_ok_def)+)
  show ?thesis unfolding clone_setup_def
    by (intro wlp_seq(2) [OF fs] wlp_seq(2) [OF files] wlp_seq(2) [OF par] clone_frame_stage cp)
qed

lemma clone_into_stage:
  assumes t: "stage c np s (fresh_proc s c np) t" and wf: "kernel_wf s"
  shows "wlp (clone_into c np f arg stack flags)
    (\<lambda>r u. r = -1 \<or> r = nextpid s \<and> stage c np s (thread_of s c f stack flags) u) (\<lambda>_. False) t"
proof -
  have len: "length (p_ofile (proc_at np s)) = NOFILE"
    using t wf by (auto simp: stage_def kernel_wf_def list_all_length proc_wf_def proc_at_def)
  let ?P = "\<lambda>p q. same_caller s c p \<and> p_pid q = nextpid s \<and> p_state q = EMBRYO \<and> p_CLONE_PARENT q = flag flags 3
    \<and> length (p_ofile q) = NOFILE"
  let ?u = "upd_proc np (clone_flags flags) t"
  have u: "stage c np s ?P ?u"
    by (rule stage_np [OF t]) (simp add: fresh_proc_def clone_flags_def len)
  have cp: "same_caller s c (proc_at c ?u)" using stage_get [OF u] by simp
  have dir: "wlp (if flag flags 0 then kret (p_pgdir (proc_at c ?u)) else copyuvm (p_pgdir (proc_at c ?u)) (p_sz (proc_at c ?u)))
     (\<lambda>d v. stage c np s ?P v \<and> (flag flags 0 \<longrightarrow> d = p_pgdir (proc_at c s))) (\<lambda>_. False) ?u"
    using stage_calm [OF phys_copyuvm [THEN table_phys] l_copyuvm u] u same_callerD(9) [OF cp] by simp
  have fin: "wlp (kthen (proc_mod np (\<lambda>p. p\<lparr>p_pgdir := d\<rparr>))
    (if \<not> flag flags 0 \<and> d = 0 then undo_alloc np else clone_setup c np (proc_at c ?u) f arg stack flags))
      (\<lambda>r u. r = -1 \<or> r = nextpid s \<and> stage c np s (thread_of s c f stack flags) u) (\<lambda>_. False) v"
    if v: "stage c np s ?P v \<and> (flag flags 0 \<longrightarrow> d = p_pgdir (proc_at c s))" for d v
  proof -
    have "stage c np s (\<lambda>p q. flags_ok s c np flags p q \<and> length (p_ofile q) = NOFILE) (upd_proc np (\<lambda>p. p\<lparr>p_pgdir := d\<rparr>) v)"
      by (rule stage_np [OF v [THEN conjunct1]]) (use v in \<open>auto simp: flags_ok_def dest: same_callerD(9)\<close>)
    from clone_setup_stage [OF this cp, of f arg stack] undo_alloc_stage [OF this] show ?thesis
      by (auto elim!: wlp_mono)
  qed
  show ?thesis unfolding clone_into_def
    by (subst wlp_kthen, subst wlp_proc_mod, subst wlp_kbind, subst wlp_proc_get, unfold id_apply)
       (rule wlp_seq(1) [OF dir fin])
qed



end
