(* ===== verification/Spinlock.thy ===== *)
theory Spinlock
  imports Kstate
begin

text \<open>
  Spin locks in detail: \<open>spinlock.c\<close> on several processors, one atomic memory access per step, and
  the user-level lock of \<open>threadlib.c\<close>, which several threads share. Both rest on the atomic
  \<open>xchg\<close>; a locale states what that gives, mutual exclusion, once for both. The last section shows
  that the list of held locks of the other theories is what these lock words and the
  counter \<open>ncli\<close> amount to for one processor.
\<close>

section \<open>Interrupts (\<open>pushcli\<close>, \<open>popcli\<close>)\<close>

record cpustate =
  c_if :: bool        \<comment> \<open>\<open>FL_IF\<close> in the flags register\<close>
  c_ncli :: int       \<comment> \<open>a nesting depth, far below the range of \<open>int\<close>\<close>
  c_intena :: bool

definition pushcli :: "cpustate \<Rightarrow> cpustate" where
  "pushcli k = (let eflags = c_if k; k = k\<lparr>c_if := False\<rparr>;
                    k = (if c_ncli k = 0 then k\<lparr>c_intena := eflags\<rparr> else k)
                in k\<lparr>c_ncli := c_ncli k + 1\<rparr>)"

definition popcli :: "cpustate \<Rightarrow> string + cpustate" where
  "popcli k =
     (if c_if k then Inl ''popcli - interruptible'' else
      let k = k\<lparr>c_ncli := c_ncli k - 1\<rparr> in
      if c_ncli k < 0 then Inl ''popcli''
      else Inr (if c_ncli k = 0 \<and> c_intena k then k\<lparr>c_if := True\<rparr> else k))"

text \<open>Interrupts are off whenever a \<open>pushcli\<close> is outstanding.\<close>

definition cpu_ok :: "cpustate \<Rightarrow> bool" where
  "cpu_ok k \<longleftrightarrow> c_ncli k \<ge> 0 \<and> (c_ncli k > 0 \<longrightarrow> \<not> c_if k)"

lemma pushcli_ok: "cpu_ok k \<Longrightarrow> cpu_ok (pushcli k) \<and> c_ncli (pushcli k) = c_ncli k + 1 \<and> \<not> c_if (pushcli k)"
  by (simp add: cpu_ok_def pushcli_def Let_def)

lemma popcli_ok:
  assumes "cpu_ok k" "c_ncli k > 0"
  shows "\<exists>k'. popcli k = Inr k' \<and> cpu_ok k' \<and> c_ncli k' = c_ncli k - 1"
  using assms by (auto simp: cpu_ok_def popcli_def Let_def)

primrec popclis :: "nat \<Rightarrow> cpustate \<Rightarrow> string + cpustate" where
  "popclis 0 k = Inr k"
| "popclis (Suc n) k = (case popcli k of Inl e \<Rightarrow> Inl e | Inr k \<Rightarrow> popclis n k)"

lemma popcli_pushcli:
  assumes "cpu_ok k"
  shows "\<exists>b. popcli (pushcli k) = Inr (k\<lparr>c_intena := b\<rparr>) \<and> (c_ncli k > 0 \<longrightarrow> b = c_intena k)"
proof (cases "c_ncli k = 0")
  case True
  then have "popcli (pushcli k) = Inr (k\<lparr>c_intena := c_if k\<rparr>)" by (cases k) (simp add: popcli_def pushcli_def Let_def)
  then show ?thesis using True by auto
next
  case False
  with assms have "c_ncli k > 0" "\<not> c_if k" by (auto simp: cpu_ok_def)
  then have "popcli (pushcli k) = Inr (k\<lparr>c_intena := c_intena k\<rparr>)" by (cases k) (simp add: popcli_def pushcli_def Let_def)
  then show ?thesis by blast
qed

lemma pushclis_ok: "cpu_ok k \<Longrightarrow> cpu_ok ((pushcli ^^ n) k) \<and> c_ncli ((pushcli ^^ n) k) = c_ncli k + int n"
  by (induction n) (auto simp: pushcli_ok)



section \<open>Mutual exclusion from an atomic exchange\<close>

text \<open>The instruction \<open>xchgl\<close>: the old value of the word is the result, the new one is stored.\<close>

definition xchg :: "u32 \<Rightarrow> u32 \<Rightarrow> u32 \<times> u32" where
  "xchg word newval = (word, newval)"

text \<open>
  A lock word that is taken only when it is free, by one party, and freed only by a party that is inside.
\<close>

locale exclusion =
  fixes step :: "'s \<Rightarrow> 's \<Rightarrow> bool"
    and inside :: "nat \<Rightarrow> 's \<Rightarrow> bool"
    and taken :: "'s \<Rightarrow> bool"
    and init :: "'s \<Rightarrow> bool"
  assumes init_free: "init s \<Longrightarrow> \<not> taken s \<and> \<not> inside c s"
    and step_cases: "step s t \<Longrightarrow> (\<forall>d. inside d t = inside d s) \<and> taken t = taken s
      \<or> (\<exists>c. \<not> taken s \<and> taken t \<and> (\<forall>d. inside d t \<longleftrightarrow> d = c \<or> inside d s))
      \<or> (\<exists>c. inside c s \<and> \<not> taken t \<and> (\<forall>d. inside d t \<longleftrightarrow> d \<noteq> c \<and> inside d s))"
begin

text \<open>The word is taken exactly while one party is inside.\<close>

definition excl :: "'s \<Rightarrow> bool" where
  "excl s \<longleftrightarrow> (if taken s then \<exists>!c. inside c s else \<forall>c. \<not> inside c s)"

lemma excl_step: "step s t \<Longrightarrow> excl s \<Longrightarrow> excl t"
  using step_cases [of s t] by (auto simp: excl_def split: if_splits)

lemma excl_reachable: "step\<^sup>*\<^sup>* s t \<Longrightarrow> init s \<Longrightarrow> excl t"
proof (induction rule: rtranclp_induct)
  case base
  then show ?case by (simp add: excl_def init_free)
next
  case (step t u)
  then show ?case by (blast intro: excl_step)
qed

lemma at_most_one: "step\<^sup>*\<^sup>* s t \<Longrightarrow> init s \<Longrightarrow> inside c t \<Longrightarrow> inside d t \<Longrightarrow> c = d"
  using excl_reachable [of s t] by (auto simp: excl_def split: if_splits)

end

section \<open>The kernel's lock\<close>

record spinlock =
  lk_locked :: u32
  lk_cpu :: "nat option"

definition holding_lock :: "nat \<Rightarrow> spinlock \<Rightarrow> bool" where
  "holding_lock c l \<longleftrightarrow> lk_locked l \<noteq> 0 \<and> lk_cpu l = Some c"

text \<open>
  Where a processor is with respect to the lock: outside, in the loop of \<open>acquire\<close>, past it, in
  the critical section, in \<open>release\<close> before and after the word is cleared.
\<close>

datatype spin_pc = Outside | Spinning | Taken | Critical | Leaving | Popping

record spins =
  sp_lock :: spinlock
  sp_cpus :: "nat \<Rightarrow> cpustate"
  sp_pc :: "nat \<Rightarrow> spin_pc"

inductive spin_step :: "spins \<Rightarrow> spins \<Rightarrow> bool" where
  acquire_begin: "sp_pc s c = Outside \<Longrightarrow> \<not> holding_lock c (sp_lock s) \<Longrightarrow>
    spin_step s (s\<lparr>sp_cpus := (sp_cpus s)(c := pushcli (sp_cpus s c)), sp_pc := (sp_pc s)(c := Spinning)\<rparr>)"
| acquire_xchg: "sp_pc s c = Spinning \<Longrightarrow> xchg (lk_locked (sp_lock s)) 1 = (old, new) \<Longrightarrow>
    spin_step s (s\<lparr>sp_lock := (sp_lock s)\<lparr>lk_locked := new\<rparr>,
                   sp_pc := (sp_pc s)(c := if old \<noteq> 0 then Spinning else Taken)\<rparr>)"
| acquire_end: "sp_pc s c = Taken \<Longrightarrow>
    spin_step s (s\<lparr>sp_lock := (sp_lock s)\<lparr>lk_cpu := Some c\<rparr>, sp_pc := (sp_pc s)(c := Critical)\<rparr>)"
| release_begin: "sp_pc s c = Critical \<Longrightarrow> holding_lock c (sp_lock s) \<Longrightarrow>
    spin_step s (s\<lparr>sp_lock := (sp_lock s)\<lparr>lk_cpu := None\<rparr>, sp_pc := (sp_pc s)(c := Leaving)\<rparr>)"
| release_store: "sp_pc s c = Leaving \<Longrightarrow>
    spin_step s (s\<lparr>sp_lock := (sp_lock s)\<lparr>lk_locked := 0\<rparr>, sp_pc := (sp_pc s)(c := Popping)\<rparr>)"
| release_end: "sp_pc s c = Popping \<Longrightarrow> popcli (sp_cpus s c) = Inr k \<Longrightarrow>
    spin_step s (s\<lparr>sp_cpus := (sp_cpus s)(c := k), sp_pc := (sp_pc s)(c := Outside)\<rparr>)"

definition spin_inside :: "nat \<Rightarrow> spins \<Rightarrow> bool" where
  "spin_inside c s \<longleftrightarrow> sp_pc s c \<in> {Taken, Critical, Leaving}"

definition spin_taken :: "spins \<Rightarrow> bool" where
  "spin_taken s \<longleftrightarrow> lk_locked (sp_lock s) \<noteq> 0"

definition spin_init :: "spins \<Rightarrow> bool" where
  "spin_init s \<longleftrightarrow> sp_lock s = \<lparr>lk_locked = 0, lk_cpu = None\<rparr> \<and> (\<forall>c. sp_pc s c = Outside \<and> cpu_ok (sp_cpus s c))"

lemma spin_step_cases: "spin_step s t \<Longrightarrow>
      (\<forall>d. spin_inside d t = spin_inside d s) \<and> spin_taken t = spin_taken s
      \<or> (\<exists>c. \<not> spin_taken s \<and> spin_taken t \<and> (\<forall>d. spin_inside d t \<longleftrightarrow> d = c \<or> spin_inside d s))
      \<or> (\<exists>c. spin_inside c s \<and> \<not> spin_taken t \<and> (\<forall>d. spin_inside d t \<longleftrightarrow> d \<noteq> c \<and> spin_inside d s))"
proof (induction rule: spin_step.induct)
  case (acquire_xchg s c old new)
  then show ?case by (cases "lk_locked (sp_lock s) = 0") (auto simp: spin_inside_def spin_taken_def xchg_def)
qed (auto simp: spin_inside_def spin_taken_def)

interpretation spin: exclusion spin_step spin_inside spin_taken spin_init
  by unfold_locales (simp add: spin_init_def spin_inside_def spin_taken_def, erule spin_step_cases)

lemma spin_excl_critical:
  assumes "spin.excl s" "spin_inside c s"
  shows "spin_taken s" "sp_pc s d = Critical \<Longrightarrow> d = c"
proof -
  show "spin_taken s" using assms unfolding spin.excl_def by (auto split: if_splits)
  assume "sp_pc s d = Critical"
  then have "spin_inside d s" by (simp add: spin_inside_def)
  then show "d = c" using assms unfolding spin.excl_def by (auto split: if_splits)
qed

text \<open>Interrupts stay off from \<open>acquire\<close> to \<open>release\<close>, and the owner field is right in the critical section.\<close>

definition spin_ok :: "spins \<Rightarrow> bool" where
  "spin_ok s \<longleftrightarrow> (\<forall>c. cpu_ok (sp_cpus s c) \<and> (sp_pc s c \<noteq> Outside \<longrightarrow> c_ncli (sp_cpus s c) > 0)
     \<and> (sp_pc s c = Critical \<longrightarrow> lk_cpu (sp_lock s) = Some c))"

lemma spin_ok_step: "spin_step s t \<Longrightarrow> spin.excl s \<Longrightarrow> spin_ok s \<Longrightarrow> spin_ok t"
proof (induction rule: spin_step.induct)
  case (acquire_begin s c)
  then show ?case using pushcli_ok [of "sp_cpus s c"] by (auto simp: spin_ok_def cpu_ok_def)
next
  case (acquire_end s c)
  then have "spin_inside c s" by (simp add: spin_inside_def)
  then have "sp_pc s d \<noteq> Critical" for d
    using spin_excl_critical(2) [of s c d] acquire_end by auto
  then show ?case using acquire_end by (auto simp: spin_ok_def)
next
  case (release_begin s c)
  then have "spin_inside c s" by (simp add: spin_inside_def)
  then have "sp_pc s d \<noteq> Critical" if "d \<noteq> c" for d
    using spin_excl_critical(2) [of s c d] release_begin that by blast
  then show ?case using release_begin by (simp add: spin_ok_def)
next
  case (release_end s c k)
  then show ?case using popcli_ok [of "sp_cpus s c"] by (auto simp: spin_ok_def)
qed (auto simp: spin_ok_def)

lemma spin_ok_reachable: "spin_step\<^sup>*\<^sup>* s t \<Longrightarrow> spin_init s \<Longrightarrow> spin_ok t"
proof (induction rule: rtranclp_induct)
  case base
  then show ?case by (simp add: spin_init_def spin_ok_def)
next
  case (step t u)
  then show ?case using spin_ok_step spin.excl_reachable by blast
qed

text \<open>
  C21: However the steps of any number of processors interleave, at most one of them is in the
  critical section of a spin lock; while a processor is there, its interrupts are off,
  the lock records it as the owner and the word is set, so \<open>release\<close> does not panic.
\<close>

theorem spinlock_mutual_exclusion:
  assumes "spin_init s" "spin_step\<^sup>*\<^sup>* s t" "sp_pc t c = Critical"
  shows "(\<forall>d. sp_pc t d = Critical \<longrightarrow> d = c) \<and> \<not> c_if (sp_cpus t c) \<and> holding_lock c (sp_lock t)"
proof -
  have ok: "spin_ok t" and ex: "spin.excl t" using assms(1,2) by (auto intro: spin_ok_reachable spin.excl_reachable)
  have "spin_inside c t" using assms(3) by (simp add: spin_inside_def)
  note crit = spin_excl_critical [OF ex this]
  have "c_ncli (sp_cpus t c) > 0" "cpu_ok (sp_cpus t c)" "lk_cpu (sp_lock t) = Some c"
    using ok assms(3) by (auto simp: spin_ok_def)
  then show ?thesis using crit by (auto simp: cpu_ok_def holding_lock_def spin_taken_def)
qed

text \<open>
  C25: A processor that released the lock, or is about to return from \<open>release\<close>, can always take its next
  step: \<open>popcli\<close> does not panic. A spinning processor whose lock is free takes it with its next exchange.
\<close>

theorem spinlock_progress:
  assumes "spin_init s" "spin_step\<^sup>*\<^sup>* s t"
  shows "(sp_pc t c = Popping \<longrightarrow> (\<exists>u. spin_step t u \<and> sp_pc u c = Outside))
    \<and> (sp_pc t c = Critical \<longrightarrow> (\<exists>u. spin_step t u \<and> sp_pc u c = Leaving))
    \<and> (sp_pc t c = Spinning \<and> (\<forall>d. \<not> spin_inside d t) \<longrightarrow> (\<exists>u. spin_step t u \<and> sp_pc u c = Taken))"
proof -
  have ok: "spin_ok t" and ex: "spin.excl t" using assms by (auto intro: spin_ok_reachable spin.excl_reachable)
  have "\<exists>u. spin_step t u \<and> sp_pc u c = Outside" if c: "sp_pc t c = Popping"
  proof -
    obtain k where "popcli (sp_cpus t c) = Inr k" using ok c popcli_ok [of "sp_cpus t c"] by (auto simp: spin_ok_def)
    from release_end [OF c this] show ?thesis by fastforce
  qed
  moreover have "\<exists>u. spin_step t u \<and> sp_pc u c = Leaving" if c: "sp_pc t c = Critical"
  proof -
    have "spin_taken t" using spin_excl_critical(1) [OF ex, of c] c by (simp add: spin_inside_def)
    then have "holding_lock c (sp_lock t)" using ok c by (auto simp: spin_ok_def holding_lock_def spin_taken_def)
    from release_begin [OF c this] show ?thesis by fastforce
  qed
  moreover have "\<exists>u. spin_step t u \<and> sp_pc u c = Taken" if c: "sp_pc t c = Spinning" and free: "\<forall>d. \<not> spin_inside d t"
  proof -
    have "lk_locked (sp_lock t) = 0" using ex free unfolding spin.excl_def by (auto simp: spin_taken_def split: if_splits)
    then show ?thesis using acquire_xchg [OF c, of 0 1] by (fastforce simp: xchg_def)
  qed
  ultimately show ?thesis by blast
qed

text \<open>A machine whose processors are all outside, and processor 0 on its way into the critical section.\<close>

definition spin_start :: spins where
  "spin_start = \<lparr>sp_lock = \<lparr>lk_locked = 0, lk_cpu = None\<rparr>, sp_cpus = (\<lambda>_. \<lparr>c_if = True, c_ncli = 0, c_intena = False\<rparr>),
                 sp_pc = (\<lambda>_. Outside)\<rparr>"

lemma spin_start_init: "spin_init spin_start"
  by (simp add: spin_init_def spin_start_def cpu_ok_def)

lemma spin_start_runs: "\<exists>t. spin_step\<^sup>*\<^sup>* spin_start t \<and> sp_pc t 0 = Critical \<and> sp_pc t 1 = Spinning"
proof -
  let ?k = "\<lparr>c_if = False, c_ncli = 1, c_intena = True\<rparr>"
  define s1 where "s1 = spin_start\<lparr>sp_cpus := (sp_cpus spin_start)(0 := ?k), sp_pc := (\<lambda>_. Outside)(0 := Spinning)\<rparr>"
  define s2 where "s2 = s1\<lparr>sp_cpus := (sp_cpus s1)(1 := ?k), sp_pc := (\<lambda>_. Outside)(0 := Spinning, 1 := Spinning)\<rparr>"
  define s3 where "s3 = s2\<lparr>sp_lock := \<lparr>lk_locked = 1, lk_cpu = None\<rparr>, sp_pc := (\<lambda>_. Outside)(0 := Taken, 1 := Spinning)\<rparr>"
  define s4 where "s4 = s3\<lparr>sp_lock := \<lparr>lk_locked = 1, lk_cpu = Some 0\<rparr>, sp_pc := (\<lambda>_. Outside)(0 := Critical, 1 := Spinning)\<rparr>"
  have *: "spin_step spin_start s1"
    using acquire_begin [of spin_start 0] by (simp add: s1_def spin_start_def holding_lock_def pushcli_def)
  have "spin_step s1 s2"
    using acquire_begin [of s1 1] by (simp add: s1_def s2_def spin_start_def holding_lock_def pushcli_def)
  from rtranclp.rtrancl_into_rtrancl [OF r_into_rtranclp [of spin_step, OF *] this]
  have *: "spin_step\<^sup>*\<^sup>* spin_start s2" .
  have "spin_step s2 s3"
    using acquire_xchg [of s2 0 0 1] by (simp add: s1_def s2_def s3_def spin_start_def xchg_def fun_upd_twist)
  from rtranclp.rtrancl_into_rtrancl [OF * this] have *: "spin_step\<^sup>*\<^sup>* spin_start s3" .
  have "spin_step s3 s4"
    using acquire_end [of s3 0] by (simp add: s3_def s4_def fun_upd_twist)
  from rtranclp.rtrancl_into_rtrancl [OF * this] have "spin_step\<^sup>*\<^sup>* spin_start s4" .
  then show ?thesis by (intro exI [of _ s4]) (simp add: s4_def)
qed

theorem spinlock_mutual_exclusion_witness:
  "spin_init spin_start \<and> (\<exists>t. spin_step\<^sup>*\<^sup>* spin_start t \<and> sp_pc t 0 = Critical \<and> holding_lock 0 (sp_lock t) \<and> \<not> c_if (sp_cpus t 0))"
  using spinlock_mutual_exclusion [OF spin_start_init, of _ 0] spin_start_init spin_start_runs by blast

theorem spinlock_progress_witness:
  "spin_init spin_start \<and> (\<exists>t u. spin_step\<^sup>*\<^sup>* spin_start t \<and> sp_pc t 0 = Critical \<and> spin_step t u \<and> sp_pc u 0 = Leaving)"
  using spinlock_progress [OF spin_start_init, of _ 0] spin_start_init spin_start_runs by blast

section \<open>The lock of the thread library\<close>

definition lock_init :: "u32 \<Rightarrow> u32" where
  "lock_init isHeld = 0"

text \<open>A thread is outside, in the loop of \<open>lock_acquire\<close>, or between \<open>lock_acquire\<close> and \<open>lock_release\<close>.\<close>

datatype tl_pc = T_outside | T_spinning | T_inside

record tlocks =
  isHeld :: u32
  tl_pc :: "nat \<Rightarrow> tl_pc"

inductive tl_step :: "tlocks \<Rightarrow> tlocks \<Rightarrow> bool" where
  lock_acquire_begin: "tl_pc s c = T_outside \<Longrightarrow> tl_step s (s\<lparr>tl_pc := (tl_pc s)(c := T_spinning)\<rparr>)"
| lock_acquire_xchg: "tl_pc s c = T_spinning \<Longrightarrow> xchg (isHeld s) 1 = (old, new) \<Longrightarrow>
    tl_step s (s\<lparr>isHeld := new, tl_pc := (tl_pc s)(c := if old \<noteq> 0 then T_spinning else T_inside)\<rparr>)"
| lock_release_xchg: "tl_pc s c = T_inside \<Longrightarrow> xchg (isHeld s) 0 = (old, new) \<Longrightarrow>
    tl_step s (s\<lparr>isHeld := new, tl_pc := (tl_pc s)(c := T_outside)\<rparr>)"

definition tl_inside :: "nat \<Rightarrow> tlocks \<Rightarrow> bool" where
  "tl_inside c s \<longleftrightarrow> tl_pc s c = T_inside"

definition tl_taken :: "tlocks \<Rightarrow> bool" where
  "tl_taken s \<longleftrightarrow> isHeld s \<noteq> 0"

definition tl_init :: "tlocks \<Rightarrow> bool" where
  "tl_init s \<longleftrightarrow> (\<exists>w. isHeld s = lock_init w) \<and> (\<forall>c. tl_pc s c = T_outside)"

lemma tl_step_cases: "tl_step s t \<Longrightarrow>
      (\<forall>d. tl_inside d t = tl_inside d s) \<and> tl_taken t = tl_taken s
      \<or> (\<exists>c. \<not> tl_taken s \<and> tl_taken t \<and> (\<forall>d. tl_inside d t \<longleftrightarrow> d = c \<or> tl_inside d s))
      \<or> (\<exists>c. tl_inside c s \<and> \<not> tl_taken t \<and> (\<forall>d. tl_inside d t \<longleftrightarrow> d \<noteq> c \<and> tl_inside d s))"
proof (induction rule: tl_step.induct)
  case (lock_acquire_xchg s c old new)
  then show ?case by (cases "isHeld s = 0") (auto simp: tl_inside_def tl_taken_def xchg_def)
qed (auto simp: tl_inside_def tl_taken_def xchg_def)

interpretation tl: exclusion tl_step tl_inside tl_taken tl_init
  by unfold_locales (simp add: tl_init_def lock_init_def tl_inside_def tl_taken_def, erule tl_step_cases)

text \<open>
  C23: However the threads of a program interleave, at most one of them is between \<open>lock_acquire\<close> and
  \<open>lock_release\<close> of a \<open>thread_lock\<close> set up by \<open>lock_init\<close>; and the word is \<open>0\<close> exactly when none is,
  so a spinning thread gets in as soon as the lock is released.
\<close>

theorem thread_lock_mutual_exclusion:
  assumes "tl_init s" "tl_step\<^sup>*\<^sup>* s t"
  shows "if isHeld t = 0 then \<forall>c. tl_pc t c \<noteq> T_inside else \<exists>!c. tl_pc t c = T_inside"
  using tl.excl_reachable [OF assms(2,1)] unfolding tl.excl_def tl_taken_def tl_inside_def by (simp split: if_splits)

theorem thread_lock_mutual_exclusion_witness:
  "tl_init \<lparr>isHeld = 0, tl_pc = (\<lambda>_. T_outside)\<rparr> \<and>
   tl_step\<^sup>*\<^sup>* \<lparr>isHeld = 0, tl_pc = (\<lambda>_. T_outside)\<rparr> \<lparr>isHeld = 1, tl_pc = (\<lambda>_. T_outside)(3 := T_inside)\<rparr> \<and>
   (\<exists>!c. ((\<lambda>_. T_outside)(3 := T_inside)) c = T_inside)"
proof -
  let ?s = "\<lparr>isHeld = 0, tl_pc = (\<lambda>_. T_outside)\<rparr>" and ?t = "\<lparr>isHeld = 1, tl_pc = (\<lambda>_. T_outside)(3 := T_inside)\<rparr>"
  have i: "tl_init ?s" by (simp add: tl_init_def lock_init_def)
  have "tl_step ?s \<lparr>isHeld = 0, tl_pc = (\<lambda>_. T_outside)(3 := T_spinning)\<rparr>"
    using lock_acquire_begin [of ?s 3] by simp
  moreover have "tl_step \<lparr>isHeld = 0, tl_pc = (\<lambda>_. T_outside)(3 := T_spinning)\<rparr> ?t"
    using lock_acquire_xchg [of "\<lparr>isHeld = 0, tl_pc = (\<lambda>_. T_outside)(3 := T_spinning)\<rparr>" 3 0 1] by (simp add: xchg_def)
  ultimately have r: "tl_step\<^sup>*\<^sup>* ?s ?t" by (rule converse_rtranclp_into_rtranclp [OF _ r_into_rtranclp])
  show ?thesis using thread_lock_mutual_exclusion [OF i r] i r by simp
qed

section \<open>The held locks of one processor\<close>

text \<open>
  \<open>acquire\<close> and \<open>release\<close> as one processor runs them on a table of lock words. \<open>None\<close> is a call that still
  spins because another processor has the lock.
\<close>

definition holding_impl :: "nat \<Rightarrow> spinlock \<Rightarrow> cpustate \<Rightarrow> string + bool \<times> cpustate" where
  "holding_impl c l k =
     (let k = pushcli k; r = holding_lock c l in
      case popcli k of Inl e \<Rightarrow> Inl e | Inr k \<Rightarrow> Inr (r, k))"

definition acquire_impl :: "nat \<Rightarrow> lockid \<Rightarrow> (lockid \<Rightarrow> spinlock) \<times> cpustate
    \<Rightarrow> (string + (lockid \<Rightarrow> spinlock) \<times> cpustate) option" where
  "acquire_impl c lk = (\<lambda>(L, k).
     let k = pushcli k in
     case holding_impl c (L lk) k of
       Inl e \<Rightarrow> Some (Inl e)
     | Inr (h, k) \<Rightarrow>
         if h then Some (Inl ''acquire'') else
         let (old, new) = xchg (lk_locked (L lk)) 1 in
         if old \<noteq> 0 then None
         else Some (Inr (L(lk := (L lk)\<lparr>lk_locked := new, lk_cpu := Some c\<rparr>), k)))"

definition release_impl :: "nat \<Rightarrow> lockid \<Rightarrow> (lockid \<Rightarrow> spinlock) \<times> cpustate
    \<Rightarrow> string + (lockid \<Rightarrow> spinlock) \<times> cpustate" where
  "release_impl c lk = (\<lambda>(L, k).
     case holding_impl c (L lk) k of
       Inl e \<Rightarrow> Inl e
     | Inr (h, k) \<Rightarrow>
         if \<not> h then Inl ''release'' else
         case popcli k of
           Inl e \<Rightarrow> Inl e
         | Inr k \<Rightarrow> Inr (L(lk := (L lk)\<lparr>lk_cpu := None, lk_locked := 0\<rparr>), k))"

text \<open>What the list \<open>held\<close> of the other theories says about the lock words and the processor.\<close>

definition held_repr :: "nat \<Rightarrow> lockid list \<Rightarrow> (lockid \<Rightarrow> spinlock) \<times> cpustate \<Rightarrow> bool" where
  "held_repr c hs = (\<lambda>(L, k). distinct hs \<and> (\<forall>lk. holding_lock c (L lk) \<longleftrightarrow> lk \<in> set hs)
     \<and> cpu_ok k \<and> c_ncli k = int (length hs))"

lemma holding_impl_inside: "cpu_ok k \<Longrightarrow> \<exists>k'. holding_impl c l k = Inr (holding_lock c l, k') \<and> cpu_ok k'
    \<and> c_ncli k' = c_ncli k"
proof -
  assume k: "cpu_ok k"
  obtain b where "popcli (pushcli k) = Inr (k\<lparr>c_intena := b\<rparr>)" using popcli_pushcli [OF k] by blast
  then have "holding_impl c l k = Inr (holding_lock c l, k\<lparr>c_intena := b\<rparr>)" by (simp add: holding_impl_def Let_def)
  then show ?thesis using k by (auto simp: cpu_ok_def)
qed

lemma acquire_impl_refines:
  assumes "held_repr c (held s) m" "acquire_impl c lk m = Some r"
  shows "case r of Inl e \<Rightarrow> acquire lk s = Panic e
    | Inr m' \<Rightarrow> \<exists>s'. acquire lk s = Ret () s' \<and> held_repr c (held s') m'"
proof -
  obtain L k where m: "m = (L, k)" by force
  have "cpu_ok (pushcli k)" "c_ncli (pushcli k) = c_ncli k + 1"
    using assms(1) pushcli_ok [of k] by (simp_all add: held_repr_def m)
  then obtain k' where k': "holding_impl c (L lk) (pushcli k) = Inr (holding_lock c (L lk), k')" "cpu_ok k'"
      "c_ncli k' = c_ncli k + 1"
    using holding_impl_inside [of "pushcli k"] by auto
  have "holding_lock c (L lk) \<longleftrightarrow> lk \<in> set (held s)" using assms(1) by (simp add: held_repr_def m)
  moreover have "holding_lock c ((L lk)\<lparr>lk_locked := 1, lk_cpu := Some c\<rparr>)" by (simp add: holding_lock_def)
  ultimately show ?thesis using assms k'
    by (cases "lk \<in> set (held s)") (auto simp: acquire_impl_def m acquire_app held_repr_def xchg_def split: if_splits)
qed

lemma release_impl_refines:
  assumes "held_repr c (held s) m"
  shows "case release_impl c lk m of Inl e \<Rightarrow> release lk s = Panic e
    | Inr m' \<Rightarrow> \<exists>s'. release lk s = Ret () s' \<and> held_repr c (held s') m'"
proof -
  obtain L k where m: "m = (L, k)" by force
  have h: "cpu_ok k" "holding_lock c (L lk) \<longleftrightarrow> lk \<in> set (held s)" "c_ncli k = int (length (held s))"
    using assms by (simp_all add: held_repr_def m)
  obtain k' where k': "holding_impl c (L lk) k = Inr (holding_lock c (L lk), k')" "cpu_ok k'" "c_ncli k' = c_ncli k"
    using holding_impl_inside [OF h(1)] by blast
  show ?thesis
  proof (cases "lk \<in> set (held s)")
    case False
    then show ?thesis using h k' by (simp add: release_impl_def m release_app)
  next
    case True
    then obtain n where n: "length (held s) = Suc n" by (cases "held s") auto
    then obtain k'' where "popcli k' = Inr k''" "cpu_ok k''" "c_ncli k'' = int n"
      using popcli_ok [of k'] k' h by auto
    then show ?thesis using True h k' n assms
      by (auto simp: release_impl_def m release_app held_repr_def holding_lock_def length_remove1 split: if_splits)
  qed
qed

text \<open>A run of lock operations, on the lock words and on the list.\<close>

datatype lock_op = Acquire lockid | Release lockid

fun run_impl :: "nat \<Rightarrow> lock_op list \<Rightarrow> (lockid \<Rightarrow> spinlock) \<times> cpustate
    \<Rightarrow> (string + (lockid \<Rightarrow> spinlock) \<times> cpustate) option" where
  "run_impl c [] m = Some (Inr m)"
| "run_impl c (Acquire lk # ops) m =
     (case acquire_impl c lk m of None \<Rightarrow> None | Some (Inl e) \<Rightarrow> Some (Inl e) | Some (Inr m) \<Rightarrow> run_impl c ops m)"
| "run_impl c (Release lk # ops) m =
     (case release_impl c lk m of Inl e \<Rightarrow> Some (Inl e) | Inr m \<Rightarrow> run_impl c ops m)"

fun run_held :: "lock_op list \<Rightarrow> unit kk" where
  "run_held [] = kret ()"
| "run_held (Acquire lk # ops) = kthen (acquire lk) (run_held ops)"
| "run_held (Release lk # ops) = kthen (release lk) (run_held ops)"

text \<open>
  C22: The list of held locks is a faithful abstraction of the lock words and the counter \<open>ncli\<close>: whatever
  sequence of \<open>acquire\<close> and \<open>release\<close> a processor runs on the lock words, if it ends then the operations on
  the list end the same way, with the same panic or with a list that again
  describes the words; in particular \<open>ncli\<close> is always the number of locks held, and interrupts are off while there is one.
\<close>

theorem locks_refine_held:
  assumes "held_repr c (held s) m" "run_impl c ops m = Some r"
  shows "case r of Inl e \<Rightarrow> run_held ops s = Panic e
    | Inr m' \<Rightarrow> \<exists>s'. run_held ops s = Ret () s' \<and> held_repr c (held s') m'"
  using assms
proof (induction ops arbitrary: s m)
  case Nil
  then show ?case by auto
next
  case (Cons op ops)
  show ?case
  proof (cases op)
    case (Acquire lk)
    then obtain r' where r': "acquire_impl c lk m = Some r'" using Cons.prems by (auto split: option.splits)
    note ref = acquire_impl_refines [OF Cons.prems(1) r']
    show ?thesis
    proof (cases r')
      case (Inl e)
      then have "r = Inl e" "run_held (op # ops) s = Panic e" using ref r' Acquire Cons.prems(2) by auto
      then show ?thesis by (simp del: run_held.simps)
    next
      case (Inr m')
      then obtain s' where s': "acquire lk s = Ret () s'" "held_repr c (held s') m'" using ref by auto
      have *: "run_held (op # ops) s = run_held ops s'" using s'(1) Acquire by simp
      show ?thesis unfolding * using Cons.IH [OF s'(2)] Cons.prems(2) r' Inr Acquire by simp
    qed
  next
    case (Release lk)
    note ref = release_impl_refines [OF Cons.prems(1), of lk]
    show ?thesis
    proof (cases "release_impl c lk m")
      case (Inl e)
      then have "r = Inl e" "run_held (op # ops) s = Panic e" using ref Release Cons.prems(2) by auto
      then show ?thesis by (simp del: run_held.simps)
    next
      case (Inr m')
      then obtain s' where s': "release lk s = Ret () s'" "held_repr c (held s') m'" using ref by auto
      have *: "run_held (op # ops) s = run_held ops s'" using s'(1) Release by simp
      show ?thesis unfolding * using Cons.IH [OF s'(2)] Cons.prems(2) Inr Release by simp
    qed
  qed
qed

theorem locks_refine_held_witness:
  "\<forall>y m d n.
     held_repr 0 (held (boot_kernel y m d n)) ((\<lambda>_. \<lparr>lk_locked = 0, lk_cpu = None\<rparr>), \<lparr>c_if = True, c_ncli = 0, c_intena = False\<rparr>) \<and>
     run_held [Acquire L_ptable, Acquire L_kmem, Release L_ptable, Release L_ptable] (boot_kernel y m d n) = Panic ''release''"
proof (intro allI)
  fix y m d n
  let ?s = "boot_kernel y m d n"
  let ?m = "((\<lambda>_. \<lparr>lk_locked = 0, lk_cpu = None\<rparr>), \<lparr>c_if = True, c_ncli = 0, c_intena = False\<rparr>)"
  have h: "held_repr 0 (held ?s) ?m" by (simp add: held_repr_def boot_kernel_def holding_lock_def cpu_ok_def)
  have "run_impl 0 [Acquire L_ptable, Acquire L_kmem, Release L_ptable, Release L_ptable] ?m = Some (Inl ''release'')"
    by (simp add: acquire_impl_def release_impl_def holding_impl_def holding_lock_def pushcli_def popcli_def xchg_def)
  from locks_refine_held [OF h this]
  show "held_repr 0 (held ?s) ?m \<and>
    run_held [Acquire L_ptable, Acquire L_kmem, Release L_ptable, Release L_ptable] ?s = Panic ''release''"
    using h by simp
qed

end
