(* ===== verification/Ring.thy ===== *)
theory Ring
  imports Machine
begin

text \<open>
  Ring buffers with free-running 32-bit counters, as pipes and the console input use them: the byte
  with number \<open>k\<close> is stored at index \<open>k mod size\<close>, and the counters are never reduced, so they wrap
  around at \<open>2 ^ 32\<close>. The contents of the buffer is the list of bytes from the read to the write
  counter. An interface states what a bounded queue promises; what follows from it is
  proved once.
\<close>

section \<open>Bounded queues\<close>

datatype 'b queue_op = Put 'b | Take

text \<open>
  A bounded queue as a list. A \<open>Put\<close> into a full queue and a \<open>Take\<close> from an empty one do nothing: the
  caller waits. The first component of the result is what the \<open>Take\<close> operations returned.
\<close>

fun queue_run :: "nat \<Rightarrow> 'b queue_op list \<Rightarrow> 'b list \<Rightarrow> 'b list \<times> 'b list" where
  "queue_run cap [] q = ([], q)"
| "queue_run cap (Put b # ops) q = queue_run cap ops (if length q < cap then q @ [b] else q)"
| "queue_run cap (Take # ops) q =
     (case q of
        [] \<Rightarrow> queue_run cap ops []
      | b # q' \<Rightarrow> (let (out, r) = queue_run cap ops q' in (b # out, r)))"

text \<open>The same run on an implementation given by its operations.\<close>

fun impl_run :: "('b \<Rightarrow> 'p \<Rightarrow> 'p) \<Rightarrow> ('p \<Rightarrow> 'b) \<Rightarrow> ('p \<Rightarrow> 'p) \<Rightarrow> ('p \<Rightarrow> bool) \<Rightarrow> ('p \<Rightarrow> bool)
    \<Rightarrow> 'b queue_op list \<Rightarrow> 'p \<Rightarrow> 'b list \<times> 'p" where
  "impl_run put front rest full void [] x = ([], x)"
| "impl_run put front rest full void (Put b # ops) x =
     impl_run put front rest full void ops (if full x then x else put b x)"
| "impl_run put front rest full void (Take # ops) x =
     (if void x then impl_run put front rest full void ops x
      else let (out, y) = impl_run put front rest full void ops (rest x) in (front x # out, y))"

locale bounded_queue =
  fixes items :: "'p \<Rightarrow> 'b list"
    and ok :: "'p \<Rightarrow> bool"
    and put :: "'b \<Rightarrow> 'p \<Rightarrow> 'p"
    and front :: "'p \<Rightarrow> 'b"
    and rest :: "'p \<Rightarrow> 'p"
    and full :: "'p \<Rightarrow> bool"
    and void :: "'p \<Rightarrow> bool"
    and cap :: nat
  assumes bounded: "ok x \<Longrightarrow> length (items x) \<le> cap"
    and full_iff: "ok x \<Longrightarrow> full x \<longleftrightarrow> length (items x) = cap"
    and void_iff: "ok x \<Longrightarrow> void x \<longleftrightarrow> items x = []"
    and put_ok: "ok x \<Longrightarrow> \<not> full x \<Longrightarrow> ok (put b x)"
    and put_items: "ok x \<Longrightarrow> \<not> full x \<Longrightarrow> items (put b x) = items x @ [b]"
    and rest_ok: "ok x \<Longrightarrow> \<not> void x \<Longrightarrow> ok (rest x)"
    and rest_items: "ok x \<Longrightarrow> \<not> void x \<Longrightarrow> items x = front x # items (rest x)"
begin

lemma run_refines:
  "ok x \<Longrightarrow> impl_run put front rest full void ops x = (out, y) \<Longrightarrow>
   ok y \<and> queue_run cap ops (items x) = (out, items y)"
proof (induction ops arbitrary: x out)
  case Nil
  then show ?case by auto
next
  case (Cons op ops)
  show ?case
  proof (cases op)
    case (Put b)
    have lt: "length (items x) < cap \<longleftrightarrow> \<not> full x" using bounded full_iff Cons.prems(1) by fastforce
    show ?thesis
    proof (cases "full x")
      case True
      then show ?thesis using Cons Put lt by simp
    next
      case False
      then have "impl_run put front rest full void ops (put b x) = (out, y)" using Cons.prems(2) Put by simp
      then show ?thesis
        using Cons.IH [OF put_ok [OF Cons.prems(1) False]] False lt put_items [OF Cons.prems(1) False] Put by simp
    qed
  next
    case Take
    show ?thesis
    proof (cases "void x")
      case True
      then show ?thesis using Cons.IH [of x] Cons.prems Take void_iff [of x] by simp
    next
      case False
      obtain out' where o: "impl_run put front rest full void ops (rest x) = (out', y)" "out = front x # out'"
        using Cons.prems(2) Take False by (auto split: prod.splits)
      show ?thesis
        using Cons.IH [OF rest_ok [OF Cons.prems(1) False] o(1)] rest_items [OF Cons.prems(1) False] o(2) Take by simp
    qed
  qed
qed

lemma rests: "ok x \<Longrightarrow> n \<le> length (items x) \<Longrightarrow> ok ((rest ^^ n) x) \<and> items ((rest ^^ n) x) = drop n (items x)"
proof (induction n arbitrary: x)
  case (Suc n)
  then have "\<not> void x" using void_iff by auto
  then have "ok (rest x)" "items x = front x # items (rest x)" using rest_ok rest_items Suc.prems by blast+
  then show ?case using Suc.IH [of "rest x"] Suc.prems(2) by (simp add: funpow_swap1)
qed simp

end

section \<open>Rings of bytes\<close>

definition ring_items :: "nat \<Rightarrow> bytes \<Rightarrow> u32 \<Rightarrow> u32 \<Rightarrow> u8 list" where
  "ring_items cap buf r w = map (\<lambda>i. buf ((unat r + i) mod cap)) [0 ..< unat (w - r)]"

lemma length_ring_items [simp]: "length (ring_items cap buf r w) = unat (w - r)"
  by (simp add: ring_items_def)

lemma nth_ring_items: "i < unat (w - r) \<Longrightarrow> ring_items cap buf r w ! i = buf ((unat r + i) mod cap)"
  by (simp add: ring_items_def)

text \<open>The size divides \<open>2 ^ 32\<close>, so an index is not disturbed when a counter wraps around.\<close>

lemma unat_add_mod:
  fixes r d :: u32
  assumes "cap dvd 2 ^ 32"
  shows "unat (r + d) mod cap = (unat r + unat d) mod cap"
  using assms by (simp add: unat_word_ariths mod_mod_cancel)

lemma unat_next: "unat (w - r) < 2 ^ 32 - 1 \<Longrightarrow> unat (w + 1 - r) = Suc (unat (w - r))" for w r :: u32
proof -
  assume "unat (w - r) < 2 ^ 32 - 1"
  then have "unat ((w - r) + 1) = unat (w - r) + 1" by (subst unat_word_ariths) simp
  then show ?thesis by (simp add: algebra_simps)
qed

lemma Suc_unat_minus: "w \<noteq> 0 \<Longrightarrow> unat w = Suc (unat (w - 1))" for w :: u32
  using unat_minus_one [of w] unat_eq_zero [of w] by simp

lemma unat_prev: "w \<noteq> r \<Longrightarrow> unat (w - r) = Suc (unat (w - (r + 1)))" for w r :: u32
proof -
  assume "w \<noteq> r"
  then have "w - r \<noteq> 0" by simp
  then have "unat (w - r) = Suc (unat (w - r - 1))" by (rule Suc_unat_minus)
  then show ?thesis by (simp add: algebra_simps)
qed

lemma ring_items_put:
  assumes "cap dvd 2 ^ 32" "unat (w - r) < cap" "cap < 2 ^ 32"
  shows "ring_items cap (buf(unat w mod cap := b)) r (w + 1) = ring_items cap buf r w @ [b]"
proof (rule nth_equalityI)
  have n: "unat (w + 1 - r) = Suc (unat (w - r))" using assms(2,3) by (intro unat_next) simp
  then show "length (ring_items cap (buf(unat w mod cap := b)) r (w + 1)) = length (ring_items cap buf r w @ [b])" by simp
  have w: "unat w mod cap = (unat r + unat (w - r)) mod cap" using unat_add_mod [OF assms(1), of r "w - r"] by simp
  have ne: "(unat r + i) mod cap \<noteq> unat w mod cap" if "i < unat (w - r)" for i
  proof
    assume "(unat r + i) mod cap = unat w mod cap"
    then have "(unat r + unat (w - r)) mod cap = (unat r + i) mod cap" using w by simp
    then have "cap dvd unat (w - r) - i" using that by (simp add: mod_eq_dvd_iff_nat)
    then show False using that assms(2) by (simp add: nat_dvd_not_less)
  qed
  fix i
  assume "i < length (ring_items cap (buf(unat w mod cap := b)) r (w + 1))"
  then have "i < Suc (unat (w - r))" by (simp add: n)
  then show "ring_items cap (buf(unat w mod cap := b)) r (w + 1) ! i = (ring_items cap buf r w @ [b]) ! i"
    using ne [of i] w n by (auto simp: nth_ring_items nth_append less_Suc_eq)
qed

lemma ring_items_take:
  assumes "cap dvd 2 ^ 32" "w \<noteq> r"
  shows "ring_items cap buf r w = buf (unat r mod cap) # ring_items cap buf (r + 1) w"
proof (rule nth_equalityI)
  note p = unat_prev [OF assms(2)]
  then show "length (ring_items cap buf r w) = length (buf (unat r mod cap) # ring_items cap buf (r + 1) w)" by simp
  fix i
  assume "i < length (ring_items cap buf r w)"
  then have i: "i < Suc (unat (w - (r + 1)))" using p by simp
  have "(unat (r + 1) + j) mod cap = (unat r + Suc j) mod cap" for j
    using unat_add_mod [OF assms(1), of r 1] by (metis add.assoc mod_add_left_eq plus_1_eq_Suc unat_1)
  then show "ring_items cap buf r w ! i = (buf (unat r mod cap) # ring_items cap buf (r + 1) w) ! i"
    using i p by (cases i) (simp_all add: nth_ring_items)
qed

text \<open>Taking back the last byte.\<close>

lemma ring_items_unput:
  assumes "w \<noteq> r"
  shows "ring_items cap buf r (w - 1) = butlast (ring_items cap buf r w)"
proof -
  have "w - r \<noteq> 0" using assms by simp
  then have "unat (w - r) = Suc (unat (w - r - 1))" by (rule Suc_unat_minus)
  then have "unat (w - r) = Suc (unat (w - 1 - r))" by (simp add: algebra_simps)
  then show ?thesis by (simp add: ring_items_def)
qed

end
