(* ===== verification/Usermem.thy ===== *)
theory Usermem
  imports Vm
begin

text \<open>
  Accesses of the kernel to the memory of the running process, through the page table the processor
  has loaded. A buffer is described by the list of places its bytes are at; as long as none of
  these places is in the page table itself, storing into the buffer leaves all translations alone,
  and what was stored is what is read back.
\<close>

section \<open>Where a page table lies\<close>

definition pt_area :: "bytes \<Rightarrow> u32 \<Rightarrow> nat set" where
  "pt_area m d = {unat d ..< unat d + 4096} \<union>
     (\<Union>i \<in> {i. i < 1024 \<and> pde_present m d i}. {unat (pgtab_of m d i) ..< unat (pgtab_of m d i) + 4096})"

lemma pg_word_frame: "(\<And>a. unat p \<le> a \<Longrightarrow> a < unat p + 4096 \<Longrightarrow> m' a = m a) \<Longrightarrow> i < 1024 \<Longrightarrow> pg_word m' p i = pg_word m p i"
  unfolding pg_word_def by (rule get32_cong) simp

lemma pt_lookup_frame:
  assumes "\<And>a. a \<in> pt_area m d \<Longrightarrow> m' a = m a" "v < 1048576"
  shows "pt_lookup m' d v = pt_lookup m d v"
proof -
  let ?i = "v div 1024"
  have i: "?i < 1024" using assms(2) by simp
  have d: "pg_word m' d ?i = pg_word m d ?i"
    by (rule pg_word_frame [OF _ i]) (use assms(1) in \<open>auto simp: pt_area_def\<close>)
  then have eq: "pde_present m' d ?i = pde_present m d ?i" "pgtab_of m' d ?i = pgtab_of m d ?i"
    by (simp_all add: pde_present_def pgtab_of_def)
  have "pg_word m' (pgtab_of m d ?i) (v mod 1024) = pg_word m (pgtab_of m d ?i) (v mod 1024)" if "pde_present m d ?i"
    by (rule pg_word_frame) (use assms(1) i that in \<open>auto simp: pt_area_def\<close>)
  then show ?thesis using eq by (auto simp: pt_lookup_def Let_def)
qed

lemma mmu_frame:
  assumes "\<And>a. a \<in> pt_area (mem s) (P2V (cr3 s)) \<Longrightarrow> m' a = mem s a"
  shows "mmu wr va (s\<lparr>mem := m'\<rparr>) = mmu wr va s"
  using pt_lookup_frame [of "mem s" "P2V (cr3 s)" m' "unat va div 4096"] assms vpn_bound [of va] by (simp add: mmu_def)

lemma mmu_fields [simp]:
  "mmu wr va (s\<lparr>held := h\<rparr>) = mmu wr va s" "mmu wr va (s\<lparr>pipes := p\<rparr>) = mmu wr va s"
  "mmu wr va (s\<lparr>ptable := t\<rparr>) = mmu wr va s" "mmu wr va (s\<lparr>pipes := p, mem := m\<rparr>) = mmu wr va (s\<lparr>mem := m\<rparr>)"
  by (simp_all add: mmu_def)

section \<open>Buffers\<close>

text \<open>The bytes of the buffer at \<open>va\<close> are at the places \<open>f 0\<close>, \<open>f 1\<close>, \<open>...\<close>; the places are pairwise different and not in the page table.\<close>

definition ubuf_at :: "bool \<Rightarrow> kernel \<Rightarrow> u32 \<Rightarrow> nat \<Rightarrow> (nat \<Rightarrow> u32) \<Rightarrow> bool" where
  "ubuf_at wr s va n f \<longleftrightarrow> (\<forall>i < n. mmu wr (va + of_nat i) s = Some (f i))"

definition own_buf :: "kernel \<Rightarrow> nat \<Rightarrow> (nat \<Rightarrow> u32) \<Rightarrow> bool" where
  "own_buf s n f \<longleftrightarrow> inj_on f {..< n} \<and> (\<forall>i < n. unat (f i) \<notin> pt_area (mem s) (P2V (cr3 s)))"

primrec scatter :: "u8 list \<Rightarrow> (nat \<Rightarrow> u32) \<Rightarrow> bytes \<Rightarrow> bytes" where
  "scatter [] f m = m"
| "scatter (b # bs) f m = scatter bs (\<lambda>i. f (Suc i)) (m(unat (f 0) := b))"

lemma scatter_other: "(\<And>i. i < length bs \<Longrightarrow> a \<noteq> unat (f i)) \<Longrightarrow> scatter bs f m a = m a"
proof (induction bs arbitrary: f m)
  case (Cons b bs)
  have "a \<noteq> unat (f 0)" using Cons.prems [of 0] by simp
  moreover have "scatter bs (\<lambda>i. f (Suc i)) (m(unat (f 0) := b)) a = (m(unat (f 0) := b)) a"
    by (rule Cons.IH) (use Cons.prems in auto)
  ultimately show ?case by simp
qed simp

lemma inj_shift: "inj_on f {..< Suc n} \<Longrightarrow> inj_on (\<lambda>i. f (Suc i)) {..< n}"
  by (auto simp: inj_on_def)

lemma scatter_nth: "inj_on f {..< length bs} \<Longrightarrow> i < length bs \<Longrightarrow> scatter bs f m (unat (f i)) = bs ! i"
proof (induction bs arbitrary: f m i)
  case (Cons b bs)
  show ?case
  proof (cases i)
    case 0
    have "f 0 \<noteq> f (Suc j)" if "j < length bs" for j
      using inj_onD [OF Cons.prems(1), of 0 "Suc j"] that by auto
    then have "scatter bs (\<lambda>i. f (Suc i)) (m(unat (f 0) := b)) (unat (f 0)) = (m(unat (f 0) := b)) (unat (f 0))"
      by (intro scatter_other) (metis unsigned_word_eqI)
    then show ?thesis using 0 by simp
  next
    case (Suc j)
    then show ?thesis using Cons.IH [OF inj_shift, of f j] Cons.prems by simp
  qed
qed simp

lemma own_buf_scatter_mmu:
  assumes "own_buf s n f" "length bs \<le> n"
  shows "mmu wr va (s\<lparr>mem := scatter bs f (mem s)\<rparr>) = mmu wr va s"
  by (rule mmu_frame, rule scatter_other) (use assms in \<open>auto simp: own_buf_def\<close>)

lemma ubuf_at_Suc: "ubuf_at wr s va (Suc n) f \<longleftrightarrow> mmu wr va s = Some (f 0) \<and> ubuf_at wr s (va + 1) n (\<lambda>i. f (Suc i))"
  by (auto simp: ubuf_at_def less_Suc_eq_0_disj ac_simps)

lemma ubuf_at_less: "ubuf_at wr s va n f \<Longrightarrow> m \<le> n \<Longrightarrow> ubuf_at wr s va m f"
  by (auto simp: ubuf_at_def)

lemma va_load8_app: "mmu False va s = Some a \<Longrightarrow> va_load8 va s = Ret (mem s (unat a)) s"
  by (simp add: va_load8_def)

lemma va_store8_app: "mmu True va s = Some a \<Longrightarrow> va_store8 va b s = Ret () (s\<lparr>mem := (mem s)(unat a := b)\<rparr>)"
  by (simp add: va_store8_def)

text \<open>A place that may be written may be read.\<close>

lemma mmu_read: "mmu True va s = Some a \<Longrightarrow> mmu False va s = Some a"
  by (auto simp: mmu_def split: option.splits if_splits)

lemma va_load_app: "ubuf_at False s va n f \<Longrightarrow> va_load va n s = Ret (map (\<lambda>i. mem s (unat (f i))) [0 ..< n]) s"
proof (induction n arbitrary: va f)
  case (Suc n)
  then have "mmu False va s = Some (f 0)" "ubuf_at False s (va + 1) n (\<lambda>i. f (Suc i))" by (simp_all add: ubuf_at_Suc)
  then show ?case using Suc.IH by (simp add: va_load8_app upt_conv_Cons map_Suc_upt [symmetric] comp_def del: upt_Suc)
qed simp

lemma own_buf_tail:
  assumes "own_buf s (Suc n) f"
  shows "own_buf (s\<lparr>mem := (mem s)(unat (f 0) := b)\<rparr>) n (\<lambda>i. f (Suc i))"
    and "mmu wr va (s\<lparr>mem := (mem s)(unat (f 0) := b)\<rparr>) = mmu wr va s"
proof -
  let ?m = "(mem s)(unat (f 0) := b)" and ?d = "P2V (cr3 s)"
  have f0: "unat (f 0) \<notin> pt_area (mem s) ?d" using assms by (simp add: own_buf_def)
  have w: "pg_word ?m ?d i = pg_word (mem s) ?d i" if "i < 1024" for i
    by (rule pg_word_frame [OF _ that]) (use f0 in \<open>auto simp: pt_area_def\<close>)
  have "pt_area ?m ?d = pt_area (mem s) ?d"
    unfolding pt_area_def by (auto simp: pde_present_def pgtab_of_def w)
  then show "own_buf (s\<lparr>mem := ?m\<rparr>) n (\<lambda>i. f (Suc i))"
    using assms inj_shift [of f n] by (auto simp: own_buf_def)
  show "mmu wr va (s\<lparr>mem := ?m\<rparr>) = mmu wr va s"
    by (rule mmu_frame) (use f0 in auto)
qed

lemma va_store_app:
  "ubuf_at True s va (length bs) f \<Longrightarrow> own_buf s (length bs) f \<Longrightarrow> va_store va bs s = Ret () (s\<lparr>mem := scatter bs f (mem s)\<rparr>)"
proof (induction bs arbitrary: s va f)
  case (Cons b bs)
  let ?s = "s\<lparr>mem := (mem s)(unat (f 0) := b)\<rparr>"
  have own: "own_buf s (Suc (length bs)) f" using Cons.prems(2) by simp
  have "mmu True va s = Some (f 0)" "ubuf_at True s (va + 1) (length bs) (\<lambda>i. f (Suc i))"
    using Cons.prems(1) by (simp_all add: ubuf_at_Suc)
  moreover have own': "own_buf ?s (length bs) (\<lambda>i. f (Suc i))" by (rule own_buf_tail(1) [OF own])
  moreover have "ubuf_at True ?s (va + 1) (length bs) (\<lambda>i. f (Suc i))"
    using calculation(2) by (simp add: ubuf_at_def own_buf_tail(2) [OF own])
  ultimately have "va_store va (b # bs) s = va_store (va + 1) bs ?s" by (simp add: va_store8_app)
  also have "\<dots> = Ret () (?s\<lparr>mem := scatter bs (\<lambda>i. f (Suc i)) (mem ?s)\<rparr>)"
    by (rule Cons.IH) fact+
  finally show ?case by simp
qed simp

text \<open>
  What the kernel stores into a buffer of the running process is what it reads back from there, byte for
  byte, and no other byte of the memory changes; the buffer may span any number of pages that need not be adjacent in
  physical memory.
\<close>

lemma user_store_load:
  assumes "ubuf_at True s va (length bs) f" "own_buf s (length bs) f"
  shows "\<exists>t. va_store va bs s = Ret () t \<and> va_load va (length bs) t = Ret bs t
     \<and> (\<forall>a. a \<notin> (\<lambda>i. unat (f i)) ` {..< length bs} \<longrightarrow> mem t a = mem s a)"
proof (intro exI conjI allI impI)
  let ?t = "s\<lparr>mem := scatter bs f (mem s)\<rparr>"
  show "va_store va bs s = Ret () ?t" by (rule va_store_app [OF assms])
  have "ubuf_at False ?t va (length bs) f"
    using assms(1) mmu_read by (auto simp: ubuf_at_def own_buf_scatter_mmu [OF assms(2)])
  moreover have "map (\<lambda>i. scatter bs f (mem s) (unat (f i))) [0 ..< length bs] = bs"
    by (rule nth_equalityI) (use assms(2) in \<open>auto simp: scatter_nth own_buf_def\<close>)
  ultimately show "va_load va (length bs) ?t = Ret bs ?t" by (simp add: va_load_app)
  show "mem ?t a = mem s a" if "a \<notin> (\<lambda>i. unat (f i)) ` {..< length bs}" for a
    using that by (auto intro: scatter_other)
qed

section \<open>An example\<close>

text \<open>A page directory at \<open>0x400000\<close> with one table at \<open>0x401000\<close> that maps virtual page 5 to the frame at \<open>0x500000\<close>.\<close>

definition user_example :: kernel where
  "user_example = pt_example\<lparr>cr3 := 0x400000,
     mem := put32 (put32 (\<lambda>_. 0) 0x80400000 0x401007) (0x80401000 + 20) 0x500007\<rparr>"

lemma user_example_words:
  "pg_word (mem user_example) 0x80400000 0 = 0x401007"
  "0 < i \<Longrightarrow> i < 1024 \<Longrightarrow> pg_word (mem user_example) 0x80400000 i = 0"
  "pg_word (mem user_example) 0x80401000 5 = 0x500007"
proof -
  let ?m = "put32 (\<lambda>_. 0) 0x80400000 0x401007"
  have m: "mem user_example = put32 ?m (0x80401000 + 20) 0x500007" by (simp add: user_example_def)
  show "pg_word (mem user_example) 0x80401000 5 = 0x500007"
    unfolding m pg_word_def using get32_put32 [of ?m "0x80401000 + 20" "0x500007"] by simp
  have "pg_word (mem user_example) 0x80400000 i = get32 ?m (0x80400000 + 4 * i)" if "i < 1024" for i
    unfolding m pg_word_def using that by (simp add: get32_put32_other)
  moreover have "get32 ?m (0x80400000 + 4 * i) = get32 (\<lambda>_. 0) (0x80400000 + 4 * i)" if "i > 0" for i
    using that by (simp add: get32_put32_other)
  ultimately show "pg_word (mem user_example) 0x80400000 0 = 0x401007"
    "0 < i \<Longrightarrow> i < 1024 \<Longrightarrow> pg_word (mem user_example) 0x80400000 i = 0"
    using get32_put32 [of "\<lambda>_. 0" "0x80400000" "0x401007"] by (simp_all add: get32_def)
qed

lemma user_example_area: "a \<in> pt_area (mem user_example) 0x80400000 \<Longrightarrow> a < 0x80402000"
proof -
  assume "a \<in> pt_area (mem user_example) 0x80400000"
  moreover have "i = 0" if "i < 1024" "pde_present (mem user_example) 0x80400000 i" for i
    using that user_example_words(2) [of i] by (cases "i = 0") (auto simp: pde_present_def)
  moreover have "pgtab_of (mem user_example) 0x80400000 0 = 0x80401000"
    by (simp add: pgtab_of_def user_example_words P2V_def PTE_ADDR_def KERNBASE_def)
  ultimately show ?thesis by (fastforce simp: pt_area_def)
qed

lemma user_example_mmu: "unat va div 4096 = 5 \<Longrightarrow> mmu True va user_example = Some (0x80500000 + (va AND 0xFFF))"
proof -
  assume v: "unat va div 4096 = 5"
  have "P2V (cr3 user_example) = 0x80400000" by (simp add: user_example_def P2V_def KERNBASE_def)
  moreover have "pt_lookup (mem user_example) 0x80400000 5 = Some 0x500007"
    by (simp add: pt_lookup_def pde_present_def pgtab_of_def user_example_words P2V_def PTE_ADDR_def KERNBASE_def PTE_P_def)
  ultimately show ?thesis using v by (simp add: mmu_def PTE_W_def PTE_ADDR_def P2V_def KERNBASE_def)
qed

lemma user_example_buf:
  "ubuf_at True user_example 0x5000 3 (\<lambda>i. 0x80500000 + of_nat i)"
  "own_buf user_example 3 (\<lambda>i. 0x80500000 + of_nat i)"
proof -
  have three: "(i :: nat) < 3 \<longleftrightarrow> i = 0 \<or> i = 1 \<or> i = 2" for i by auto
  show "ubuf_at True user_example 0x5000 3 (\<lambda>i. 0x80500000 + of_nat i)"
    by (auto simp: ubuf_at_def three user_example_mmu)
  have "P2V (cr3 user_example) = 0x80400000" by (simp add: user_example_def P2V_def KERNBASE_def)
  then show "own_buf user_example 3 (\<lambda>i. 0x80500000 + of_nat i)"
    by (auto simp: own_buf_def inj_on_def three dest: user_example_area)
qed

end
