(* ===== verification/Pipes.thy ===== *)
theory Pipes
  imports File Ring Usermem
begin

text \<open>
  Pipes as queues. The ring buffer of \<open>pipe.c\<close>, whose two counters run freely and wrap around,
  implements the bounded queue of theory \<open>Ring\<close>; \<open>pipewrite\<close> and \<open>piperead\<close> move bytes between
  the memory of the running process and that queue.
\<close>

section \<open>The ring of a pipe\<close>

definition pipe_items :: "pipe \<Rightarrow> u8 list" where
  "pipe_items x = ring_items 512 (pi_data x) (pi_nread x) (pi_nwrite x)"

definition pipe_ok :: "pipe \<Rightarrow> bool" where
  "pipe_ok x \<longleftrightarrow> unat (pi_nwrite x - pi_nread x) \<le> 512"

definition pipe_empty :: "pipe \<Rightarrow> bool" where
  "pipe_empty x \<longleftrightarrow> pi_nread x = pi_nwrite x"

lemma pipe_index: "unat (k mod PIPESIZE) = unat k mod 512"
  by (simp add: PIPESIZE_def unat_mod_distrib)

lemma pipe_full_iff: "pipe_full x \<longleftrightarrow> unat (pi_nwrite x - pi_nread x) = 512"
proof -
  have "pipe_full x \<longleftrightarrow> pi_nwrite x - pi_nread x = 512" by (auto simp: pipe_full_def PIPESIZE_def algebra_simps)
  then show ?thesis by (simp add: word_unat_eq_iff)
qed

interpretation pq: bounded_queue pipe_items pipe_ok pipe_put pipe_head pipe_drop pipe_full pipe_empty 512
proof
  fix x :: pipe and b :: u8
  assume ok: "pipe_ok x"
  show "length (pipe_items x) \<le> 512" using ok by (simp add: pipe_items_def pipe_ok_def)
  show "pipe_full x = (length (pipe_items x) = 512)" by (simp add: pipe_items_def pipe_full_iff)
  show "pipe_empty x = (pipe_items x = [])"
    by (auto simp: pipe_items_def pipe_empty_def ring_items_def unat_eq_zero)
  show "pipe_ok (pipe_put b x)" "pipe_items (pipe_put b x) = pipe_items x @ [b]" if "\<not> pipe_full x"
  proof -
    have lt: "unat (pi_nwrite x - pi_nread x) < 512" using ok that by (simp add: pipe_ok_def pipe_full_iff)
    then show "pipe_ok (pipe_put b x)" by (simp add: pipe_ok_def pipe_put_def unat_next)
    show "pipe_items (pipe_put b x) = pipe_items x @ [b]"
      using ring_items_put [of 512 "pi_nwrite x" "pi_nread x" "pi_data x" b] lt
      by (simp add: pipe_items_def pipe_put_def pipe_index)
  qed
  show "pipe_ok (pipe_drop x)" "pipe_items x = pipe_head x # pipe_items (pipe_drop x)" if "\<not> pipe_empty x"
  proof -
    have ne: "pi_nwrite x \<noteq> pi_nread x" using that by (simp add: pipe_empty_def)
    then show "pipe_ok (pipe_drop x)" using ok unat_prev [OF ne] by (simp add: pipe_ok_def pipe_drop_def)
    show "pipe_items x = pipe_head x # pipe_items (pipe_drop x)"
      using ring_items_take [of 512 "pi_nwrite x" "pi_nread x" "pi_data x"] ne
      by (simp add: pipe_items_def pipe_drop_def pipe_head_def pipe_index)
  qed
qed

text \<open>
  C7: The ring buffer of a pipe is a queue of at most 512 bytes: in every interleaving of writers that add a byte when
  there is room and readers that take one when there is any, the bytes come out in the order in which
  they went in, none is lost and none appears twice, also when the 32-bit counters wrap around.
\<close>

theorem pipe_refines_queue:
  assumes "pipe_ok x" "impl_run pipe_put pipe_head pipe_drop pipe_full pipe_empty ops x = (out, y)"
  shows "pipe_ok y \<and> queue_run 512 ops (pipe_items x) = (out, pipe_items y)"
  using assms by (rule pq.run_refines)

theorem pipe_refines_queue_witness:
  "pipe_ok (zero_pipe\<lparr>pi_nread := -1, pi_nwrite := -1\<rparr>) \<and>
   fst (impl_run pipe_put pipe_head pipe_drop pipe_full pipe_empty [Put 7, Put 8, Take, Take, Take]
     (zero_pipe\<lparr>pi_nread := -1, pi_nwrite := -1\<rparr>)) = [7, 8]"
proof -
  let ?x = "zero_pipe\<lparr>pi_nread := -1, pi_nwrite := -1\<rparr>"
  let ?ops = "[Put (7 :: u8), Put 8, Take, Take, Take]"
  obtain out y where r: "impl_run pipe_put pipe_head pipe_drop pipe_full pipe_empty ?ops ?x = (out, y)" by force
  have ok: "pipe_ok ?x" "pipe_items ?x = []" by (simp_all add: pipe_ok_def pipe_items_def ring_items_def)
  have "queue_run 512 ?ops [] = ([7, 8], [])" by simp
  with pipe_refines_queue [OF ok(1) r] ok r show ?thesis by (simp del: queue_run.simps impl_run.simps)
qed

section \<open>Writing\<close>

lemma pipe_get_app [simp]: "pipe_get p g s = Ret (g (pipes s p)) s"
  by (simp add: pipe_get_def)

lemma pipe_mod_app [simp]: "pipe_mod p g s = Ret () (s\<lparr>pipes := (pipes s)(p := g (pipes s p))\<rparr>)"
  by (simp add: pipe_mod_def)

text \<open>Adding a list of bytes.\<close>

lemma puts:
  "pipe_ok x \<Longrightarrow> length (pipe_items x) + length bs \<le> 512 \<Longrightarrow>
   pipe_ok (fold pipe_put bs x) \<and> pipe_items (fold pipe_put bs x) = pipe_items x @ bs"
proof (induction bs arbitrary: x)
  case (Cons b bs)
  then have "\<not> pipe_full x" by (simp add: pq.full_iff)
  then show ?case using Cons pq.put_ok [of x b] pq.put_items [of x b] by simp
qed simp

lemma pipewrite_loop_app:
  assumes "pipe_ok (pipes s p)" "length (pipe_items (pipes s p)) + length bs \<le> 512"
    and "\<And>j. j < length bs \<Longrightarrow> \<exists>a. mmu False (addr + of_int i + of_nat j) s = Some a \<and> mem s (unat a) = bs ! j"
    and "n = i + int (length bs)" "length bs < k"
    and "held s = L_pipe p # hs" "L_ptable \<notin> set hs"
  shows "pipewrite_loop k p addr n i s =
    Ret n ((wake (ChanPipeRead p) s)\<lparr>pipes := (pipes s)(p := fold pipe_put bs (pipes s p)), held := hs\<rparr>)"
  using assms
proof (induction bs arbitrary: s i k)
  case Nil
  then obtain k' where "k = Suc k'" by (cases k) auto
  moreover have "wakeup (ChanPipeRead p) s = Ret () (wake (ChanPipeRead p) s)"
    by (rule wakeup_wake) (simp add: Nil.prems)
  moreover have "release (L_pipe p) (wake (ChanPipeRead p) s) = Ret () ((wake (ChanPipeRead p) s)\<lparr>held := hs\<rparr>)"
    by (simp add: release_app Nil.prems)
  ultimately show ?case using Nil.prems(4) by simp
next
  case (Cons b bs)
  obtain k' where k: "k = Suc k'" "length bs < k'" using Cons.prems(5) by (cases k) auto
  have nf: "\<not> pipe_full (pipes s p)" using Cons.prems(1,2) by (simp add: pq.full_iff)
  let ?s = "s\<lparr>pipes := (pipes s)(p := pipe_put b (pipes s p))\<rparr>"
  from Cons.prems(3) [of 0] have ld: "va_load8 (addr + of_int i) s = Ret b s" by (auto simp: va_load8_app)
  have "pipewrite_loop k p addr n i s = pipewrite_loop k' p addr n (i + 1) ?s"
    using Cons.prems(4) nf ld k by simp
  also have "\<dots> = Ret n ((wake (ChanPipeRead p) ?s)\<lparr>pipes := (pipes ?s)(p := fold pipe_put bs (pipes ?s p)), held := hs\<rparr>)"
  proof (rule Cons.IH)
    show "pipe_ok (pipes ?s p)" using pq.put_ok [OF Cons.prems(1) nf] by simp
    show "length (pipe_items (pipes ?s p)) + length bs \<le> 512"
      using Cons.prems(2) pq.put_items [OF Cons.prems(1) nf] by simp
    show "\<exists>a. mmu False (addr + of_int (i + 1) + of_nat j) ?s = Some a \<and> mem ?s (unat a) = bs ! j"
      if "j < length bs" for j
      using Cons.prems(3) [of "Suc j"] that by (simp add: add.assoc)
  qed (use Cons.prems k in auto)
  also have "\<dots> = Ret n ((wake (ChanPipeRead p) s)\<lparr>pipes := (pipes s)(p := fold pipe_put (b # bs) (pipes s p)), held := hs\<rparr>)"
    by (simp add: wake_def)
  finally show ?case .
qed

text \<open>
  C8: \<open>pipewrite\<close> of \<open>n\<close> bytes into a pipe with room for them does not wait: it appends the bytes of the
  caller's buffer to the queue, wakes the readers, and returns \<open>n\<close>; memory and locks are as before.
\<close>

theorem pipewrite_appends:
  assumes "pipe_ok (pipes s p)" "length (pipe_items (pipes s p)) + length bs \<le> 512"
    and "ubuf_at False s addr (length bs) f" "map (\<lambda>i. mem s (unat (f i))) [0 ..< length bs] = bs"
    and "L_pipe p \<notin> set (held s)" "L_ptable \<notin> set (held s)"
  shows "\<exists>t. pipewrite p addr (int (length bs)) s = Ret (int (length bs)) t
    \<and> pipe_ok (pipes t p) \<and> pipe_items (pipes t p) = pipe_items (pipes s p) @ bs
    \<and> (\<forall>q. q \<noteq> p \<longrightarrow> pipes t q = pipes s q) \<and> mem t = mem s \<and> held t = held s \<and> ptable t = ptable (wake (ChanPipeRead p) s)"
proof -
  let ?s = "s\<lparr>held := L_pipe p # held s\<rparr>"
  have "\<exists>a. mmu False (addr + of_int 0 + of_nat j) ?s = Some a \<and> mem ?s (unat a) = bs ! j" if "j < length bs" for j
    using assms(3) arg_cong [OF assms(4), of "\<lambda>l. l ! j"] that by (simp add: ubuf_at_def)
  then have "pipewrite_loop (Suc (fuel s + length bs)) p addr (int (length bs)) 0 ?s =
    Ret (int (length bs)) ((wake (ChanPipeRead p) ?s)\<lparr>pipes := (pipes ?s)(p := fold pipe_put bs (pipes ?s p)), held := held s\<rparr>)"
    by (intro pipewrite_loop_app) (use assms in auto)
  then have "pipewrite p addr (int (length bs)) s = Ret (int (length bs))
      ((wake (ChanPipeRead p) ?s)\<lparr>pipes := (pipes ?s)(p := fold pipe_put bs (pipes ?s p)), held := held s\<rparr>)"
    using assms(5) by (simp add: pipewrite_def acquire_app del: pipewrite_loop.simps)
  then show ?thesis using puts [OF assms(1,2)] by (simp add: wake_def)
qed

section \<open>Reading\<close>

lemma piperead_copy_app:
  assumes "pipe_ok (pipes s p)" "l = min k (length (pipe_items (pipes s p)))"
    and "ubuf_at True s (addr + of_int i) l f" "own_buf s l f"
  shows "piperead_copy k p addr i s = Ret (i + int l)
    (s\<lparr>pipes := (pipes s)(p := (pipe_drop ^^ l) (pipes s p)), mem := scatter (take l (pipe_items (pipes s p))) f (mem s)\<rparr>)"
  using assms
proof (induction k arbitrary: s i l f)
  case (Suc k)
  let ?x = "pipes s p"
  show ?case
  proof (cases "pipe_empty ?x")
    case True
    then have "pipe_items ?x = []" using pq.void_iff [OF Suc.prems(1)] by simp
    then show ?thesis using True Suc.prems(2) by (simp add: pipe_empty_def)
  next
    case False
    note it = pq.rest_items [OF Suc.prems(1) False] and ok = pq.rest_ok [OF Suc.prems(1) False]
    define l' where "l' = min k (length (pipe_items (pipe_drop ?x)))"
    have l: "l = Suc l'" using Suc.prems(2) it by (simp add: l'_def)
    let ?t = "s\<lparr>pipes := (pipes s)(p := pipe_drop ?x)\<rparr>"
    let ?u = "?t\<lparr>mem := (mem s)(unat (f 0) := pipe_head ?x)\<rparr>"
    have b: "mmu True (addr + of_int i) s = Some (f 0)" "ubuf_at True s (addr + of_int i + 1) l' (\<lambda>i. f (Suc i))"
      using Suc.prems(3) by (simp_all add: l ubuf_at_Suc)
    have own: "own_buf ?t (Suc l') f" using Suc.prems(4) by (simp add: own_buf_def l)
    have "piperead_copy (Suc k) p addr i s = piperead_copy k p addr (i + 1) ?u"
      using False b(1) by (simp add: pipe_empty_def va_store8_app)
    also have "\<dots> = Ret (i + 1 + int l') (?u\<lparr>pipes := (pipes ?u)(p := (pipe_drop ^^ l') (pipes ?u p)),
        mem := scatter (take l' (pipe_items (pipes ?u p))) (\<lambda>i. f (Suc i)) (mem ?u)\<rparr>)"
    proof (rule Suc.IH)
      show "pipe_ok (pipes ?u p)" using ok by simp
      show "l' = min k (length (pipe_items (pipes ?u p)))" by (simp add: l'_def)
      have "mmu True va ?u = mmu True va s" for va
        using own_buf_tail(2) [OF own, of True va "pipe_head ?x"] by simp
      then show "ubuf_at True ?u (addr + of_int (i + 1)) l' (\<lambda>i. f (Suc i))"
        using b(2) by (simp add: ubuf_at_def add.assoc)
      show "own_buf ?u l' (\<lambda>i. f (Suc i))" using own_buf_tail(1) [OF own, of "pipe_head ?x"] by simp
    qed
    finally show ?thesis by (simp add: l it funpow_swap1 fun_upd_def cong: if_cong del: piperead_copy.simps)
  qed
qed simp

text \<open>
  C9: \<open>piperead\<close> of \<open>n\<close> bytes from a pipe that holds some, or that no writer has open any more, does not wait: it
  takes the oldest bytes, as many as are there but at most \<open>n\<close>, stores them in order in the
  caller's buffer and nowhere else, wakes the writers, and returns their number; on a closed empty pipe that is 0.
\<close>

theorem piperead_takes:
  assumes "pipe_ok (pipes s p)" "pipe_items (pipes s p) \<noteq> [] \<or> \<not> pi_writeopen (pipes s p)"
    and "ubuf_at True s addr n f" "own_buf s n f"
    and "L_pipe p \<notin> set (held s)" "L_ptable \<notin> set (held s)"
  shows "\<exists>t l. l = min n (length (pipe_items (pipes s p))) \<and> piperead p addr (int n) s = Ret (int (l)) t
    \<and> pipe_ok (pipes t p) \<and> pipe_items (pipes t p) = drop (l) (pipe_items (pipes s p))
    \<and> va_load addr (l) t = Ret (take (l) (pipe_items (pipes s p))) t
    \<and> (\<forall>a. a \<notin> (\<lambda>i. unat (f i)) ` {..< l} \<longrightarrow> mem t a = mem s a)
    \<and> held t = held s \<and> ptable t = ptable (wake (ChanPipeWrite p) s)"
proof -
  define l where "l = min n (length (pipe_items (pipes s p)))"
  note l = l_def
  let ?s = "s\<lparr>held := L_pipe p # held s\<rparr>"
  let ?bs = "take l (pipe_items (pipes s p))"
  have len: "length ?bs = l" "l \<le> n" by (simp_all add: l)
  let ?u = "?s\<lparr>pipes := (pipes ?s)(p := (pipe_drop ^^ l) (pipes ?s p)), mem := scatter ?bs f (mem ?s)\<rparr>"
  let ?t = "(wake (ChanPipeWrite p) ?u)\<lparr>held := held s\<rparr>"
  have buf: "ubuf_at True s addr l f" using ubuf_at_less [OF assms(3) len(2)] .
  have own: "own_buf s l f" using assms(4) len(2) by (auto simp: own_buf_def intro: inj_on_subset)
  have "\<not> (pi_nread (pipes s p) = pi_nwrite (pipes s p) \<and> pi_writeopen (pipes s p))"
    using assms(2) pq.void_iff [OF assms(1)] by (auto simp: pipe_empty_def)
  moreover have "piperead_copy n p addr 0 ?s = Ret (0 + int l) ?u"
    using piperead_copy_app [of ?s p l n addr 0 f] assms(1) l buf own by (simp add: ubuf_at_def own_buf_def)
  ultimately have "piperead p addr (int n) s = Ret (int l) ?t"
    using assms(5,6) by (auto simp add: piperead_def acquire_app release_app wakeup_wake simp del: piperead_copy.simps)
  moreover have "pipe_ok (pipes ?t p) \<and> pipe_items (pipes ?t p) = drop l (pipe_items (pipes s p))"
    using pq.rests [OF assms(1), of l] by (simp add: l)
  moreover have "va_load addr l ?t = Ret ?bs ?t"
  proof -
    have "mmu True va ?t = mmu True va s" for va
      using own_buf_scatter_mmu [OF own, of ?bs True va] len by (simp add: wake_def)
    then have "ubuf_at False ?t addr l f" using buf by (auto simp: ubuf_at_def intro: mmu_read)
    moreover have "map (\<lambda>i. mem ?t (unat (f i))) [0 ..< l] = ?bs"
      by (rule nth_equalityI) (use own len scatter_nth [of f ?bs] in \<open>auto simp: own_buf_def\<close>)
    ultimately show ?thesis using va_load_app [of ?t addr l f] by simp
  qed
  moreover have "mem ?t a = mem s a" if "a \<notin> (\<lambda>i. unat (f i)) ` {..< l}" for a
    using that len by (auto intro: scatter_other)
  moreover have "held ?t = held s" "ptable ?t = ptable (wake (ChanPipeWrite p) s)" by (simp_all add: wake_def)
  ultimately show ?thesis using l by blast
qed

section \<open>An example\<close>

text \<open>The process of \<open>user_example\<close> with a pipe at \<open>0x80600000\<close> that holds two bytes.\<close>

definition pipe_example :: kernel where
  "pipe_example = user_example\<lparr>pipes := (\<lambda>_. zero_pipe)(0x80600000 :=
     fold pipe_put [65, 66] (zero_pipe\<lparr>pi_readopen := True, pi_writeopen := True\<rparr>))\<rparr>"

lemma pipe_example_ok:
  "pipe_ok (pipes pipe_example 0x80600000)" "pipe_items (pipes pipe_example 0x80600000) = [65, 66]"
  "ubuf_at True pipe_example 0x5000 3 (\<lambda>i. 0x80500000 + of_nat i)" "own_buf pipe_example 3 (\<lambda>i. 0x80500000 + of_nat i)"
  "held pipe_example = []"
proof -
  let ?x = "zero_pipe\<lparr>pi_readopen := True, pi_writeopen := True\<rparr>"
  have "pipe_ok ?x" "pipe_items ?x = []" by (simp_all add: pipe_ok_def pipe_items_def zero_pipe_def ring_items_def)
  with puts [of ?x "[65, 66]"] show "pipe_ok (pipes pipe_example 0x80600000)" "pipe_items (pipes pipe_example 0x80600000) = [65, 66]"
    by (simp_all add: pipe_example_def)
  show "ubuf_at True pipe_example 0x5000 3 (\<lambda>i. 0x80500000 + of_nat i)" "own_buf pipe_example 3 (\<lambda>i. 0x80500000 + of_nat i)"
    using user_example_buf by (simp_all add: pipe_example_def ubuf_at_def own_buf_def)
  show "held pipe_example = []" by (simp add: pipe_example_def user_example_def pt_example_def boot_kernel_def)
qed

theorem pipewrite_appends_witness:
  "\<exists>t. pipewrite 0x80600000 0x5000 3 pipe_example = Ret 3 t \<and> pipe_items (pipes t 0x80600000) = [65, 66, 0, 0, 0]"
proof -
  let ?f = "\<lambda>i. 0x80500000 + of_nat i :: u32" and ?bs = "replicate 3 (0 :: u8)"
  have z: "mem pipe_example (0x80500000 + i) = 0" if "i < 4096" for i
    using that by (simp add: pipe_example_def user_example_def put32_def)
  have "ubuf_at False pipe_example 0x5000 3 ?f" using pipe_example_ok(3) mmu_read by (auto simp: ubuf_at_def)
  moreover have "map (\<lambda>i. mem pipe_example (unat (?f i))) [0 ..< length ?bs] = ?bs"
    using z [of 0] z [of 1] z [of 2] by (simp add: upt_rec numeral_3_eq_3)
  ultimately show ?thesis
    using pipewrite_appends [of pipe_example "0x80600000" ?bs "0x5000" ?f] pipe_example_ok
    by (auto simp: numeral_3_eq_3)
qed

theorem piperead_takes_witness:
  "\<exists>t. piperead 0x80600000 0x5000 3 pipe_example = Ret 2 t \<and> va_load 0x5000 2 t = Ret [65, 66] t
     \<and> pipe_items (pipes t 0x80600000) = []"
  using piperead_takes [of pipe_example "0x80600000" "0x5000" 3 "\<lambda>i. 0x80500000 + of_nat i"] pipe_example_ok
  by (auto simp: numeral_2_eq_2 simp del: va_load.simps)

end
