(* ===== verification/Lines.thy ===== *)
theory Lines
  imports Console Ring
begin

text \<open>
  The line discipline of the console. The input buffer is a ring with three counters; seen from
  outside it is a list of bytes that readers may take and the line that is being typed. The
  interrupt handler \<open>consoleintr\<close> implements a line editor on these two lists.
\<close>

section \<open>The ring of the input buffer\<close>

definition in_items :: "input_buf \<Rightarrow> u8 list" where
  "in_items b = ring_items 128 (in_buf b) (in_r b) (in_e b)"

definition in_room :: "input_buf \<Rightarrow> bool" where
  "in_room b \<longleftrightarrow> unat (in_e b - in_r b) \<le> 128"

definition in_put :: "u8 \<Rightarrow> input_buf \<Rightarrow> input_buf" where
  "in_put c b = b\<lparr>in_buf := (in_buf b)(unat (in_e b mod INPUT_BUF) := c), in_e := in_e b + 1\<rparr>"

definition in_next :: "input_buf \<Rightarrow> u8" where
  "in_next b = in_char b (in_r b)"

definition in_drop :: "input_buf \<Rightarrow> input_buf" where
  "in_drop b = b\<lparr>in_r := in_r b + 1\<rparr>"

definition in_full :: "input_buf \<Rightarrow> bool" where
  "in_full b \<longleftrightarrow> \<not> in_e b - in_r b < INPUT_BUF"

definition in_void :: "input_buf \<Rightarrow> bool" where
  "in_void b \<longleftrightarrow> in_r b = in_e b"

lemma in_index: "unat (k mod INPUT_BUF) = unat k mod 128"
  by (simp add: INPUT_BUF_def unat_mod_distrib)

lemma in_full_iff: "in_room b \<Longrightarrow> in_full b \<longleftrightarrow> unat (in_e b - in_r b) = 128"
  by (auto simp: in_full_def in_room_def INPUT_BUF_def word_less_nat_alt)

interpretation cq: bounded_queue in_items in_room in_put in_next in_drop in_full in_void 128
proof
  fix x :: input_buf and b :: u8
  assume ok: "in_room x"
  show "length (in_items x) \<le> 128" using ok by (simp add: in_items_def in_room_def)
  show "in_full x = (length (in_items x) = 128)" using in_full_iff [OF ok] by (simp add: in_items_def)
  show "in_void x = (in_items x = [])"
    by (auto simp: in_items_def in_void_def ring_items_def unat_eq_zero)
  show "in_room (in_put b x)" "in_items (in_put b x) = in_items x @ [b]" if "\<not> in_full x"
  proof -
    have lt: "unat (in_e x - in_r x) < 128" using ok that in_full_iff [OF ok] by (simp add: in_room_def)
    then show "in_room (in_put b x)" by (simp add: in_room_def in_put_def unat_next)
    show "in_items (in_put b x) = in_items x @ [b]"
      using ring_items_put [of 128 "in_e x" "in_r x" "in_buf x" b] lt by (simp add: in_items_def in_put_def in_index)
  qed
  show "in_room (in_drop x)" "in_items x = in_next x # in_items (in_drop x)" if "\<not> in_void x"
  proof -
    have ne: "in_e x \<noteq> in_r x" using that by (simp add: in_void_def)
    then show "in_room (in_drop x)" using ok unat_prev [OF ne] by (simp add: in_room_def in_drop_def)
    show "in_items x = in_next x # in_items (in_drop x)"
      using ring_items_take [of 128 "in_e x" "in_r x" "in_buf x"] ne
      by (simp add: in_items_def in_drop_def in_next_def in_char_def in_index)
  qed
qed

section \<open>The line editor\<close>

text \<open>
  The specification: bytes that readers may take, and the line that is being typed. Control-P is for
  the list of processes and not part of the input. Control-U
  drops the line, control-H and delete its last byte; a newline, control-D, or
  a full buffer hands the line over.
\<close>

definition type_char :: "u8 \<Rightarrow> u8 list \<times> u8 list \<Rightarrow> u8 list \<times> u8 list" where
  "type_char c = (\<lambda>(ready, line).
     if c = 16 then (ready, line)
     else if c = 21 then (ready, [])
     else if c = 8 \<or> c = 127 then (ready, butlast line)
     else if c \<noteq> 0 \<and> length ready + length line < 128 then
       let c' = (if c = 13 then 10 else c); line' = line @ [c'] in
       if c' = 10 \<or> c' = 4 \<or> length ready + length line' = 128 then (ready @ line', []) else (ready, line')
     else (ready, line))"

text \<open>What the input buffer stands for, and the invariant of its counters.\<close>

definition in_lines :: "input_buf \<Rightarrow> u8 list \<times> u8 list" where
  "in_lines b = (let n = unat (in_w b - in_r b) in (take n (in_items b), drop n (in_items b)))"

definition in_ok :: "input_buf \<Rightarrow> bool" where
  "in_ok b \<longleftrightarrow> in_room b \<and> unat (in_w b - in_r b) \<le> unat (in_e b - in_r b) \<and> 10 \<notin> set (snd (in_lines b))"

definition cursor_ok :: "kernel \<Rightarrow> bool" where
  "cursor_ok s \<longleftrightarrow> 0 \<le> crt_pos s \<and> crt_pos s < 24 * 80"

lemma length_in_items [simp]: "length (in_items b) = unat (in_e b - in_r b)"
  by (simp add: in_items_def)

lemma length_in_lines: "in_ok b \<Longrightarrow> length (fst (in_lines b)) + length (snd (in_lines b)) = length (in_items b)"
  by (simp add: in_lines_def Let_def in_ok_def)

lemma line_empty_iff: "in_ok b \<Longrightarrow> snd (in_lines b) = [] \<longleftrightarrow> in_e b = in_w b"
  using word_unat_eq_iff [of "in_e b - in_r b" "in_w b - in_r b"] by (auto simp: in_lines_def Let_def in_ok_def)

lemma line_last:
  assumes "in_ok b" "in_e b \<noteq> in_w b"
  shows "in_char b (in_e b - 1) = last (snd (in_lines b))"
proof -
  have ne: "in_e b \<noteq> in_r b" using assms by (auto simp: in_ok_def unat_eq_zero)
  then have u: "unat (in_e b - in_r b) = Suc (unat (in_e b - 1 - in_r b))"
    using Suc_unat_minus [of "in_e b - in_r b"] by (simp add: algebra_simps)
  have "last (snd (in_lines b)) = last (in_items b)"
    using assms line_empty_iff [OF assms(1)] by (auto simp: in_lines_def Let_def intro: last_drop)
  also have "\<dots> = in_items b ! unat (in_e b - 1 - in_r b)"
    using u by (subst last_conv_nth) (auto simp: in_items_def ring_items_def)
  also have "\<dots> = in_buf b ((unat (in_r b) + unat (in_e b - 1 - in_r b)) mod 128)"
    using u by (simp add: in_items_def nth_ring_items)
  also have "\<dots> = in_buf b (unat (in_e b - 1) mod 128)"
    using unat_add_mod [of 128 "in_r b" "in_e b - 1 - in_r b"] by simp
  finally show ?thesis by (simp add: in_char_def in_index)
qed

section \<open>One character\<close>

lemma in_mod_app [simp]: "in_mod f s = Ret () (s\<lparr>cons_in := f (cons_in s)\<rparr>)"
  by (simp add: in_mod_def)

text \<open>Output does not panic and changes neither the input buffer nor the locks.\<close>

definition quiet :: "kernel \<Rightarrow> kernel \<Rightarrow> bool" where
  "quiet s t \<longleftrightarrow> cons_in t = cons_in s \<and> held t = held s \<and> cursor_ok t"

lemma consputc_quiet:
  assumes "cursor_ok s"
  obtains t where "consputc c s = Ret () t" "quiet s t"
proof -
  obtain u where u: "(if c = BACKSPACE then kthen (uartputc 8) (kthen (uartputc 32) (uartputc 8)) else uartputc c) s = Ret () u"
      "cons_in u = cons_in s" "held u = held s" "crt_pos u = crt_pos s"
    by (rule that [of "s\<lparr>cons_out := cons_out s @ (if c = BACKSPACE then [8, 32, 8] else [of_int c])\<rparr>"])
       (simp_all add: uartputc_def)
  obtain m where m: "cgaputc c u = Ret () (u\<lparr>crt := m, crt_pos := crt_pos_after c (crt_pos u)\<rparr>)"
    using cgaputc_pos [of u c] assms u by (auto simp: cursor_ok_def)
  have "cursor_ok (u\<lparr>crt := m, crt_pos := crt_pos_after c (crt_pos u)\<rparr>)"
    using crt_pos_after_bounds [of "crt_pos u" c] assms u by (simp add: cursor_ok_def)
  with m u that show ?thesis by (simp add: consputc_def quiet_def)
qed

lemma in_unput:
  assumes "in_ok b" "in_e b \<noteq> in_w b"
  shows "in_ok (b\<lparr>in_e := in_e b - 1\<rparr>)"
    and "in_lines (b\<lparr>in_e := in_e b - 1\<rparr>) = (fst (in_lines b), butlast (snd (in_lines b)))"
proof -
  let ?b = "b\<lparr>in_e := in_e b - 1\<rparr>"
  have ne: "in_e b \<noteq> in_r b" using assms by (auto simp: in_ok_def unat_eq_zero)
  have it: "in_items ?b = butlast (in_items b)" using ring_items_unput [OF ne, of 128 "in_buf b"] by (simp add: in_items_def)
  have u: "unat (in_e b - in_r b) = Suc (unat (in_e b - 1 - in_r b))"
    using Suc_unat_minus [of "in_e b - in_r b"] ne by (simp add: algebra_simps)
  have "unat (in_w b - in_r b) \<noteq> unat (in_e b - in_r b)" using assms(2) by (simp add: word_unat_eq_iff [symmetric])
  then have w: "unat (in_w b - in_r b) \<le> unat (in_e b - 1 - in_r b)" using assms(1) u by (simp add: in_ok_def)
  then show li: "in_lines ?b = (fst (in_lines b), butlast (snd (in_lines b)))"
    using u by (simp add: in_lines_def Let_def it butlast_drop take_butlast)
  show "in_ok ?b" using assms(1) u w by (auto simp: in_ok_def in_room_def li dest: in_set_butlastD)
qed

lemma kill_line_app:
  assumes "in_ok (cons_in s)" "cursor_ok s" "unat (in_e (cons_in s) - in_w (cons_in s)) < n"
  shows "\<exists>t. kill_line n s = Ret () t \<and> in_ok (cons_in t) \<and> in_lines (cons_in t) = (fst (in_lines (cons_in s)), [])
    \<and> held t = held s \<and> cursor_ok t"
  using assms
proof (induction n arbitrary: s)
  case (Suc n)
  let ?b = "cons_in s"
  show ?case
  proof (cases "in_e ?b = in_w ?b")
    case True
    then show ?thesis using Suc.prems line_empty_iff [of ?b] by (auto simp: prod_eq_iff)
  next
    case False
    let ?u = "s\<lparr>cons_in := ?b\<lparr>in_e := in_e ?b - 1\<rparr>\<rparr>"
    have "snd (in_lines ?b) \<noteq> []" using line_empty_iff Suc.prems(1) False by simp
    then have "last (snd (in_lines ?b)) \<noteq> 10" using Suc.prems(1) last_in_set by (fastforce simp: in_ok_def)
    then have ch: "in_char ?b (in_e ?b - 1) \<noteq> of_int nl" using line_last [OF Suc.prems(1) False] by (simp add: nl_def)
    have "cursor_ok ?u" using Suc.prems(2) by (simp add: cursor_ok_def)
    then obtain t where t: "consputc BACKSPACE ?u = Ret () t" "quiet ?u t" by (rule consputc_quiet)
    have e: "unat (in_e ?b - 1 - in_w ?b) < n"
      using Suc.prems(3) Suc_unat_minus [of "in_e ?b - in_w ?b"] False by (simp add: algebra_simps)
    have "kill_line (Suc n) s = kill_line n t" using ch False t(1) by simp
    then show ?thesis
      using Suc.IH [of t] in_unput [OF Suc.prems(1) False] t(2) e by (auto simp: quiet_def)
  qed
qed simp

lemma in_put_ok:
  assumes "in_ok b" "\<not> in_full b" "c \<noteq> 10"
  shows "in_ok (in_put c b)" "in_lines (in_put c b) = (fst (in_lines b), snd (in_lines b) @ [c])"
proof -
  have room: "in_room b" using assms by (simp add: in_ok_def)
  have it: "in_items (in_put c b) = in_items b @ [c]" by (rule cq.put_items [OF room assms(2)])
  have ln: "unat (in_e (in_put c b) - in_r (in_put c b)) = Suc (unat (in_e b - in_r b))"
    using arg_cong [OF it, of length] by simp
  have eq: "in_r (in_put c b) = in_r b" "in_w (in_put c b) = in_w b" by (simp_all add: in_put_def)
  show li: "in_lines (in_put c b) = (fst (in_lines b), snd (in_lines b) @ [c])"
    using assms(1) by (simp add: in_lines_def Let_def it eq in_ok_def)
  show "in_ok (in_put c b)"
    using assms(1,3) cq.put_ok [OF room assms(2)] ln by (simp add: in_ok_def li eq)
qed

lemma in_commit:
  assumes "in_room b"
  shows "in_ok (b\<lparr>in_w := in_e b\<rparr>)" "in_lines (b\<lparr>in_w := in_e b\<rparr>) = (in_items b, [])"
proof -
  have it: "in_items (b\<lparr>in_w := in_e b\<rparr>) = in_items b" by (simp add: in_items_def)
  show li: "in_lines (b\<lparr>in_w := in_e b\<rparr>) = (in_items b, [])" by (simp add: in_lines_def Let_def it)
  show "in_ok (b\<lparr>in_w := in_e b\<rparr>)" using assms by (simp add: in_ok_def li in_room_def)
qed


lemma in_lines_items: "in_ok b \<Longrightarrow> fst (in_lines b) @ snd (in_lines b) = in_items b"
  by (simp add: in_lines_def Let_def)

text \<open>Typing a byte that goes into the buffer.\<close>

lemma console_store:
  assumes "in_ok (cons_in s)" "cursor_ok s" "L_ptable \<notin> set (held s)" "\<not> in_full (cons_in s)"
  shows "\<exists>t. kthen (in_mod (\<lambda>b. b\<lparr>in_buf := (in_buf b)(unat (in_e b mod INPUT_BUF) := of_int (uint c)), in_e := in_e b + 1\<rparr>))
        (kthen (consputc (uint c))
        (kbind (kget cons_in) (\<lambda>b.
         kwhen (uint c = nl \<or> uint c = ctrl (CHR ''D'') \<or> in_e b = in_r b + INPUT_BUF)
           (kthen (in_mod (\<lambda>b. b\<lparr>in_w := in_e b\<rparr>)) (wakeup ChanInput))))) s = Ret () t
    \<and> in_ok (cons_in t) \<and> held t = held s \<and> cursor_ok t
    \<and> in_lines (cons_in t) = (let (ready, line) = in_lines (cons_in s); line' = line @ [c] in
        if c = 10 \<or> c = 4 \<or> length ready + length line' = 128 then (ready @ line', []) else (ready, line'))"
proof -
  let ?b = "cons_in s"
  let ?u = "s\<lparr>cons_in := in_put c ?b\<rparr>"
  have room: "in_room ?b" using assms(1) by (simp add: in_ok_def)
  note it = cq.put_items [OF room assms(4), of c] and ok = cq.put_ok [OF room assms(4), of c]
  have "cursor_ok ?u" using assms(2) by (simp add: cursor_ok_def)
  then obtain t where t: "consputc (uint c) ?u = Ret () t" "quiet ?u t" by (rule consputc_quiet)
  let ?p = "uint c = nl \<or> uint c = ctrl (CHR ''D'') \<or> in_e (cons_in t) = in_r (cons_in t) + INPUT_BUF"
  have ci: "cons_in t = in_put c ?b" using t(2) by (simp add: quiet_def)
  have "in_e (cons_in t) = in_r (cons_in t) + INPUT_BUF \<longleftrightarrow> in_e (cons_in t) - in_r (cons_in t) = 128"
    by (auto simp: INPUT_BUF_def algebra_simps)
  also have "\<dots> \<longleftrightarrow> length (in_items (in_put c ?b)) = 128" using ci by (simp add: word_unat_eq_iff)
  also have "\<dots> \<longleftrightarrow> length (fst (in_lines ?b)) + length (snd (in_lines ?b) @ [c]) = 128"
    using length_in_lines [OF assms(1)] by (simp add: it)
  finally have p: "?p \<longleftrightarrow> c = 10 \<or> c = 4 \<or> length (fst (in_lines ?b)) + length (snd (in_lines ?b) @ [c]) = 128"
    by (simp add: nl_def ctrl_def chr_def word_uint_eq_iff)
  have put: "(\<lambda>b. b\<lparr>in_buf := (in_buf b)(unat (in_e b mod INPUT_BUF) := of_int (uint c)), in_e := in_e b + 1\<rparr>) = in_put c"
    by (simp add: in_put_def fun_eq_iff)
  show ?thesis
  proof (cases ?p)
    case True
    let ?v = "t\<lparr>cons_in := (cons_in t)\<lparr>in_w := in_e (cons_in t)\<rparr>\<rparr>"
    have "L_ptable \<notin> set (held ?v)" using t(2) assms(3) by (simp add: quiet_def)
    note w = wakeup_app [OF this, of ChanInput]
    show ?thesis
      unfolding put using True p t w in_commit [OF ok] in_lines_items [OF assms(1)]
      by (auto simp: quiet_def ci it cursor_ok_def Let_def split: prod.splits)
  next
    case False
    then have "c \<noteq> 10" using p by simp
    then show ?thesis
      unfolding put using False p t in_put_ok [OF assms(1,4)]
      by (auto simp: quiet_def ci Let_def split: prod.splits)
  qed
qed

lemma console_char_app:
  assumes "in_ok (cons_in s)" "cursor_ok s" "L_ptable \<notin> set (held s)"
  shows "\<exists>t. kwhen (uint c \<noteq> ctrl (CHR ''P'')) (console_char (uint c)) s = Ret () t \<and> in_ok (cons_in t)
    \<and> in_lines (cons_in t) = type_char c (in_lines (cons_in s)) \<and> held t = held s \<and> cursor_ok t"
proof -
  let ?b = "cons_in s"
  obtain ready line where rl: "in_lines ?b = (ready, line)" by force
  have len: "length ready + length line = length (in_items ?b)" using length_in_lines [OF assms(1)] rl by simp
  have ct: "ctrl (CHR ''P'') = 16" "ctrl (CHR ''U'') = 21" "ctrl (CHR ''H'') = 8" by (simp_all add: ctrl_def chr_def)
  have eqs: "uint c = 16 \<longleftrightarrow> c = 16" "uint c = 21 \<longleftrightarrow> c = 21" "uint c = 8 \<longleftrightarrow> c = 8" "uint c = 127 \<longleftrightarrow> c = 127"
    "uint c = 0 \<longleftrightarrow> c = 0" "uint c = 13 \<longleftrightarrow> c = 13" by (simp_all add: word_uint_eq_iff)
  consider "c = 16" | "c = 21" | "c = 8 \<or> c = 127" | "c \<notin> {16, 21, 8, 127}" by blast
  then show ?thesis
  proof cases
    case 1
    then show ?thesis using assms rl by (simp add: ct eqs type_char_def)
  next
    case 2
    then show ?thesis using kill_line_app [OF assms(1,2), of "Suc (unat (in_e ?b - in_w ?b))"] rl
      by (simp add: ct eqs type_char_def console_char_def del: kill_line.simps)
  next
    case 3
    show ?thesis
    proof (cases "in_e ?b = in_w ?b")
      case True
      then have "line = []" using line_empty_iff [OF assms(1)] rl by simp
      then show ?thesis using 3 True assms rl by (auto simp: ct eqs type_char_def console_char_def)
    next
      case False
      let ?u = "s\<lparr>cons_in := ?b\<lparr>in_e := in_e ?b - 1\<rparr>\<rparr>"
      have "cursor_ok ?u" using assms(2) by (simp add: cursor_ok_def)
      then obtain t where t: "consputc BACKSPACE ?u = Ret () t" "quiet ?u t" by (rule consputc_quiet)
      then show ?thesis using 3 False in_unput [OF assms(1) False] rl
        by (auto simp: ct eqs type_char_def console_char_def quiet_def)
    qed
  next
    case 4
    have full: "in_full ?b \<longleftrightarrow> \<not> length ready + length line < 128"
      using in_full_iff [of ?b] assms(1) len by (auto simp: in_ok_def in_room_def)
    have run: "kwhen (uint c \<noteq> ctrl (CHR ''P'')) (console_char (uint c)) s =
      kwhen (c \<noteq> 0 \<and> \<not> in_full ?b) (let c' = (if uint c = 13 then nl else uint c) in
        kthen (in_mod (\<lambda>b. b\<lparr>in_buf := (in_buf b)(unat (in_e b mod INPUT_BUF) := of_int c'), in_e := in_e b + 1\<rparr>))
        (kthen (consputc c')
        (kbind (kget cons_in) (\<lambda>b.
         kwhen (c' = nl \<or> c' = ctrl (CHR ''D'') \<or> in_e b = in_r b + INPUT_BUF)
           (kthen (in_mod (\<lambda>b. b\<lparr>in_w := in_e b\<rparr>)) (wakeup ChanInput)))))) s"
      using 4 by (simp add: ct eqs console_char_def in_full_def)
    show ?thesis
    proof (cases "c = 0 \<or> in_full ?b")
      case True
      then have k: "kwhen (c \<noteq> 0 \<and> \<not> in_full ?b) m = kret ()" for m :: "unit kk" by auto
      have "type_char c (ready, line) = (ready, line)" using 4 True full by (auto simp: type_char_def)
      then show ?thesis unfolding run k using assms rl by simp
    next
      case False
      define d where "d = (if c = 13 then 10 else c)"
      have d: "(if uint c = 13 then nl else uint c) = uint d" by (simp add: d_def eqs nl_def)
      have nf: "\<not> in_full ?b" and k: "kwhen (c \<noteq> 0 \<and> \<not> in_full ?b) m = m" for m :: "unit kk" using False by auto
      have "type_char c (in_lines ?b) = (let (ready, line) = in_lines ?b; line' = line @ [d] in
          if d = 10 \<or> d = 4 \<or> length ready + length line' = 128 then (ready @ line', []) else (ready, line'))"
        using 4 False full rl by (simp add: type_char_def Let_def d_def)
      then show ?thesis
        unfolding run d k Let_def using console_store [OF assms nf, of d, unfolded Let_def] by (simp only:) blast
    qed
  qed
qed

section \<open>The interrupt handler\<close>

lemma console_chars_app:
  assumes "in_ok (cons_in s)" "cursor_ok s" "L_ptable \<notin> set (held s)"
  shows "\<exists>t. kfor (map uint cs) (\<lambda>c. kwhen (c \<noteq> ctrl (CHR ''P'')) (console_char c)) s = Ret () t \<and> in_ok (cons_in t)
    \<and> in_lines (cons_in t) = fold type_char cs (in_lines (cons_in s)) \<and> held t = held s \<and> cursor_ok t"
  using assms
proof (induction cs arbitrary: s)
  case (Cons c cs)
  from console_char_app [OF Cons.prems, of c] obtain t where
    t: "kwhen (uint c \<noteq> ctrl (CHR ''P'')) (console_char (uint c)) s = Ret () t" "in_ok (cons_in t)"
      "in_lines (cons_in t) = type_char c (in_lines (cons_in s))" "held t = held s" "cursor_ok t" by blast
  then show ?case using Cons.IH [of t] Cons.prems(3) by simp
qed simp

text \<open>
  C11: The console interrupt handler is a line editor: whatever bytes arrive, the part of the input buffer that
  readers may take and the line being typed become what editing them byte by byte gives, on a ring buffer
  whose counters may wrap around; nothing panics, the locks are given back, the invariant of the three counters is
  kept, and the buffer never holds more than 128 bytes.
\<close>

theorem console_line_editor:
  assumes "in_ok (cons_in s)" "cursor_ok s" "L_ptable \<notin> set (held s)" "L_cons \<notin> set (held s)" "16 \<notin> set cs"
  shows "\<exists>t. consoleintr (map uint cs) s = Ret () t \<and> in_ok (cons_in t)
    \<and> in_lines (cons_in t) = fold type_char cs (in_lines (cons_in s)) \<and> held t = held s \<and> cursor_ok t"
proof -
  have "c = 16" if "uint c = 16" for c :: u8 using that by (simp add: word_uint_eq_iff)
  then have "ctrl (CHR ''P'') \<notin> set (map uint cs)" using assms(5) by (auto simp: ctrl_def chr_def)
  moreover have "cursor_ok (s\<lparr>held := L_cons # held s\<rparr>)" using assms(2) by (simp add: cursor_ok_def)
  ultimately show ?thesis
    using console_chars_app [of "s\<lparr>held := L_cons # held s\<rparr>" cs] assms
    by (auto simp: consoleintr_def acquire_app release_app cursor_ok_def)
qed

theorem console_line_editor_witness:
  "\<forall>y m d n. \<exists>t. consoleintr (map uint [104, 106, 8, 105, 13, 120 :: u8]) (boot_kernel y m d n) = Ret () t
     \<and> in_lines (cons_in t) = ([104, 105, 10], [120])"
proof (intro allI)
  fix y m d n
  let ?s = "boot_kernel y m d n"
  have "in_items (cons_in ?s) = []" by (simp add: in_items_def ring_items_def boot_kernel_def)
  moreover from this have "in_ok (cons_in ?s)" "in_lines (cons_in ?s) = ([], [])"
    by (simp_all add: in_ok_def in_room_def in_lines_def boot_kernel_def)
  moreover have "cursor_ok ?s" "held ?s = []" by (simp_all add: cursor_ok_def boot_kernel_def)
  ultimately show "\<exists>t. consoleintr (map uint [104, 106, 8, 105, 13, 120 :: u8]) ?s = Ret () t
     \<and> in_lines (cons_in t) = ([104, 105, 10], [120])"
    using console_line_editor [of ?s "[104, 106, 8, 105, 13, 120]"] by (auto simp: type_char_def)
qed

end
