(* ===== verification/Bcache.thy ===== *)
theory Bcache
  imports Bio
begin

text \<open>
  What the buffer cache promises. The relation \<open>cached\<close> ties the buffers to two maps from block
  numbers to blocks: what is on the disk, and what readers of the cache see. The two differ only on blocks that
  are pinned as dirty or locked by the running process. Each operation of \<open>bio.c\<close> then has a
  specification on these maps; the process runs alone, so no buffer is locked by anyone else.
\<close>

section \<open>Blocks\<close>

definition content :: "bytes \<Rightarrow> u8 list" where
  "content d = map d [0 ..< BSIZE]"

lemma content_copy [simp]: "content (copy_block d e) = content e"
  by (simp add: content_def copy_block_def)

definition blk :: "buf \<Rightarrow> nat" where
  "blk x = unat (b_blockno x)"

lemma held_upd_id: "held t = h \<Longrightarrow> t\<lparr>held := h\<rparr> = t"
  by auto

section \<open>Locks of buffers when the process runs alone\<close>

text \<open>The running process has an entry in the table and holds no spin lock.\<close>

definition alone :: "kernel \<Rightarrow> int \<Rightarrow> bool" where
  "alone s pid \<longleftrightarrow> held s = [] \<and> (\<exists>me < length (ptable s). myproc s = Some me \<and> p_pid (proc_at me s) = pid)"

definition set_lock :: "nat \<Rightarrow> sleeplock \<Rightarrow> kernel \<Rightarrow> kernel" where
  "set_lock i v s = s\<lparr>bufs := (bufs s)[i := (bufs s ! i)\<lparr>b_lock := v\<rparr>]\<rparr>"

lemma acquiresleep_free:
  assumes "alone s pid" "\<not> sl_locked (b_lock (bufs s ! i))"
  shows "acquiresleep (SL_Buf i) s = Ret () (set_lock i \<lparr>sl_locked = True, sl_pid = pid\<rparr> s)"
proof -
  obtain me where "myproc s = Some me" "p_pid (proc_at me s) = pid" "held s = []" using assms by (auto simp: alone_def)
  then show ?thesis using assms(2)
    by (simp add: acquiresleep_def acquire_app release_app get_sl_def curproc_app upd_sl_def set_lock_def held_upd_id)
qed

lemma holdingsleep_mine:
  assumes "alone s pid" "b_lock (bufs s ! i) = \<lparr>sl_locked = True, sl_pid = pid\<rparr>"
  shows "holdingsleep (SL_Buf i) s = Ret True s"
proof -
  obtain me where "myproc s = Some me" "p_pid (proc_at me s) = pid" "held s = []" using assms by (auto simp: alone_def)
  then show ?thesis using assms(2)
    by (simp add: holdingsleep_def acquire_app release_app get_sl_def curproc_app held_upd_id)
qed

lemma releasesleep_mine:
  assumes "alone s pid"
  shows "releasesleep (SL_Buf i) s = Ret () (wake (ChanSleeplock (SL_Buf i)) (set_lock i \<lparr>sl_locked = False, sl_pid = 0\<rparr> s))"
proof -
  have "held s = []" using assms by (simp add: alone_def)
  then show ?thesis
    by (simp add: releasesleep_def acquire_app release_app wakeup_wake upd_sl_def set_lock_def)
       (simp add: wake_def held_upd_id)
qed

lemma length_ptable_wake [simp]: "length (ptable (wake ch s)) = length (ptable s)"
  by (simp add: wake_def)

lemma alone_upd [simp]:
  "alone (s\<lparr>bufs := B\<rparr>) pid = alone s pid" "alone (s\<lparr>blru := l\<rparr>) pid = alone s pid"
  "alone (s\<lparr>disk := d, dwrites := w\<rparr>) pid = alone s pid" "alone (s\<lparr>klog := g\<rparr>) pid = alone s pid"
  "alone (wake ch s) pid = alone s pid" "alone (set_lock i v s) pid = alone s pid"
proof -
  show "alone (wake ch s) pid = alone s pid"
    unfolding alone_def by (auto simp: wake_pid)
qed (simp_all add: alone_def set_lock_def)

section \<open>The relation\<close>

text \<open>
  \<open>D\<close> is the disk, \<open>V\<close> what readers see, \<open>P\<close> the blocks pinned as dirty, \<open>H\<close> the locked buffers
  with their blocks.
\<close>

definition buf_ok :: "int \<Rightarrow> (nat \<Rightarrow> u8 list) \<Rightarrow> nat set \<Rightarrow> bool \<Rightarrow> buf \<Rightarrow> bool" where
  "buf_ok pid V P locked x \<longleftrightarrow>
     (b_valid x \<longleftrightarrow> b_dev x = 1) \<and> (b_valid x \<longrightarrow> content (b_data x) = V (blk x)) \<and>
     (b_dirty x \<longrightarrow> b_valid x \<and> blk x \<in> P) \<and>
     (if locked then b_refcnt x = 1 \<and> b_lock x = \<lparr>sl_locked = True, sl_pid = pid\<rparr> \<and> b_valid x
      else b_refcnt x = 0 \<and> \<not> sl_locked (b_lock x))"

definition cached :: "int \<Rightarrow> (nat \<Rightarrow> u8 list) \<Rightarrow> (nat \<Rightarrow> u8 list) \<Rightarrow> nat set \<Rightarrow> (nat \<times> nat) list \<Rightarrow> kernel \<Rightarrow> bool" where
  "cached pid D V P H s \<longleftrightarrow> alone s pid
     \<and> length (bufs s) = NBUF \<and> distinct (blru s) \<and> set (blru s) = {..< NBUF}
     \<and> (\<forall>b. content (disk s b) = D b)
     \<and> (\<forall>i < NBUF. \<forall>j < NBUF. b_dev (bufs s ! i) = 1 \<and> b_dev (bufs s ! j) = 1 \<and> blk (bufs s ! i) = blk (bufs s ! j) \<longrightarrow> i = j)
     \<and> (\<forall>i < NBUF. buf_ok pid V P (i \<in> fst ` set H) (bufs s ! i))
     \<and> (\<forall>b \<in> P. \<exists>i < NBUF. blk (bufs s ! i) = b \<and> b_dirty (bufs s ! i))
     \<and> (\<forall>b. b \<notin> P \<and> b \<notin> snd ` set H \<longrightarrow> V b = D b)
     \<and> distinct (map fst H) \<and> (\<forall>(i, b) \<in> set H. i < NBUF \<and> blk (bufs s ! i) = b)"

text \<open>The rest of the state that the operations leave alone.\<close>

definition same_rest :: "kernel \<Rightarrow> kernel \<Rightarrow> bool" where
  "same_rest s t \<longleftrightarrow> klog t = klog s \<and> disksize t = disksize s \<and> sb t = sb s"

lemma same_rest_refl [simp]: "same_rest s s"
  by (simp add: same_rest_def)

lemma same_rest_trans: "same_rest s t \<Longrightarrow> same_rest t u \<Longrightarrow> same_rest s u"
  by (simp add: same_rest_def)

lemma NBUF_30: "NBUF = 30"
  by (simp add: NBUF_def MAXOPBLOCKS_def)

lemma cachedD:
  assumes "cached pid D V P H s"
  shows "alone s pid" "length (bufs s) = NBUF" "set (blru s) = {..< NBUF}" "distinct (blru s)" "content (disk s b) = D b"
    and "i < NBUF \<Longrightarrow> j < NBUF \<Longrightarrow> b_dev (bufs s ! i) = 1 \<Longrightarrow> b_dev (bufs s ! j) = 1 \<Longrightarrow>
           blk (bufs s ! i) = blk (bufs s ! j) \<Longrightarrow> i = j"
    and "i < NBUF \<Longrightarrow> buf_ok pid V P (i \<in> fst ` set H) (bufs s ! i)"
    and "b \<in> P \<Longrightarrow> \<exists>i < NBUF. blk (bufs s ! i) = b \<and> b_dirty (bufs s ! i)"
    and "b \<notin> P \<Longrightarrow> b \<notin> snd ` set H \<Longrightarrow> V b = D b"
    and "distinct (map fst H)" "(i, b) \<in> set H \<Longrightarrow> i < NBUF" "(i, b) \<in> set H \<Longrightarrow> blk (bufs s ! i) = b"
proof -
  show "alone s pid" "length (bufs s) = NBUF" "set (blru s) = {..< NBUF}" "distinct (blru s)" "content (disk s b) = D b"
    "distinct (map fst H)" "i < NBUF \<Longrightarrow> buf_ok pid V P (i \<in> fst ` set H) (bufs s ! i)"
    "b \<notin> P \<Longrightarrow> b \<notin> snd ` set H \<Longrightarrow> V b = D b"
    using assms by (simp_all add: cached_def)
  have uniq: "\<forall>i < NBUF. \<forall>j < NBUF. b_dev (bufs s ! i) = 1 \<and> b_dev (bufs s ! j) = 1 \<and> blk (bufs s ! i) = blk (bufs s ! j) \<longrightarrow> i = j"
    and pinned: "\<forall>b \<in> P. \<exists>i < NBUF. blk (bufs s ! i) = b \<and> b_dirty (bufs s ! i)"
    and locked: "\<forall>(i, b) \<in> set H. i < NBUF \<and> blk (bufs s ! i) = b"
    using assms by (simp_all add: cached_def)
  show "i < NBUF \<Longrightarrow> j < NBUF \<Longrightarrow> b_dev (bufs s ! i) = 1 \<Longrightarrow> b_dev (bufs s ! j) = 1 \<Longrightarrow>
           blk (bufs s ! i) = blk (bufs s ! j) \<Longrightarrow> i = j"
    using uniq [rule_format, of i j] by simp
  show "b \<in> P \<Longrightarrow> \<exists>i < NBUF. blk (bufs s ! i) = b \<and> b_dirty (bufs s ! i)" using pinned by (rule bspec)
  show "(i, b) \<in> set H \<Longrightarrow> i < NBUF" "(i, b) \<in> set H \<Longrightarrow> blk (bufs s ! i) = b" using bspec [OF locked, of "(i, b)"] by simp_all
qed

text \<open>A change of one buffer, field by field.\<close>

lemma cached_buf:
  assumes c: "cached pid D V P H s" and i: "i < NBUF"
    and x: "b_dev x = 1" "blk x = b" "buf_ok pid V' P' (i \<in> fst ` set H') x"
    and uniq: "\<And>j. j < NBUF \<Longrightarrow> j \<noteq> i \<Longrightarrow> b_dev (bufs s ! j) = 1 \<Longrightarrow> blk (bufs s ! j) \<noteq> b"
    and others: "\<And>j. j < NBUF \<Longrightarrow> j \<noteq> i \<Longrightarrow> buf_ok pid V' P' (j \<in> fst ` set H') (bufs s ! j)"
    and pinned: "\<And>c. c \<in> P' \<Longrightarrow> c = b \<and> b_dirty x \<or> (\<exists>j < NBUF. j \<noteq> i \<and> blk (bufs s ! j) = c \<and> b_dirty (bufs s ! j))"
    and agree: "\<And>c. c \<notin> P' \<Longrightarrow> c \<notin> snd ` set H' \<Longrightarrow> V' c = D' c"
    and H: "distinct (map fst H')" "\<And>j c. (j, c) \<in> set H' \<Longrightarrow> j < NBUF \<and> (if j = i then c = b else blk (bufs s ! j) = c)"
    and t: "bufs t = (bufs s)[i := x]" "alone t pid" "distinct (blru t)" "set (blru t) = {..< NBUF}" "\<And>c. content (disk t c) = D' c"
  shows "cached pid D' V' P' H' t"
proof -
  note cs = cachedD [OF c]
  have nth: "bufs t ! j = (if j = i then x else bufs s ! j)" if "j < NBUF" for j using that cs(2) t(1) i by simp
  have "i1 = i2" if "i1 < NBUF" "i2 < NBUF" "b_dev (bufs t ! i1) = 1" "b_dev (bufs t ! i2) = 1" "blk (bufs t ! i1) = blk (bufs t ! i2)" for i1 i2
  proof (cases "i1 = i")
    case True
    show ?thesis
    proof (rule ccontr)
      assume ne: "i1 \<noteq> i2"
      then have "bufs t ! i2 = bufs s ! i2" "bufs t ! i1 = x" using nth [OF that(1)] nth [OF that(2)] True by simp_all
      then show False using uniq [OF that(2)] that(4,5) x(2) ne True by simp
    qed
  next
    case False
    show ?thesis
    proof (cases "i2 = i")
      case True
      then show ?thesis using uniq [OF that(1) False] that nth [OF that(1)] nth [OF that(2)] x(2) False by simp
    next
      case ne: False
      then show ?thesis using cs(6) [of i1 i2] that nth [OF that(1)] nth [OF that(2)] False by simp
    qed
  qed
  moreover have "\<exists>j < NBUF. blk (bufs t ! j) = c \<and> b_dirty (bufs t ! j)" if "c \<in> P'" for c
  proof -
    note pin = pinned [OF that]
    consider "c = b" "b_dirty x" | j where "j < NBUF" "j \<noteq> i" "blk (bufs s ! j) = c" "b_dirty (bufs s ! j)"
      using pin by blast
    then show ?thesis
    proof cases
      case 1
      then show ?thesis using nth [OF i] i x(2) by (intro exI [of _ i]) simp
    next
      case 2
      then show ?thesis using nth [OF 2(1)] by (intro exI [of _ j]) simp
    qed
  qed
  moreover have "buf_ok pid V' P' (j \<in> fst ` set H') (bufs t ! j)" if "j < NBUF" for j
    using others [OF that] nth [OF that] x(3) by simp
  moreover have "\<forall>(j, c) \<in> set H'. j < NBUF \<and> blk (bufs t ! j) = c"
  proof (clarify)
    fix j c
    assume "(j, c) \<in> set H'"
    from H(2) [OF this] show "j < NBUF \<and> blk (bufs t ! j) = c" using nth [of j] x(2) by (cases "j = i") simp_all
  qed
  moreover have "length (bufs t) = NBUF" using t(1) cs(2) by simp
  ultimately show ?thesis unfolding cached_def using t(2-) agree H(1) by blast
qed

section \<open>Finding a buffer\<close>

lemma find_SomeI: "i \<in> set xs \<Longrightarrow> Q i \<Longrightarrow> (\<And>j. j \<in> set xs \<Longrightarrow> Q j \<Longrightarrow> j = i) \<Longrightarrow> find Q xs = Some i"
proof (induction xs)
  case (Cons x xs)
  show ?case
  proof (cases "Q x")
    case True
    then show ?thesis using Cons.prems(3) [of x] by simp
  next
    case False
    then have "i \<in> set xs" "x \<noteq> i" using Cons.prems(1,2) by auto
    then have "find Q xs = Some i" using Cons.prems(2,3) by (intro Cons.IH) simp_all
    then show ?thesis using False by simp
  qed
qed simp

lemma find_SomeD: "find Q xs = Some i \<Longrightarrow> i \<in> set xs \<and> Q i"
  by (induction xs) (auto split: if_splits)

lemma bget_hit:
  assumes "cached pid D V P H s" "i < NBUF" "b_dev (bufs s ! i) = 1" "blk (bufs s ! i) = unat bn"
  shows "find (\<lambda>i. b_dev (buf_at i s) = 1 \<and> b_blockno (buf_at i s) = bn) (blru s) = Some i"
proof (rule find_SomeI)
  note cs = cachedD [OF assms(1)]
  show "i \<in> set (blru s)" using cs(3) assms(2) by simp
  show "b_dev (buf_at i s) = 1 \<and> b_blockno (buf_at i s) = bn"
    using assms(3,4) by (simp add: buf_at_def blk_def word_unat_eq_iff)
  fix j
  assume "j \<in> set (blru s)" and j: "b_dev (buf_at j s) = 1 \<and> b_blockno (buf_at j s) = bn"
  then have "j < NBUF" using cs(3) by simp
  then show "j = i" by (rule cs(6)) (use assms(2-) j in \<open>simp_all add: buf_at_def blk_def\<close>)
qed

lemma bget_miss:
  assumes "cached pid D V P H s" "\<And>i. i < NBUF \<Longrightarrow> b_dev (bufs s ! i) = 1 \<Longrightarrow> blk (bufs s ! i) \<noteq> unat bn"
  shows "find (\<lambda>i. b_dev (buf_at i s) = 1 \<and> b_blockno (buf_at i s) = bn) (blru s) = None"
  unfolding find_None_iff
proof (rule notI, elim exE conjE)
  fix j
  assume "j \<in> set (blru s)" "b_dev (buf_at j s) = 1" "b_blockno (buf_at j s) = bn"
  then show False using assms(2) [of j] cachedD(3) [OF assms(1)] by (simp add: buf_at_def blk_def)
qed

text \<open>There is a buffer to recycle as long as the pinned and the locked ones are fewer than all.\<close>

lemma free_buffer:
  assumes c: "cached pid D V P H s" and "finite P" "card P + length H < NBUF"
  shows "\<exists>i < NBUF. i \<notin> fst ` set H \<and> \<not> b_dirty (bufs s ! i)"
proof (rule ccontr)
  assume none: "\<not> ?thesis"
  note cs = cachedD [OF c]
  let ?X = "{i. i < NBUF \<and> b_dirty (bufs s ! i)}"
  have d: "b_dev (bufs s ! i) = 1" "blk (bufs s ! i) \<in> P" if "i \<in> ?X" for i
    using cs(7) [of i] that by (auto simp: buf_ok_def)
  have "inj_on (\<lambda>i. blk (bufs s ! i)) ?X" by (rule inj_onI) (use d cs(6) in auto)
  moreover have "(\<lambda>i. blk (bufs s ! i)) ` ?X \<subseteq> P" using d by auto
  ultimately have "card ?X \<le> card P" using assms(2) by (rule card_inj_on_le)
  moreover have "card (fst ` set H) \<le> length H" using card_image_le [of "set H" fst] card_length [of H] by simp
  moreover have "{..< NBUF} \<subseteq> ?X \<union> fst ` set H" using none by auto
  then have "card {..< NBUF} \<le> card (?X \<union> fst ` set H)" by (intro card_mono) auto
  moreover have "card (?X \<union> fst ` set H) \<le> card ?X + card (fst ` set H)" by (rule card_Un_le)
  ultimately show False using assms(3) by simp
qed

lemma bget_recycle:
  assumes c: "cached pid D V P H s" and "finite P" "card P + length H < NBUF"
  obtains i where "find (\<lambda>i. b_refcnt (buf_at i s) = 0 \<and> \<not> b_dirty (buf_at i s)) (rev (blru s)) = Some i"
    "i < NBUF" "i \<notin> fst ` set H" "\<not> b_dirty (bufs s ! i)"
proof -
  note cs = cachedD [OF c]
  let ?Q = "\<lambda>i. b_refcnt (buf_at i s) = 0 \<and> \<not> b_dirty (buf_at i s)"
  obtain k where "k < NBUF" "k \<notin> fst ` set H" "\<not> b_dirty (bufs s ! k)" using free_buffer [OF assms] by blast
  then have "k \<in> set (rev (blru s))" "?Q k" using cs(3) cs(7) [of k] by (simp_all add: buf_ok_def buf_at_def)
  then have "find ?Q (rev (blru s)) \<noteq> None" unfolding find_None_iff by blast
  then obtain i where i: "find ?Q (rev (blru s)) = Some i" by blast
  then have q: "i \<in> set (rev (blru s))" "?Q i" using find_SomeD by fast+
  then have b: "i < NBUF" using cs(3) by simp
  have "i \<notin> fst ` set H" using cs(7) [OF b] q(2) by (cases "i \<in> fst ` set H") (simp_all add: buf_ok_def buf_at_def)
  moreover have "\<not> b_dirty (bufs s ! i)" using q(2) by (simp add: buf_at_def)
  ultimately show thesis by (rule that [OF i b])
qed

section \<open>Reading, writing and releasing a block\<close>

lemma buf_get_app [simp]: "buf_get i f s = Ret (f (bufs s ! i)) s"
  by (simp add: buf_get_def buf_at_def)

lemma buf_mod_app [simp]: "buf_mod i f s = Ret () (s\<lparr>bufs := (bufs s)[i := f (bufs s ! i)]\<rparr>)"
  by (simp add: buf_mod_def)

lemma buf_op_seq [simp]:
  "kbind (buf_get i f) k s = k (f (bufs s ! i)) s"
  "kthen (buf_mod i g) m s = m (s\<lparr>bufs := (bufs s)[i := g (bufs s ! i)]\<rparr>)"
  by (simp_all add: buf_get_def buf_mod_def buf_at_def)

lemma alone_held: "alone s pid \<Longrightarrow> held s = []"
  by (simp add: alone_def)

lemma bread_hit:
  assumes c: "cached pid D V P H s" and i: "i < NBUF" "b_dev (bufs s ! i) = 1" "blk (bufs s ! i) = unat bn"
    and new: "unat bn \<notin> snd ` set H"
  shows "bread 1 bn s = Ret i (s\<lparr>bufs := (bufs s)[i := (bufs s ! i)\<lparr>b_refcnt := 1, b_lock := \<lparr>sl_locked = True, sl_pid = pid\<rparr>\<rparr>]\<rparr>)"
proof -
  note cs = cachedD [OF c]
  have "i \<notin> fst ` set H" using new cs(12) [of i] i(3) by force
  then have x: "b_refcnt (bufs s ! i) = 0" "\<not> sl_locked (b_lock (bufs s ! i))" "b_valid (bufs s ! i)"
    using cs(7) [OF i(1)] i(2) by (auto simp: buf_ok_def)
  let ?s = "s\<lparr>bufs := (bufs s)[i := (bufs s ! i)\<lparr>b_refcnt := 1\<rparr>]\<rparr>"
  have "acquiresleep (SL_Buf i) ?s = Ret () (set_lock i \<lparr>sl_locked = True, sl_pid = pid\<rparr> ?s)"
    by (rule acquiresleep_free) (use cs(1,2) x(2) i in simp_all)
  then show ?thesis
    using bget_hit [OF c i] x cs(2) i(1) alone_held [OF cs(1)]
    by (simp add: bread_def bget_def acquire_app release_app set_lock_def held_upd_id buf_at_def)
qed

text \<open>What \<open>iderw\<close> does to a buffer that the process has locked.\<close>

lemma iderw_read:
  assumes "alone s pid" "b_lock (bufs s ! i) = \<lparr>sl_locked = True, sl_pid = pid\<rparr>" "i < length (bufs s)"
    and "\<not> b_valid (bufs s ! i)" "\<not> b_dirty (bufs s ! i)" "b_dev (bufs s ! i) = 1" "b_blockno (bufs s ! i) < disksize s"
  shows "iderw i s = Ret () (s\<lparr>bufs := (bufs s)[i := (bufs s ! i)
    \<lparr>b_data := copy_block (b_data (bufs s ! i)) (disk s (blk (bufs s ! i))), b_valid := True\<rparr>]\<rparr>)"
  using assms(3-) holdingsleep_mine [OF assms(1,2)] by (simp add: iderw_def blk_def linorder_not_le [symmetric])

lemma iderw_write:
  assumes "alone s pid" "b_lock (bufs s ! i) = \<lparr>sl_locked = True, sl_pid = pid\<rparr>" "i < length (bufs s)"
    and "b_valid (bufs s ! i)" "b_dirty (bufs s ! i)" "b_dev (bufs s ! i) = 1" "b_blockno (bufs s ! i) < disksize s"
  shows "iderw i s = Ret () ((disk_write (blk (bufs s ! i)) (b_data (bufs s ! i)) s)
    \<lparr>bufs := (bufs s)[i := (bufs s ! i)\<lparr>b_dirty := False, b_valid := True\<rparr>]\<rparr>)"
  using assms(3-) holdingsleep_mine [OF assms(1,2)]
  by (simp add: iderw_def blk_def disk_write_def linorder_not_le [symmetric]) 

lemma bread_miss:
  assumes c: "cached pid D V P H s" and new: "\<And>j. j < NBUF \<Longrightarrow> b_dev (bufs s ! j) = 1 \<Longrightarrow> blk (bufs s ! j) \<noteq> unat bn"
    and i: "find (\<lambda>i. b_refcnt (buf_at i s) = 0 \<and> \<not> b_dirty (buf_at i s)) (rev (blru s)) = Some i"
      "i < NBUF" "i \<notin> fst ` set H" and range: "bn < disksize s"
  shows "\<exists>d. content d = D (unat bn) \<and> bread 1 bn s = Ret i (s\<lparr>bufs := (bufs s)[i := (bufs s ! i)\<lparr>b_dev := 1, b_blockno := bn,
    b_dirty := False, b_refcnt := 1, b_lock := \<lparr>sl_locked = True, sl_pid = pid\<rparr>, b_data := d, b_valid := True\<rparr>]\<rparr>)"
proof -
  note cs = cachedD [OF c]
  let ?mine = "\<lparr>sl_locked = True, sl_pid = pid\<rparr>"
  have x: "\<not> sl_locked (b_lock (bufs s ! i))" using cs(7) [OF i(2)] i(3) by (simp add: buf_ok_def)
  let ?s = "s\<lparr>bufs := (bufs s)[i := (bufs s ! i)\<lparr>b_dev := 1, b_blockno := bn, b_valid := False, b_dirty := False, b_refcnt := 1\<rparr>]\<rparr>"
  have il: "i < length (bufs s)" using cs(2) i(2) by simp
  have "acquiresleep (SL_Buf i) ?s = Ret () (set_lock i ?mine ?s)"
    by (rule acquiresleep_free) (use cs(1) x il in simp_all)
  then have "bget 1 bn s = Ret i (set_lock i ?mine ?s)"
    using bget_miss [OF c new] i(1) alone_held [OF cs(1)]
    by (simp add: bget_def acquire_app release_app held_upd_id buf_at_def)
  moreover have "iderw i (set_lock i ?mine ?s) = Ret () ((set_lock i ?mine ?s)\<lparr>bufs := (bufs (set_lock i ?mine ?s))[i := (bufs (set_lock i ?mine ?s) ! i)
    \<lparr>b_data := copy_block (b_data (bufs (set_lock i ?mine ?s) ! i)) (disk (set_lock i ?mine ?s) (blk (bufs (set_lock i ?mine ?s) ! i))), b_valid := True\<rparr>]\<rparr>)"
    by (rule iderw_read) (use cs(1) il range in \<open>simp_all add: set_lock_def\<close>)
  ultimately have "bread 1 bn s = Ret i (s\<lparr>bufs := (bufs s)[i := (bufs s ! i)\<lparr>b_dev := 1, b_blockno := bn,
    b_dirty := False, b_refcnt := 1, b_lock := ?mine, b_data := copy_block (b_data (bufs s ! i)) (disk s (unat bn)), b_valid := True\<rparr>]\<rparr>)"
    using il by (simp add: bread_def set_lock_def blk_def)
  then show ?thesis using cs(5) [of "unat bn"] by (intro exI [of _ "copy_block (b_data (bufs s ! i)) (disk s (unat bn))"]) simp
qed

text \<open>
  \<open>bread\<close> returns a locked buffer with what readers should see of the block, from the cache or from the disk.
\<close>

lemma bread_spec:
  assumes c: "cached pid D V P H s" and b: "unat bn \<notin> snd ` set H" "bn < disksize s"
    and room: "unat bn \<in> P \<or> finite P \<and> card P + length H < NBUF"
  shows "\<exists>i t. bread 1 bn s = Ret i t \<and> cached pid D V P ((i, unat bn) # H) t \<and> same_rest s t \<and> dwrites t = dwrites s"
proof (cases "\<exists>i < NBUF. b_dev (bufs s ! i) = 1 \<and> blk (bufs s ! i) = unat bn")
  case True
  then obtain i where i: "i < NBUF" "b_dev (bufs s ! i) = 1" "blk (bufs s ! i) = unat bn" by blast
  note cs = cachedD [OF c]
  let ?x = "(bufs s ! i)\<lparr>b_refcnt := 1, b_lock := \<lparr>sl_locked = True, sl_pid = pid\<rparr>\<rparr>"
  let ?t = "s\<lparr>bufs := (bufs s)[i := ?x]\<rparr>"
  have nh: "i \<notin> fst ` set H" using b(1) cs(12) [of i] i(3) by force
  have "cached pid D V P ((i, unat bn) # H) ?t"
  proof (rule cached_buf [OF c i(1), where x = ?x and b = "unat bn"])
    show "buf_ok pid V P (i \<in> fst ` set ((i, unat bn) # H)) ?x"
      using cs(7) [OF i(1)] nh i(2) by (simp add: buf_ok_def blk_def)
    show "blk (bufs s ! j) \<noteq> unat bn" if "j < NBUF" "j \<noteq> i" "b_dev (bufs s ! j) = 1" for j
      using cs(6) [OF that(1) i(1) that(3) i(2)] that(2) i(3) by auto
    show "buf_ok pid V P (j \<in> fst ` set ((i, unat bn) # H)) (bufs s ! j)" if "j < NBUF" "j \<noteq> i" for j
      using cs(7) [OF that(1)] that(2) by simp
    show "e = unat bn \<and> b_dirty ?x \<or> (\<exists>j < NBUF. j \<noteq> i \<and> blk (bufs s ! j) = e \<and> b_dirty (bufs s ! j))" if "e \<in> P" for e
      using cs(8) [OF that] i(3) by auto
    show "V e = D e" if "e \<notin> P" "e \<notin> snd ` set ((i, unat bn) # H)" for e using cs(9) [OF that(1)] that(2) by simp
    show "distinct (map fst ((i, unat bn) # H))" using cs(10) nh by simp
    show "j < NBUF \<and> (if j = i then e = unat bn else blk (bufs s ! j) = e)" if "(j, e) \<in> set ((i, unat bn) # H)" for j e
      using that cs(11,12) [of j e] i(1) nh by (auto simp: image_iff)
  qed (use i cs in \<open>simp_all add: blk_def\<close>)
  then show ?thesis using bread_hit [OF c i b(1)] by (simp add: same_rest_def)
next
  case False
  then have new: "blk (bufs s ! j) \<noteq> unat bn" if "j < NBUF" "b_dev (bufs s ! j) = 1" for j using that by blast
  note cs = cachedD [OF c]
  have nP: "unat bn \<notin> P" using cs(8) [of "unat bn"] cs(7) new by (auto simp: buf_ok_def)
  then have room': "finite P" "card P + length H < NBUF" using room by auto
  obtain i where i: "find (\<lambda>i. b_refcnt (buf_at i s) = 0 \<and> \<not> b_dirty (buf_at i s)) (rev (blru s)) = Some i"
    "i < NBUF" "i \<notin> fst ` set H" "\<not> b_dirty (bufs s ! i)"
    using bget_recycle [OF c room'] .
  obtain d where d: "content d = D (unat bn)" and run: "bread 1 bn s = Ret i (s\<lparr>bufs := (bufs s)[i := (bufs s ! i)\<lparr>b_dev := 1,
      b_blockno := bn, b_dirty := False, b_refcnt := 1, b_lock := \<lparr>sl_locked = True, sl_pid = pid\<rparr>, b_data := d, b_valid := True\<rparr>]\<rparr>)"
    using bread_miss [OF c new i(1-3) b(2)] by blast
  let ?x = "(bufs s ! i)\<lparr>b_dev := 1, b_blockno := bn, b_dirty := False, b_refcnt := 1,
    b_lock := \<lparr>sl_locked = True, sl_pid = pid\<rparr>, b_data := d, b_valid := True\<rparr>"
  let ?t = "s\<lparr>bufs := (bufs s)[i := ?x]\<rparr>"
  have V: "V (unat bn) = D (unat bn)" using cs(9) b(1) nP by blast
  have "cached pid D V P ((i, unat bn) # H) ?t"
  proof (rule cached_buf [OF c i(2), where x = ?x and b = "unat bn"])
    show "buf_ok pid V P (i \<in> fst ` set ((i, unat bn) # H)) ?x" using d V by (simp add: buf_ok_def blk_def)
    show "buf_ok pid V P (j \<in> fst ` set ((i, unat bn) # H)) (bufs s ! j)" if "j < NBUF" "j \<noteq> i" for j
      using cs(7) [OF that(1)] that(2) by simp
    show "e = unat bn \<and> b_dirty ?x \<or> (\<exists>j < NBUF. j \<noteq> i \<and> blk (bufs s ! j) = e \<and> b_dirty (bufs s ! j))" if "e \<in> P" for e
      using cs(8) [OF that] i(4) by auto
    show "V e = D e" if "e \<notin> P" "e \<notin> snd ` set ((i, unat bn) # H)" for e using cs(9) [OF that(1)] that(2) by simp
    show "distinct (map fst ((i, unat bn) # H))" using cs(10) i(3) by simp
    show "j < NBUF \<and> (if j = i then e = unat bn else blk (bufs s ! j) = e)" if "(j, e) \<in> set ((i, unat bn) # H)" for j e
      using that cs(11,12) [of j e] i(2,3) by (auto simp: image_iff)
  qed (use new i cs in \<open>simp_all add: blk_def\<close>)
  then show ?thesis using run by (auto simp: same_rest_def)
qed

lemma buf_ok_other:
  "buf_ok pid V P l x \<Longrightarrow> (b_dev x = 1 \<Longrightarrow> V' (blk x) = V (blk x) \<and> (blk x \<in> P \<longrightarrow> blk x \<in> P')) \<Longrightarrow> buf_ok pid V' P' l x"
  unfolding buf_ok_def by (cases "b_dev x = 1") auto

lemma locked_buf:
  assumes "cached pid D V P H s" "(i, b) \<in> set H"
  shows "i < NBUF" "blk (bufs s ! i) = b" "b_dev (bufs s ! i) = 1" "b_valid (bufs s ! i)" "content (b_data (bufs s ! i)) = V b"
    "b_refcnt (bufs s ! i) = 1" "b_lock (bufs s ! i) = \<lparr>sl_locked = True, sl_pid = pid\<rparr>"
    "\<And>j. j < NBUF \<Longrightarrow> j \<noteq> i \<Longrightarrow> b_dev (bufs s ! j) = 1 \<Longrightarrow> blk (bufs s ! j) \<noteq> b"
proof -
  note cs = cachedD [OF assms(1)]
  show i: "i < NBUF" "blk (bufs s ! i) = b" using cs(11,12) assms(2) by auto
  have "i \<in> fst ` set H" using assms(2) by force
  then show dev: "b_dev (bufs s ! i) = 1" and "b_valid (bufs s ! i)" "content (b_data (bufs s ! i)) = V b"
    "b_refcnt (bufs s ! i) = 1" "b_lock (bufs s ! i) = \<lparr>sl_locked = True, sl_pid = pid\<rparr>"
    using cs(7) [OF i(1)] i(2) unfolding buf_ok_def by auto
  show "blk (bufs s ! j) \<noteq> b" if "j < NBUF" "j \<noteq> i" "b_dev (bufs s ! j) = 1" for j
    using cs(6) [OF that(1) i(1) that(3) dev] that(2) i(2) by auto
qed

text \<open>Writing into a locked buffer changes what readers see of its block.\<close>

lemma data_spec:
  assumes c: "cached pid D V P H s" and i: "(i, b) \<in> set H"
  shows "cached pid D (V(b := content d)) P H (s\<lparr>bufs := (bufs s)[i := (bufs s ! i)\<lparr>b_data := d\<rparr>]\<rparr>)"
proof -
  note cs = cachedD [OF c] and bf = locked_buf [OF c i]
  let ?x = "(bufs s ! i)\<lparr>b_data := d\<rparr>"
  have bx: "blk ?x = b" using bf(2) by (simp add: blk_def)
  have dirty: "b_dirty (bufs s ! i) \<longrightarrow> b \<in> P" using cs(7) [OF bf(1)] bf(2) by (simp add: buf_ok_def)
  show ?thesis
  proof (rule cached_buf [OF c bf(1), where x = ?x and b = b])
    show "buf_ok pid (V(b := content d)) P (i \<in> fst ` set H) ?x"
      unfolding buf_ok_def bx using dirty bf(3-7) i by force
    show "buf_ok pid (V(b := content d)) P (j \<in> fst ` set H) (bufs s ! j)" if "j < NBUF" "j \<noteq> i" for j
      by (rule buf_ok_other [OF cs(7) [OF that(1)]]) (use bf(8) [OF that] in simp)
    show "e = b \<and> b_dirty ?x \<or> (\<exists>j < NBUF. j \<noteq> i \<and> blk (bufs s ! j) = e \<and> b_dirty (bufs s ! j))" if "e \<in> P" for e
      using cs(8) [OF that] bf(2) by auto
    show "(V(b := content d)) e = D e" if "e \<notin> P" "e \<notin> snd ` set H" for e
      using cs(9) [OF that] that(2) i by force
    show "j < NBUF \<and> (if j = i then e = b else blk (bufs s ! j) = e)" if "(j, e) \<in> set H" for j e
      using that cs(11,12) [of j e] bf(2) by auto
  qed (use cs(1-5,10) bf(1-8) in \<open>simp_all add: blk_def\<close>)
qed

text \<open>\<open>bwrite\<close> brings what readers see to the disk and unpins the block.\<close>

lemma bwrite_spec:
  assumes c: "cached pid D V P H s" and i: "(i, b) \<in> set H" and range: "b < unat (disksize s)"
  shows "\<exists>d t. bwrite i s = Ret () t \<and> cached pid (D(b := V b)) V (P - {b}) H t \<and> same_rest s t
    \<and> dwrites t = dwrites s @ [(b, d)] \<and> content d = V b"
proof -
  note cs = cachedD [OF c] and bf = locked_buf [OF c i]
  let ?d = "b_data (bufs s ! i)"
  let ?x = "(bufs s ! i)\<lparr>b_dirty := False, b_valid := True\<rparr>"
  let ?s = "s\<lparr>bufs := (bufs s)[i := (bufs s ! i)\<lparr>b_dirty := True\<rparr>]\<rparr>"
  let ?t = "s\<lparr>disk := (disk s)(b := copy_block (disk s b) ?d), dwrites := dwrites s @ [(b, ?d)], bufs := (bufs s)[i := ?x]\<rparr>"
  have bx: "blk ?x = b" using bf(2) by (simp add: blk_def)
  have dirty: "b_dirty (bufs s ! i) \<longrightarrow> b \<in> P" using cs(7) [OF bf(1)] bf(2) by (simp add: buf_ok_def)
  have il: "i < length (bufs s)" using bf(1) cs(2) by simp
  have "iderw i ?s = Ret () ((disk_write (blk (bufs ?s ! i)) (b_data (bufs ?s ! i)) ?s)
      \<lparr>bufs := (bufs ?s)[i := (bufs ?s ! i)\<lparr>b_dirty := False, b_valid := True\<rparr>]\<rparr>)"
    by (rule iderw_write) (use cs(1) bf(1-7) il range in \<open>simp_all add: blk_def word_less_nat_alt\<close>)
  then have run: "bwrite i s = Ret () ?t"
    using holdingsleep_mine [OF cs(1) bf(7)] il bf(2) by (simp add: bwrite_def disk_write_def blk_def)
  have "cached pid (D(b := V b)) V (P - {b}) H ?t"
  proof (rule cached_buf [OF c bf(1), where x = ?x and b = b])
    show "buf_ok pid V (P - {b}) (i \<in> fst ` set H) ?x"
      unfolding buf_ok_def bx using bf(3-7) i by force
    show "buf_ok pid V (P - {b}) (j \<in> fst ` set H) (bufs s ! j)" if "j < NBUF" "j \<noteq> i" for j
      by (rule buf_ok_other [OF cs(7) [OF that(1)]]) (use bf(8) [OF that] in simp)
    show "e = b \<and> b_dirty ?x \<or> (\<exists>j < NBUF. j \<noteq> i \<and> blk (bufs s ! j) = e \<and> b_dirty (bufs s ! j))" if "e \<in> P - {b}" for e
      using cs(8) [of e] that bf(2) by auto
    show "V e = (D(b := V b)) e" if "e \<notin> P - {b}" "e \<notin> snd ` set H" for e using cs(9) [of e] that by auto
    show "j < NBUF \<and> (if j = i then e = b else blk (bufs s ! j) = e)" if "(j, e) \<in> set H" for j e
      using that cs(11,12) [of j e] bf(2) by auto
    show "content (disk ?t e) = (D(b := V b)) e" for e using cs(5) [of e] bf(5) by simp
  qed (use cs(1-5,10) bf(1-8) in \<open>simp_all add: blk_def alone_def\<close>)
  then show ?thesis using run bf(5) by (intro exI [of _ ?d] exI [of _ ?t]) (simp add: same_rest_def)
qed

text \<open>\<open>brelse\<close> gives the lock back. The block must be on the disk or pinned.\<close>

lemma brelse_spec:
  assumes c: "cached pid D V P H s" and i: "(i, b) \<in> set H" and safe: "b \<in> P \<or> V b = D b"
  shows "\<exists>t. brelse i s = Ret () t \<and> cached pid D V P (remove1 (i, b) H) t \<and> same_rest s t \<and> dwrites t = dwrites s"
proof -
  note cs = cachedD [OF c] and bf = locked_buf [OF c i]
  let ?free = "\<lparr>sl_locked = False, sl_pid = 0\<rparr>"
  let ?w = "wake (ChanSleeplock (SL_Buf i))"
  let ?x = "(bufs s ! i)\<lparr>b_lock := ?free, b_refcnt := 0\<rparr>"
  let ?t = "(?w (set_lock i ?free s))\<lparr>bufs := (bufs s)[i := ?x], blru := i # remove1 i (blru s)\<rparr>"
  have bx: "blk ?x = b" using bf(2) by (simp add: blk_def)
  have dirty: "b_dirty (bufs s ! i) \<longrightarrow> b \<in> P" using cs(7) [OF bf(1)] bf(2) by (simp add: buf_ok_def)
  have il: "i < length (bufs s)" using bf(1) cs(2) by simp
  have bs: "bufs (?w (set_lock i ?free s)) = (bufs s)[i := (bufs s ! i)\<lparr>b_lock := ?free\<rparr>]" by (simp add: set_lock_def)
  have "held (?w (set_lock i ?free s)) = []" using alone_held [OF cs(1)] by (simp add: set_lock_def)
  then have run: "brelse i s = Ret () ?t"
    using holdingsleep_mine [OF cs(1) bf(7)] releasesleep_mine [OF cs(1), of i] il bf(6) bs
    by (simp add: brelse_def acquire_app release_app held_upd_id) (simp add: set_lock_def)
  have dH: "distinct H" using cs(10) by (simp add: distinct_map)
  then have H': "set (remove1 (i, b) H) = set H - {(i, b)}" by simp
  have ni: "i \<notin> fst ` (set H - {(i, b)})" using cs(12) bf(2) by force
  have mem: "j \<in> fst ` (set H - {(i, b)}) \<longleftrightarrow> j \<in> fst ` set H" if "j \<noteq> i" for j using that by force
  have "cached pid D V P (remove1 (i, b) H) ?t"
  proof (rule cached_buf [OF c bf(1), where x = ?x and b = b])
    show "buf_ok pid V P (i \<in> fst ` set (remove1 (i, b) H)) ?x"
      unfolding buf_ok_def bx H' using dirty bf(3-7) ni by simp
    show "buf_ok pid V P (j \<in> fst ` set (remove1 (i, b) H)) (bufs s ! j)" if "j < NBUF" "j \<noteq> i" for j
      using cs(7) [OF that(1)] mem [OF that(2)] by (simp add: H')
    show "e = b \<and> b_dirty ?x \<or> (\<exists>j < NBUF. j \<noteq> i \<and> blk (bufs s ! j) = e \<and> b_dirty (bufs s ! j))" if "e \<in> P" for e
      using cs(8) [OF that] bf(2) by auto
    show "V e = D e" if "e \<notin> P" "e \<notin> snd ` set (remove1 (i, b) H)" for e
    proof (cases "e = b")
      case True
      then show ?thesis using safe that(1) by blast
    next
      case False
      then have "e \<notin> snd ` set H" using that(2) by (force simp: H')
      then show ?thesis using cs(9) that(1) by blast
    qed
    show "distinct (map fst (remove1 (i, b) H))" using cs(10) by (simp add: distinct_map H' inj_on_diff)
    show "j < NBUF \<and> (if j = i then e = b else blk (bufs s ! j) = e)" if "(j, e) \<in> set (remove1 (i, b) H)" for j e
      using that cs(11,12) [of j e] bf(2) by (auto simp: H')
    show "set (blru ?t) = {..< NBUF}" using cs(3,4) bf(1) by auto
  qed (use cs(1-5,10) bf(1-8) in \<open>simp_all add: blk_def set_lock_def\<close>)
  then show ?thesis using run by (intro exI [of _ ?t]) (simp add: same_rest_def set_lock_def)
qed

end
