(* ===== verification/Crash.thy ===== *)
theory Crash
  imports Log Bcache
begin

text \<open>
  The write-ahead log keeps the disk consistent over a crash. The history of disk writes lets
  a crash be any prefix of what \<open>commit\<close> writes: if the machine stops after that prefix and a
  freshly booted kernel runs \<open>recover_from_log\<close> on the disk, every block outside the log has
  either the contents from before the transaction, for all blocks, or those of the transaction, for all
  blocks.
\<close>

section \<open>Counted loops\<close>

lemma kfor_upt:
  assumes "\<And>k s. k < n \<Longrightarrow> I k s \<Longrightarrow> \<exists>t. f k s = Ret () t \<and> I (Suc k) t" and "I 0 s"
  shows "\<exists>t. kfor [0 ..< n] f s = Ret () t \<and> I n t"
proof -
  have "\<exists>t. kfor [n - m ..< n] f s = Ret () t \<and> I n t" if "I (n - m) s" "m \<le> n" for m s
    using that
  proof (induction m arbitrary: s)
    case (Suc m)
    then obtain t where t: "f (n - Suc m) s = Ret () t" "I (Suc (n - Suc m)) t" using assms(1) [of "n - Suc m" s] by auto
    have e: "Suc (n - Suc m) = n - m" using Suc.prems(2) by simp
    obtain u where u: "kfor [n - m ..< n] f t = Ret () u" "I n u" using Suc.IH [of t] t(2) Suc.prems(2) by (auto simp: e)
    have "[n - Suc m ..< n] = (n - Suc m) # [n - m ..< n]" using Suc.prems(2) by (simp add: upt_conv_Cons e)
    then show ?case using t(1) u by simp
  qed simp
  from this [of n s] show ?thesis using assms(2) by simp
qed

section \<open>The header block\<close>

definition is_header :: "u8 list \<Rightarrow> nat list \<Rightarrow> bool" where
  "is_header h bl \<longleftrightarrow> length h = BSIZE \<and> sint (get32 (\<lambda>i. h ! i) 0) = int (length bl)
     \<and> (\<forall>i < length bl. hdr_block (\<lambda>i. h ! i) i = int (bl ! i))"

lemma get32_content: "a + 4 \<le> BSIZE \<Longrightarrow> get32 (\<lambda>i. content d ! i) a = get32 d a"
  by (rule get32_cong) (simp add: content_def)

lemma length_content [simp]: "length (content d) = BSIZE"
  by (simp add: content_def)

lemma put_ints_below: "b + 4 \<le> a \<Longrightarrow> get32 (put_ints d a xs) b = get32 d b"
  by (induction xs arbitrary: d a) (auto simp: get32_put32_other)

lemma put_ints_nth: "i < length xs \<Longrightarrow> get32 (put_ints d a xs) (a + 4 * i) = of_int (xs ! i)"
proof (induction xs arbitrary: d a i)
  case (Cons x xs)
  show ?case
  proof (cases i)
    case 0
    then show ?thesis by (simp add: put_ints_below)
  next
    case (Suc j)
    then show ?thesis using Cons.IH [of j "put32 d a (of_int x)" "a + 4"] Cons.prems by (simp add: algebra_simps)
  qed
qed simp

lemma sint_of_small: "n < 2 ^ 31 \<Longrightarrow> sint (of_nat n :: u32) = int n"
proof -
  assume "n < 2 ^ 31"
  then have "sint (of_int (int n) :: u32) = int n" unfolding signed_of_int by (simp add: signed_take_bit_int_eq_self)
  then show ?thesis by simp
qed

lemma header_content:
  assumes "length bl \<le> 30" "\<And>b. b \<in> set bl \<Longrightarrow> b < 2 ^ 31"
  shows "is_header (content (put_ints (put32 d 0 (of_int (int (length bl)))) 4 (map int bl))) bl"
proof -
  let ?d = "put_ints (put32 d 0 (of_int (int (length bl)))) 4 (map int bl)"
  have "get32 (\<lambda>i. content ?d ! i) 0 = of_int (int (length bl))"
    by (subst get32_content) (simp_all add: put_ints_below BSIZE_def)
  then have "sint (get32 (\<lambda>i. content ?d ! i) 0) = int (length bl)" using assms(1) by (simp add: sint_of_small)
  moreover have "hdr_block (\<lambda>i. content ?d ! i) i = int (bl ! i)" if "i < length bl" for i
  proof -
    have "get32 (\<lambda>i. content ?d ! i) (4 + 4 * i) = get32 ?d (4 + 4 * i)"
      by (rule get32_content) (use that assms(1) in \<open>simp add: BSIZE_def\<close>)
    also have "\<dots> = of_int (int (bl ! i))" using put_ints_nth [of i "map int bl" _ 4] that by simp
    finally show ?thesis using assms(2) [of "bl ! i"] that by (simp add: hdr_block_def sint_of_small)
  qed
  ultimately show ?thesis by (simp add: is_header_def)
qed

section \<open>The operations of the log on the two maps\<close>

text \<open>The log as it is in memory, with \<open>st\<close> the block of the header and \<open>bl\<close> the blocks of the transaction.\<close>

definition log_at :: "nat \<Rightarrow> nat list \<Rightarrow> kernel \<Rightarrow> bool" where
  "log_at st bl s \<longleftrightarrow> l_dev (klog s) = 1 \<and> l_start (klog s) = int st \<and> l_n (klog s) = int (length bl)
     \<and> length (l_block (klog s)) = 30 \<and> take (length bl) (l_block (klog s)) = map int bl"

text \<open>The blocks are on the disk, pairwise different, and not in the log.\<close>

definition layout :: "nat \<Rightarrow> nat list \<Rightarrow> kernel \<Rightarrow> bool" where
  "layout st bl s \<longleftrightarrow> length bl < 30 \<and> distinct bl \<and> st + 30 < unat (disksize s) \<and> unat (disksize s) \<le> 2 ^ 31
     \<and> (\<forall>b \<in> set bl. b < unat (disksize s) \<and> (b < st \<or> st + 30 < b))"

lemma layout_block:
  assumes "layout st bl s" "i < length bl"
  shows "bl ! i < unat (disksize s)" "bl ! i \<noteq> st" "\<And>k. k < 30 \<Longrightarrow> bl ! i \<noteq> st + 1 + k" "st + 1 + i < unat (disksize s)"
proof -
  have "bl ! i \<in> set bl" using assms(2) by simp
  then have "bl ! i < unat (disksize s) \<and> (bl ! i < st \<or> st + 30 < bl ! i)" "st + 30 < unat (disksize s)" "length bl < 30"
    using assms(1) unfolding layout_def by blast+
  then show "bl ! i < unat (disksize s)" "bl ! i \<noteq> st" "\<And>k. k < 30 \<Longrightarrow> bl ! i \<noteq> st + 1 + k" "st + 1 + i < unat (disksize s)"
    using assms(2) by auto
qed

lemma block_word:
  assumes "layout st bl s" "b < unat (disksize s)"
  shows "unat (of_int (int b) :: u32) = b" "(of_int (int b) :: u32) < disksize s"
proof -
  have "b < 2 ^ 32" using assms by (simp add: layout_def)
  then show u: "unat (of_int (int b) :: u32) = b" by (simp add: unat_of_nat take_bit_nat_eq_self)
  show "(of_int (int b) :: u32) < disksize s" using u assms(2) by (simp add: word_less_nat_alt)
qed

lemma same_rest_log:
  assumes "same_rest s t"
  shows "log_at st bl t = log_at st bl s" "layout st bl t = layout st bl s"
  using assms by (simp_all add: same_rest_def log_at_def layout_def)

lemma bread_block:
  assumes c: "cached pid D V P H s" and l: "layout st bl s" and b: "b < unat (disksize s)" "b \<notin> snd ` set H"
    and room: "b \<in> P \<or> finite P \<and> card P + length H < NBUF"
  obtains i t where "bread 1 (of_int (int b)) s = Ret i t" "cached pid D V P ((i, b) # H) t" "same_rest s t" "dwrites t = dwrites s"
  using bread_spec [OF c, of "of_int (int b)"] block_word [OF l b(1)] b(2) room by auto

text \<open>Writes, with the contents of the blocks.\<close>

definition written :: "(nat \<times> bytes) list \<Rightarrow> (nat \<times> u8 list) list" where
  "written ws = map (\<lambda>(b, d). (b, content d)) ws"

lemma written_append [simp]: "written (xs @ ys) = written xs @ written ys"
  by (simp add: written_def)

lemma written_Cons [simp]: "written ((b, d) # ws) = (b, content d) # written ws" "written [] = []"
  by (simp_all add: written_def)

text \<open>The bodies of the two loops.\<close>

definition write_log_step :: "nat \<Rightarrow> unit kk" where
  "write_log_step k =
     kbind (log_get id) (\<lambda>lg.
       kbind (bread (l_dev lg) (of_int (l_start lg + int k + 1))) (\<lambda>to.
       kbind (bread (l_dev lg) (of_int (l_block lg ! k))) (\<lambda>from.
       kbind (buf_get from b_data) (\<lambda>d.
       kthen (buf_mod to (\<lambda>b. b\<lparr>b_data := copy_block (b_data b) d\<rparr>))
       (kthen (bwrite to)
       (kthen (brelse from) (brelse to)))))))"

definition install_step :: "nat \<Rightarrow> unit kk" where
  "install_step k =
     kbind (log_get id) (\<lambda>lg.
       kbind (bread (l_dev lg) (of_int (l_start lg + int k + 1))) (\<lambda>lbuf.
       kbind (bread (l_dev lg) (of_int (l_block lg ! k))) (\<lambda>dbuf.
       kbind (buf_get lbuf b_data) (\<lambda>d.
       kthen (buf_mod dbuf (\<lambda>b. b\<lparr>b_data := copy_block (b_data b) d\<rparr>))
       (kthen (bwrite dbuf)
       (kthen (brelse lbuf) (brelse dbuf)))))))"

lemma loops_of_log:
  "write_log = kbind (log_get l_n) (\<lambda>n. kfor [0 ..< nat n] write_log_step)"
  "install_trans = kbind (log_get l_n) (\<lambda>n. kfor [0 ..< nat n] install_step)"
  by (simp_all add: write_log_def write_log_step_def [abs_def] install_trans_def install_step_def [abs_def])

text \<open>One round of \<open>write_log\<close>: the cached block goes to the log.\<close>

lemma write_log_round:
  assumes c: "cached pid D V P [] s" and g: "log_at st bl s" "layout st bl s" and k: "k < length bl"
    and P: "finite P" "card P < NBUF" "bl ! k \<in> P \<or> card P + 1 < NBUF" "st + 1 + k \<notin> P"
  shows "\<exists>d t. write_log_step k s = Ret () t
     \<and> cached pid (D(st + 1 + k := V (bl ! k))) (V(st + 1 + k := V (bl ! k))) P [] t \<and> same_rest s t
     \<and> dwrites t = dwrites s @ [(st + 1 + k, d)] \<and> content d = V (bl ! k)"
proof -
  let ?a = "st + 1 + k" and ?b = "bl ! k"
  note lb = layout_block [OF g(2) k]
  have k30: "k < 30" using k g(2) by (simp add: layout_def)
  have ne: "?b \<noteq> ?a" using lb(3) [OF k30] .
  have lg: "l_dev (klog s) = 1" "of_int (l_start (klog s) + int k + 1) = (of_int (int ?a) :: u32)"
    "l_block (klog s) ! k = int ?b"
    using g(1) k arg_cong [of _ _ "\<lambda>l. l ! k"] by (auto simp: log_at_def algebra_simps) (metis nth_map nth_take)
  obtain i1 s1 where s1: "bread 1 (of_int (int ?a)) s = Ret i1 s1" "cached pid D V P [(i1, ?a)] s1" "same_rest s s1" "dwrites s1 = dwrites s"
    by (rule bread_block [OF c g(2) lb(4)]) (use P in auto)
  have l1: "layout st bl s1" "disksize s1 = disksize s" using same_rest_log(2) [OF s1(3)] g(2) s1(3) by (simp_all add: same_rest_def)
  obtain i2 s2 where s2: "bread 1 (of_int (int ?b)) s1 = Ret i2 s2" "cached pid D V P [(i2, ?b), (i1, ?a)] s2"
      "same_rest s1 s2" "dwrites s2 = dwrites s1"
    by (rule bread_block [OF s1(2) l1(1), of ?b]) (use P ne lb l1 in auto)
  let ?d = "copy_block (b_data (bufs s2 ! i1)) (b_data (bufs s2 ! i2))"
  let ?s3 = "s2\<lparr>bufs := (bufs s2)[i1 := (bufs s2 ! i1)\<lparr>b_data := ?d\<rparr>]\<rparr>"
  have from_data: "content (b_data (bufs s2 ! i2)) = V ?b" using locked_buf(5) [OF s2(2), of i2 ?b] by simp
  have s3: "cached pid D (V(?a := V ?b)) P [(i2, ?b), (i1, ?a)] ?s3"
    using data_spec [OF s2(2), of i1 ?a ?d] from_data by simp
  have "?a < unat (disksize ?s3)" using lb(4) l1(2) s2(3) by (simp add: same_rest_def)
  then obtain d s4 where s4: "bwrite i1 ?s3 = Ret () s4" "cached pid (D(?a := V ?b)) (V(?a := V ?b)) P [(i2, ?b), (i1, ?a)] s4"
      "same_rest ?s3 s4" "dwrites s4 = dwrites ?s3 @ [(?a, d)]" "content d = V ?b"
    using bwrite_spec [OF s3, of i1 ?a] P(4) by auto
  have "?b \<in> P \<or> (V(?a := V ?b)) ?b = (D(?a := V ?b)) ?b" using cachedD(9) [OF c, of ?b] ne by auto
  then obtain s5 where s5: "brelse i2 s4 = Ret () s5" "cached pid (D(?a := V ?b)) (V(?a := V ?b)) P [(i1, ?a)] s5"
      "same_rest s4 s5" "dwrites s5 = dwrites s4"
    using brelse_spec [OF s4(2), of i2 ?b] by auto
  obtain s6 where s6: "brelse i1 s5 = Ret () s6" "cached pid (D(?a := V ?b)) (V(?a := V ?b)) P [] s6"
      "same_rest s5 s6" "dwrites s6 = dwrites s5"
    using brelse_spec [OF s5(2), of i1 ?a] by auto
  have "same_rest s s6" using s1(3) s2(3) s4(3) s5(3) s6(3) by (simp add: same_rest_def)
  then show ?thesis
    using s1 s2 s4 s5 s6 lg by (intro exI [of _ d] exI [of _ s6]) (simp add: write_log_step_def log_get_def ac_simps)
qed

text \<open>One round of \<open>install_trans\<close>: a block of the log goes home.\<close>

lemma install_round:
  assumes c: "cached pid D V P [] s" and g: "log_at st bl s" "layout st bl s" and k: "k < length bl"
    and P: "finite P" "card P < NBUF" "bl ! k \<in> P \<or> card P + 1 < NBUF"
  shows "\<exists>d t. install_step k s = Ret () t
     \<and> cached pid (D(bl ! k := V (st + 1 + k))) (V(bl ! k := V (st + 1 + k))) (P - {bl ! k}) [] t \<and> same_rest s t
     \<and> dwrites t = dwrites s @ [(bl ! k, d)] \<and> content d = V (st + 1 + k)"
proof -
  let ?a = "st + 1 + k" and ?b = "bl ! k"
  note lb = layout_block [OF g(2) k]
  have k30: "k < 30" using k g(2) by (simp add: layout_def)
  have ne: "?b \<noteq> ?a" using lb(3) [OF k30] .
  have lg: "l_dev (klog s) = 1" "of_int (l_start (klog s) + int k + 1) = (of_int (int ?a) :: u32)"
    "l_block (klog s) ! k = int ?b"
    using g(1) k arg_cong [of _ _ "\<lambda>l. l ! k"] by (auto simp: log_at_def algebra_simps) (metis nth_map nth_take)
  obtain i1 s1 where s1: "bread 1 (of_int (int ?a)) s = Ret i1 s1" "cached pid D V P [(i1, ?a)] s1" "same_rest s s1" "dwrites s1 = dwrites s"
    by (rule bread_block [OF c g(2) lb(4)]) (use P in auto)
  have l1: "layout st bl s1" "disksize s1 = disksize s" using same_rest_log(2) [OF s1(3)] g(2) s1(3) by (simp_all add: same_rest_def)
  obtain i2 s2 where s2: "bread 1 (of_int (int ?b)) s1 = Ret i2 s2" "cached pid D V P [(i2, ?b), (i1, ?a)] s2"
      "same_rest s1 s2" "dwrites s2 = dwrites s1"
    by (rule bread_block [OF s1(2) l1(1), of ?b]) (use P ne lb l1 in auto)
  let ?d = "copy_block (b_data (bufs s2 ! i2)) (b_data (bufs s2 ! i1))"
  let ?s3 = "s2\<lparr>bufs := (bufs s2)[i2 := (bufs s2 ! i2)\<lparr>b_data := ?d\<rparr>]\<rparr>"
  have log_data: "content (b_data (bufs s2 ! i1)) = V ?a" using locked_buf(5) [OF s2(2), of i1 ?a] by simp
  have s3: "cached pid D (V(?b := V ?a)) P [(i2, ?b), (i1, ?a)] ?s3"
    using data_spec [OF s2(2), of i2 ?b ?d] log_data by simp
  have "?b < unat (disksize ?s3)" using lb(1) l1(2) s2(3) by (simp add: same_rest_def)
  then obtain d s4 where s4: "bwrite i2 ?s3 = Ret () s4" "cached pid (D(?b := V ?a)) (V(?b := V ?a)) (P - {?b}) [(i2, ?b), (i1, ?a)] s4"
      "same_rest ?s3 s4" "dwrites s4 = dwrites ?s3 @ [(?b, d)]" "content d = V ?a"
    using bwrite_spec [OF s3, of i2 ?b] by auto
  have "?a \<in> P - {?b} \<or> (V(?b := V ?a)) ?a = (D(?b := V ?a)) ?a" using cachedD(9) [OF c, of ?a] ne by auto
  then obtain s5 where s5: "brelse i1 s4 = Ret () s5" "cached pid (D(?b := V ?a)) (V(?b := V ?a)) (P - {?b}) [(i2, ?b)] s5"
      "same_rest s4 s5" "dwrites s5 = dwrites s4"
    using brelse_spec [OF s4(2), of i1 ?a] ne by auto
  obtain s6 where s6: "brelse i2 s5 = Ret () s6" "cached pid (D(?b := V ?a)) (V(?b := V ?a)) (P - {?b}) [] s6"
      "same_rest s5 s6" "dwrites s6 = dwrites s5"
    using brelse_spec [OF s5(2), of i2 ?b] by auto
  have "same_rest s s6" using s1(3) s2(3) s4(3) s5(3) s6(3) by (simp add: same_rest_def)
  then show ?thesis
    using s1 s2 s4 s5 s6 lg by (intro exI [of _ d] exI [of _ s6]) (simp add: install_step_def log_get_def ac_simps)
qed

text \<open>The header is written in one block.\<close>

lemma write_head_spec:
  assumes c: "cached pid D V P [] s" and g: "log_at st bl s" "layout st bl s"
    and P: "finite P" "card P < NBUF" "st \<notin> P"
  shows "\<exists>h d t. write_head s = Ret () t \<and> cached pid (D(st := h)) (V(st := h)) P [] t \<and> same_rest s t
     \<and> dwrites t = dwrites s @ [(st, d)] \<and> content d = h \<and> is_header h bl"
proof -
  have st: "st < unat (disksize s)" using g(2) by (simp add: layout_def)
  have lg: "l_dev (klog s) = 1" "l_start (klog s) = int st" "l_n (klog s) = int (length bl)"
    "take (length bl) (l_block (klog s)) = map int bl" using g(1) by (simp_all add: log_at_def)
  obtain i s1 where s1: "bread 1 (of_int (int st)) s = Ret i s1" "cached pid D V P [(i, st)] s1" "same_rest s s1" "dwrites s1 = dwrites s"
    by (rule bread_block [OF c g(2) st]) (use P in auto)
  let ?d = "put_ints (put32 (b_data (bufs s1 ! i)) 0 (of_int (int (length bl)))) 4 (map int bl)"
  let ?h = "content ?d"
  let ?s2 = "s1\<lparr>bufs := (bufs s1)[i := (bufs s1 ! i)\<lparr>b_data := ?d\<rparr>]\<rparr>"
  have s2: "cached pid D (V(st := ?h)) P [(i, st)] ?s2" using data_spec [OF s1(2), of i st ?d] by simp
  have "st < unat (disksize ?s2)" using st s1(3) by (simp add: same_rest_def)
  then obtain d s3 where s3: "bwrite i ?s2 = Ret () s3" "cached pid (D(st := ?h)) (V(st := ?h)) P [(i, st)] s3"
      "same_rest ?s2 s3" "dwrites s3 = dwrites ?s2 @ [(st, d)]" "content d = ?h"
    using bwrite_spec [OF s2, of i st] P(3) by auto
  obtain s4 where s4: "brelse i s3 = Ret () s4" "cached pid (D(st := ?h)) (V(st := ?h)) P [] s4"
      "same_rest s3 s4" "dwrites s4 = dwrites s3"
    using brelse_spec [OF s3(2), of i st] by auto
  have "length bl \<le> 30" "\<And>b. b \<in> set bl \<Longrightarrow> b < 2 ^ 31" using g(2) by (auto simp: layout_def)
  then have "is_header ?h bl" by (rule header_content)
  moreover have "same_rest s s4" using s1(3) s3(3) s4(3) by (simp add: same_rest_def)
  moreover have "write_head s = Ret () s4"
    using s1(1) s3(1) s4(1) lg by (simp add: write_head_def log_get_def)
  ultimately show ?thesis using s1(4) s3(4,5) s4(2,4) by (intro exI [of _ ?h] exI [of _ d] exI [of _ s4]) simp
qed

text \<open>Reading the header back.\<close>

lemma read_head_spec:
  assumes c: "cached pid D V P [] s" and g: "l_dev (klog s) = 1" "l_start (klog s) = int st" "length (l_block (klog s)) = 30"
    and l: "layout st bl s" and h: "is_header (V st) bl" and P: "finite P" "card P < NBUF"
  shows "\<exists>t. read_head s = Ret () t \<and> cached pid D V P [] t \<and> log_at st bl t \<and> disksize t = disksize s \<and> dwrites t = dwrites s"
proof -
  have st: "st < unat (disksize s)" using l by (simp add: layout_def)
  have n: "length bl \<le> 30" using l by (simp add: layout_def)
  obtain i s1 where s1: "bread 1 (of_int (int st)) s = Ret i s1" "cached pid D V P [(i, st)] s1" "same_rest s s1" "dwrites s1 = dwrites s"
    by (rule bread_block [OF c l st]) (use P in auto)
  let ?d = "b_data (bufs s1 ! i)"
  have d: "content ?d = V st" using locked_buf(5) [OF s1(2), of i st] by simp
  have cnt: "sint (get32 ?d 0) = int (length bl)"
    using h get32_content [of 0 ?d] by (simp add: is_header_def d [symmetric] BSIZE_def)
  have blk: "map (hdr_block ?d) [0 ..< length bl] = map int bl"
  proof (rule nth_equalityI)
    fix k
    assume "k < length (map (hdr_block ?d) [0 ..< length bl])"
    then have k: "k < length bl" by simp
    then have "hdr_block ?d k = hdr_block (\<lambda>i. content ?d ! i) k"
      using get32_content [of "4 + 4 * k" ?d] n by (simp add: hdr_block_def BSIZE_def)
    then show "map (hdr_block ?d) [0 ..< length bl] ! k = map int bl ! k" using h k by (simp add: is_header_def d)
  qed simp
  let ?s2 = "s1\<lparr>klog := (klog s1)\<lparr>l_n := int (length bl), l_block := map int bl @ drop (length bl) (l_block (klog s1))\<rparr>\<rparr>"
  have "cached pid D V P [(i, st)] ?s2" using s1(2) by (simp add: cached_def)
  then obtain s3 where s3: "brelse i ?s2 = Ret () s3" "cached pid D V P [] s3" "same_rest ?s2 s3" "dwrites s3 = dwrites ?s2"
    using brelse_spec [of pid D V P "[(i, st)]" ?s2 i st] cachedD(9) [OF c, of st] by auto
  have k1: "klog s1 = klog s" using s1(3) by (simp add: same_rest_def)
  have "read_head s = Ret () s3"
    using s1(1) s3(1) g n cnt blk k1 by (simp add: read_head_def log_get_def log_mod_def Let_def)
  moreover have "log_at st bl s3" using s3(3) k1 g n by (simp add: log_at_def same_rest_def)
  moreover have "disksize s3 = disksize s" using s3(3) s1(3) by (simp add: same_rest_def)
  ultimately show ?thesis using s3(2,4) s1(4) by auto
qed

section \<open>Sequences of writes\<close>

definition apply_writes :: "(nat \<times> u8 list) list \<Rightarrow> (nat \<Rightarrow> u8 list) \<Rightarrow> nat \<Rightarrow> u8 list" where
  "apply_writes ws D = fold (\<lambda>(b, c) D. D(b := c)) ws D"

definition writes :: "(nat \<Rightarrow> nat) \<Rightarrow> (nat \<Rightarrow> u8 list) \<Rightarrow> nat \<Rightarrow> (nat \<times> u8 list) list" where
  "writes f g k = map (\<lambda>i. (f i, g i)) [0 ..< k]"

lemma apply_writes_simps [simp]:
  "apply_writes [] D = D" "apply_writes ((b, c) # ws) D = apply_writes ws (D(b := c))"
  "apply_writes (xs @ ys) D = apply_writes ys (apply_writes xs D)"
  by (simp_all add: apply_writes_def)

lemma writes_simps [simp]: "writes f g 0 = []" "writes f g (Suc k) = writes f g k @ [(f k, g k)]" "length (writes f g k) = k"
  by (simp_all add: writes_def)

lemma take_writes: "m \<le> k \<Longrightarrow> take m (writes f g k) = writes f g m"
  by (simp add: writes_def take_map take_upt)

lemma apply_writes_other: "(\<And>i. i < k \<Longrightarrow> f i \<noteq> b) \<Longrightarrow> apply_writes (writes f g k) D b = D b"
  by (induction k) auto

lemma apply_writes_at: "inj_on f {..< k} \<Longrightarrow> i < k \<Longrightarrow> apply_writes (writes f g k) D (f i) = g i"
proof (induction k)
  case (Suc k)
  show ?case
  proof (cases "i = k")
    case False
    then have "f k \<noteq> f i" using Suc.prems inj_onD [OF Suc.prems(1), of k i] by auto
    moreover have "inj_on f {..< k}" using Suc.prems(1) by (auto intro: inj_on_subset)
    ultimately show ?thesis using Suc.IH Suc.prems(2) False by simp
  qed simp
qed simp

abbreviation log_writes :: "nat \<Rightarrow> nat list \<Rightarrow> (nat \<Rightarrow> u8 list) \<Rightarrow> nat \<Rightarrow> (nat \<times> u8 list) list" where
  "log_writes st bl V \<equiv> writes ((+) (st + 1)) (\<lambda>i. V (bl ! i))"

abbreviation home_writes :: "nat list \<Rightarrow> (nat \<Rightarrow> u8 list) \<Rightarrow> nat \<Rightarrow> (nat \<times> u8 list) list" where
  "home_writes bl L \<equiv> writes (\<lambda>i. bl ! i) L"

lemma write_log_spec:
  assumes c: "cached pid D V P [] s" and g: "log_at st bl s" "layout st bl s"
    and P: "finite P" "card P < NBUF" "set bl \<subseteq> P" "\<And>k. k < length bl \<Longrightarrow> st + 1 + k \<notin> P"
  shows "\<exists>ws t. write_log s = Ret () t \<and> same_rest s t \<and> dwrites t = dwrites s @ ws \<and> written ws = log_writes st bl V (length bl)
     \<and> cached pid (apply_writes (written ws) D) (apply_writes (written ws) V) P [] t"
proof -
  let ?I = "\<lambda>k t. \<exists>ws. same_rest s t \<and> dwrites t = dwrites s @ ws \<and> written ws = log_writes st bl V k
     \<and> cached pid (apply_writes (written ws) D) (apply_writes (written ws) V) P [] t"
  have n: "write_log s = kfor [0 ..< length bl] write_log_step s" using g(1) by (simp add: loops_of_log log_get_def log_at_def)
  have "\<exists>t. kfor [0 ..< length bl] write_log_step s = Ret () t \<and> ?I (length bl) t"
  proof (rule kfor_upt [where I = ?I])
    fix k t
    assume k: "k < length bl" and "?I k t"
    then obtain ws where t: "same_rest s t" "dwrites t = dwrites s @ ws" "written ws = log_writes st bl V k"
      "cached pid (apply_writes (written ws) D) (apply_writes (written ws) V) P [] t" by blast
    have gt: "log_at st bl t" "layout st bl t" using g same_rest_log [OF t(1)] by simp_all
    have "bl ! k \<noteq> st + 1 + i" if "i < k" for i
      using layout_block(3) [OF g(2) k, of i] that k g(2) by (simp add: layout_def)
    then have v: "apply_writes (written ws) V (bl ! k) = V (bl ! k)" unfolding t(3) by (intro apply_writes_other) metis
    have "bl ! k \<in> P \<or> card P + 1 < NBUF" using P(3) k by auto
    from write_log_round [OF t(4) gt k P(1,2) this P(4) [OF k]] obtain d u where
      u: "write_log_step k t = Ret () u" "same_rest t u" "dwrites u = dwrites t @ [(st + 1 + k, d)]" "content d = V (bl ! k)"
      "cached pid ((apply_writes (written ws) D)(st + 1 + k := V (bl ! k))) ((apply_writes (written ws) V)(st + 1 + k := V (bl ! k))) P [] u"
      unfolding v by blast
    have "?I (Suc k) u"
      using u(3-) t(2,3) same_rest_trans [OF t(1) u(2)] by (intro exI [of _ "ws @ [(st + 1 + k, d)]"]) simp
    then show "\<exists>u. write_log_step k t = Ret () u \<and> ?I (Suc k) u" using u(1) by blast
  next
    show "?I 0 s" using c by (intro exI [of _ "[]"]) (simp add: written_def)
  qed
  then show ?thesis unfolding n by blast
qed

lemma install_spec:
  assumes c: "cached pid D V P [] s" and g: "log_at st bl s" "layout st bl s"
    and P: "finite P" "card P < NBUF" "set bl \<subseteq> P \<or> card P + 1 < NBUF"
  shows "\<exists>ws t. install_trans s = Ret () t \<and> same_rest s t \<and> dwrites t = dwrites s @ ws
     \<and> written ws = home_writes bl (\<lambda>i. V (st + 1 + i)) (length bl)
     \<and> cached pid (apply_writes (written ws) D) (apply_writes (written ws) V) (P - set bl) [] t"
proof -
  let ?I = "\<lambda>k t. \<exists>ws. same_rest s t \<and> dwrites t = dwrites s @ ws \<and> written ws = home_writes bl (\<lambda>i. V (st + 1 + i)) k
     \<and> cached pid (apply_writes (written ws) D) (apply_writes (written ws) V) (P - set (take k bl)) [] t"
  have n: "install_trans s = kfor [0 ..< length bl] install_step s" using g(1) by (simp add: loops_of_log log_get_def log_at_def)
  have "\<exists>t. kfor [0 ..< length bl] install_step s = Ret () t \<and> ?I (length bl) t"
  proof (rule kfor_upt [where I = ?I])
    fix k t
    assume k: "k < length bl" and "?I k t"
    then obtain ws where t: "same_rest s t" "dwrites t = dwrites s @ ws" "written ws = home_writes bl (\<lambda>i. V (st + 1 + i)) k"
      "cached pid (apply_writes (written ws) D) (apply_writes (written ws) V) (P - set (take k bl)) [] t" by blast
    have gt: "log_at st bl t" "layout st bl t" using g same_rest_log [OF t(1)] by simp_all
    have "bl ! i \<noteq> st + 1 + k" if "i < k" for i
      using layout_block(3) [OF g(2), of i k] that k g(2) by (simp add: layout_def)
    then have v: "apply_writes (written ws) V (st + 1 + k) = V (st + 1 + k)" unfolding t(3) by (intro apply_writes_other)
    have "card (P - set (take k bl)) \<le> card P" using P(1) by (intro card_mono) auto
    moreover have "bl ! k \<notin> set (take k bl)"
      using g(2) k by (auto simp: layout_def in_set_conv_nth nth_eq_iff_index_eq)
    ultimately have P': "finite (P - set (take k bl))" "card (P - set (take k bl)) < NBUF"
      "bl ! k \<in> P - set (take k bl) \<or> card (P - set (take k bl)) + 1 < NBUF" using P k by auto
    have set: "P - set (take k bl) - {bl ! k} = P - set (take (Suc k) bl)" using k by (auto simp: take_Suc_conv_app_nth)
    from install_round [OF t(4) gt k P'] obtain d u where
      u: "install_step k t = Ret () u" "same_rest t u" "dwrites u = dwrites t @ [(bl ! k, d)]" "content d = V (st + 1 + k)"
      "cached pid ((apply_writes (written ws) D)(bl ! k := V (st + 1 + k))) ((apply_writes (written ws) V)(bl ! k := V (st + 1 + k)))
         (P - set (take (Suc k) bl)) [] u"
      unfolding v set by blast
    have "?I (Suc k) u"
      using u(3-) t(2,3) same_rest_trans [OF t(1) u(2)] by (intro exI [of _ "ws @ [(bl ! k, d)]"]) simp
    then show "\<exists>u. install_step k t = Ret () u \<and> ?I (Suc k) u" using u(1) by blast
  next
    show "?I 0 s" using c by (intro exI [of _ "[]"]) (simp add: written_def)
  qed
  then show ?thesis unfolding n by auto
qed

section \<open>Committing and recovering\<close>

text \<open>The blocks that \<open>commit\<close> writes, in order: the log, the header, the home locations, the empty header.\<close>

definition commit_writes :: "nat \<Rightarrow> nat list \<Rightarrow> (nat \<Rightarrow> u8 list) \<Rightarrow> u8 list \<Rightarrow> u8 list \<Rightarrow> (nat \<times> u8 list) list" where
  "commit_writes st bl V h h0 =
     log_writes st bl V (length bl) @ [(st, h)] @ home_writes bl (\<lambda>i. V (bl ! i)) (length bl) @ [(st, h0)]"

lemma layout_empty: "layout st bl s \<Longrightarrow> layout st [] s"
  by (simp add: layout_def)

lemma commit_spec:
  assumes c: "cached pid D V (set bl) [] s" and g: "log_at st bl s" "layout st bl s" and "bl \<noteq> []"
  shows "\<exists>ws h h0 t. commit s = Ret () t \<and> dwrites t = dwrites s @ ws \<and> written ws = commit_writes st bl V h h0
     \<and> is_header h bl \<and> is_header h0 []
     \<and> cached pid (apply_writes (written ws) D) (apply_writes (written ws) V) {} [] t \<and> log_at st [] t"
proof -
  have n: "length bl < 30" using g(2) by (simp add: layout_def)
  then have P: "finite (set bl)" "card (set bl) < NBUF" "set bl \<subseteq> set bl"
    using card_length [of bl] by (simp_all add: NBUF_30)
  have inlog: "st + 1 + k \<notin> set bl" "st \<notin> set bl" if "k < length bl" for k
  proof -
    have k: "k < 30" using that n by simp
    show "st + 1 + k \<notin> set bl" "st \<notin> set bl"
      using layout_block(2,3) [OF g(2)] k by (metis in_set_conv_nth)+
  qed
  have st: "st \<notin> set bl" using inlog(2) [of 0] assms(4) by simp
  obtain w1 s1 where s1: "write_log s = Ret () s1" "same_rest s s1" "dwrites s1 = dwrites s @ w1"
      "written w1 = log_writes st bl V (length bl)"
      "cached pid (apply_writes (written w1) D) (apply_writes (written w1) V) (set bl) [] s1"
    using write_log_spec [OF c g P inlog(1)] by blast
  have g1: "log_at st bl s1" "layout st bl s1" using g same_rest_log [OF s1(2)] by simp_all
  obtain h d s2 where s2: "write_head s1 = Ret () s2" "same_rest s1 s2" "dwrites s2 = dwrites s1 @ [(st, d)]" "content d = h" "is_header h bl"
      "cached pid ((apply_writes (written w1) D)(st := h)) ((apply_writes (written w1) V)(st := h)) (set bl) [] s2"
    using write_head_spec [OF s1(5) g1 P(1,2) st] by blast
  have g2: "log_at st bl s2" "layout st bl s2" using g1 same_rest_log [OF s2(2)] by simp_all
  let ?V2 = "(apply_writes (written w1) V)(st := h)"
  have L: "?V2 (st + 1 + i) = V (bl ! i)" if "i < length bl" for i
    unfolding s1(4) using apply_writes_at [of "(+) (st + 1)" "length bl" i] that by (simp add: inj_on_def)
  then have hw: "home_writes bl (\<lambda>i. ?V2 (st + 1 + i)) (length bl) = home_writes bl (\<lambda>i. V (bl ! i)) (length bl)"
    unfolding writes_def by simp
  obtain w3 s3 where s3: "install_trans s2 = Ret () s3" "same_rest s2 s3" "dwrites s3 = dwrites s2 @ w3"
      "written w3 = home_writes bl (\<lambda>i. V (bl ! i)) (length bl)"
      "cached pid (apply_writes (written w3) ((apply_writes (written w1) D)(st := h))) (apply_writes (written w3) ?V2) {} [] s3"
    using install_spec [OF s2(6) g2 P(1,2) disjI1 [OF P(3)]] unfolding hw by auto
  let ?s4 = "s3\<lparr>klog := (klog s3)\<lparr>l_n := 0\<rparr>\<rparr>"
  have c4: "cached pid (apply_writes (written w3) ((apply_writes (written w1) D)(st := h))) (apply_writes (written w3) ?V2) {} [] ?s4"
    using s3(5) by (simp add: cached_def)
  have g4: "log_at st [] ?s4" "layout st [] ?s4"
    using g2 same_rest_log [OF s3(2), of st bl] by (simp_all add: log_at_def layout_def)
  obtain h0 d0 s5 where s5: "write_head ?s4 = Ret () s5" "same_rest ?s4 s5" "dwrites s5 = dwrites ?s4 @ [(st, d0)]" "content d0 = h0" "is_header h0 []"
      "cached pid ((apply_writes (written w3) ((apply_writes (written w1) D)(st := h)))(st := h0)) ((apply_writes (written w3) ?V2)(st := h0)) {} [] s5"
    using write_head_spec [OF c4 g4] by (auto simp: NBUF_30)
  let ?ws = "w1 @ [(st, d)] @ w3 @ [(st, d0)]"
  have "commit s = Ret () s5"
    using g(1) assms(4) s1(1) s2(1) s3(1) s5(1) by (simp add: commit_def log_get_def log_mod_def log_at_def)
  moreover have "dwrites s5 = dwrites s @ ?ws" using s1(3) s2(3) s3(3) s5(3) by simp
  moreover have "written ?ws = commit_writes st bl V h h0" using s1(4) s2(4) s3(4) s5(4) by (simp add: commit_writes_def)
  moreover have "cached pid (apply_writes (written ?ws) D) (apply_writes (written ?ws) V) {} [] s5" using s2(4) s5(4,6) by simp
  moreover have "log_at st [] s5" using g4(1) same_rest_log [OF s5(2)] by simp
  ultimately show ?thesis using s2(5) s5(5) by blast
qed

lemma recover_spec:
  assumes c: "cached pid D D {} [] s" and g: "l_dev (klog s) = 1" "l_start (klog s) = int st" "length (l_block (klog s)) = 30"
    and l: "layout st bl s" and h: "is_header (D st) bl"
  shows "\<exists>h0 t. recover_from_log s = Ret () t \<and> is_header h0 []
     \<and> cached pid ((apply_writes (home_writes bl (\<lambda>i. D (st + 1 + i)) (length bl)) D)(st := h0))
                  ((apply_writes (home_writes bl (\<lambda>i. D (st + 1 + i)) (length bl)) D)(st := h0)) {} [] t"
proof -
  have P: "finite ({} :: nat set)" "card ({} :: nat set) + 1 < NBUF" "card ({} :: nat set) < NBUF" by (simp_all add: NBUF_30)
  obtain s1 where s1: "read_head s = Ret () s1" "cached pid D D {} [] s1" "log_at st bl s1" "disksize s1 = disksize s"
    using read_head_spec [OF c g l h P(1,3)] by blast
  have l1: "layout st bl s1" using l s1(4) by (simp add: layout_def)
  obtain w s2 where s2: "install_trans s1 = Ret () s2" "same_rest s1 s2"
      "written w = home_writes bl (\<lambda>i. D (st + 1 + i)) (length bl)"
      "cached pid (apply_writes (written w) D) (apply_writes (written w) D) {} [] s2"
    using install_spec [OF s1(2,3) l1 P(1,3) disjI2 [OF P(2)]] by auto
  let ?s3 = "s2\<lparr>klog := (klog s2)\<lparr>l_n := 0\<rparr>\<rparr>"
  have c3: "cached pid (apply_writes (written w) D) (apply_writes (written w) D) {} [] ?s3" using s2(4) by (simp add: cached_def)
  have g3: "log_at st [] ?s3" "layout st [] ?s3"
    using s1(3) l1 same_rest_log [OF s2(2), of st bl] by (simp_all add: log_at_def layout_def)
  obtain h0 s4 where s4: "write_head ?s3 = Ret () s4" "is_header h0 []"
      "cached pid ((apply_writes (written w) D)(st := h0)) ((apply_writes (written w) D)(st := h0)) {} [] s4"
    using write_head_spec [OF c3 g3] P by auto
  have "recover_from_log s = Ret () s4" using s1(1) s2(1) s4(1) by (simp add: recover_from_log_def log_mod_def)
  then show ?thesis using s4(2,3) unfolding s2(3) by blast
qed

section \<open>Crash safety\<close>

lemma commit_contents:
  assumes l: "layout st bl s" and agree: "\<And>b. b \<notin> set bl \<Longrightarrow> V b = D b" and b: "b < st \<or> st + 30 < b"
  shows "apply_writes (commit_writes st bl V h h0) D b = V b"
proof -
  have "distinct bl" "length bl < 30" using l by (simp_all add: layout_def)
  then have inj: "inj_on ((!) bl) {..< length bl}" by (auto simp: inj_on_def nth_eq_iff_index_eq)
  show ?thesis
  proof (cases "b \<in> set bl")
    case True
    then obtain i where i: "i < length bl" "b = bl ! i" by (metis in_set_conv_nth)
    then show ?thesis using apply_writes_at [OF inj i(1)] b by (auto simp: commit_writes_def)
  next
    case False
    have "apply_writes (home_writes bl g (length bl)) X b = X b" for g X
      by (rule apply_writes_other) (use False in auto)
    moreover have "apply_writes (log_writes st bl V (length bl)) D b = D b"
      by (rule apply_writes_other) (use b \<open>length bl < 30\<close> in auto)
    ultimately show ?thesis using agree [OF False] b by (auto simp: commit_writes_def)
  qed
qed

text \<open>What recovery makes of the disk that the first \<open>k\<close> writes of a commit leave behind.\<close>

lemma crash_contents:
  assumes l: "layout st bl s" and k: "k \<le> length (commit_writes st bl V h h0)"
    and agree: "\<And>b. b \<notin> set bl \<Longrightarrow> V b = D b"
    and old: "is_header (D st) []" "is_header h bl" "is_header h0 []"
  defines "E \<equiv> apply_writes (take k (commit_writes st bl V h h0)) D"
  shows "\<exists>bl'. is_header (E st) bl' \<and> (bl' = [] \<or> bl' = bl)
     \<and> (\<forall>b. b < st \<or> st + 30 < b \<longrightarrow>
          apply_writes (home_writes bl' (\<lambda>i. E (st + 1 + i)) (length bl')) E b = (if k \<le> length bl then D b else V b))"
proof -
  let ?n = "length bl"
  let ?f = "(+) (st + 1)"
  let ?L = "apply_writes (log_writes st bl V ?n) D"
  note lb = layout_block [OF l]
  have n30: "?n < 30" "distinct bl" using l by (simp_all add: layout_def)
  have inj: "inj_on ?f {..< m}" "inj_on ((!) bl) {..< ?n}" for m using n30(2) by (auto simp: inj_on_def nth_eq_iff_index_eq)
  have out: "apply_writes (log_writes st bl V m) D b = D b" if "b < st \<or> st + 30 < b" "m \<le> ?n" for m b
    by (rule apply_writes_other) (use that n30(1) in auto)
  have inst: "apply_writes (home_writes bl g m) X b = X b" if "b \<notin> set bl" "m \<le> ?n" for g m X b
    by (rule apply_writes_other) (use that in auto)
  have outb: "(bl ! i < st \<or> st + 30 < bl ! i)" if "i < ?n" for i using l that by (auto simp: layout_def)
  have len: "k \<le> 2 * ?n + 2" using k by (simp add: commit_writes_def)
  have "k \<le> ?n \<or> (\<exists>j. k = Suc ?n + j \<and> j \<le> ?n) \<or> k = 2 * ?n + 2"
    using len by (cases "k \<le> ?n"; cases "k = 2 * ?n + 2") (auto intro: exI [of _ "k - Suc ?n"])
  then consider "k \<le> ?n" | j where "k = Suc ?n + j" "j \<le> ?n" | "k = 2 * ?n + 2" by blast
  then show ?thesis
  proof cases
    case 1
    then have E: "E = apply_writes (log_writes st bl V k) D" by (simp add: E_def commit_writes_def take_writes)
    have "E st = D st" unfolding E by (rule apply_writes_other) simp
    then show ?thesis using old(1) out 1 by (intro exI [of _ "[]"]) (simp add: E)
  next
    case (2 j)
    then have E: "E = apply_writes (home_writes bl (\<lambda>i. V (bl ! i)) j) (?L(st := h))"
      by (simp add: E_def commit_writes_def take_writes)
    have "E st = h" unfolding E by (subst apply_writes_other) (use lb(2) 2 in auto)
    moreover have lg: "E (?f i) = V (bl ! i)" if "i < ?n" for i
    proof -
      have "E (?f i) = (?L(st := h)) (?f i)" unfolding E by (rule apply_writes_other) (use lb(3) 2 n30 that in auto)
      then show ?thesis using apply_writes_at [OF inj(1) that] by simp
    qed
    moreover have "apply_writes (home_writes bl (\<lambda>i. E (?f i)) ?n) E b = V b" if "b < st \<or> st + 30 < b" for b
    proof (cases "b \<in> set bl")
      case True
      then obtain i where i: "i < ?n" "b = bl ! i" by (metis in_set_conv_nth)
      then show ?thesis using apply_writes_at [OF inj(2) i(1)] lg by simp
    next
      case False
      have "E b = ?L b" unfolding E using inst [OF False 2(2)] that by auto
      then show ?thesis using inst [OF False order_refl] out [OF that order_refl] agree [OF False] by simp
    qed
    ultimately show ?thesis using old(2) 2 by (intro exI [of _ bl]) simp
  next
    case 3
    then have E: "E = apply_writes (commit_writes st bl V h h0) D" by (simp add: E_def commit_writes_def)
    have "E st = h0" by (simp add: E commit_writes_def)
    moreover have "E b = V b" if "b < st \<or> st + 30 < b" for b unfolding E by (rule commit_contents [OF l agree that])
    ultimately show ?thesis using old(3) 3 by (intro exI [of _ "[]"]) simp
  qed
qed

text \<open>
  A kernel that was started on a disk with the contents \<open>E\<close>: nothing is cached, and \<open>initlog\<close> has taken
  the place of the log from the super block.
\<close>

definition rebooted :: "int \<Rightarrow> nat \<Rightarrow> u32 \<Rightarrow> (nat \<Rightarrow> u8 list) \<Rightarrow> kernel \<Rightarrow> bool" where
  "rebooted pid st n E r \<longleftrightarrow> cached pid E E {} [] r \<and> disksize r = n
     \<and> l_dev (klog r) = 1 \<and> l_start (klog r) = int st \<and> length (l_block (klog r)) = 30"

text \<open>
  C6: A transaction is atomic. \<open>commit\<close> does not panic and brings the blocks of the transaction to
  the disk. If the machine stops after any number \<open>k\<close> of its disk writes and a new kernel runs \<open>recover_from_log\<close>, then recovery
  ends and every block outside the log has its old contents if the header was not written yet, and the
  contents of the transaction if it was: never a mixture.
\<close>

theorem commit_crash_safe:
  assumes c: "cached pid D V (set bl) [] s" and g: "log_at st bl s" "layout st bl s" and ne: "bl \<noteq> []"
    and clean: "is_header (D st) []"
  shows "\<exists>ws t. commit s = Ret () t \<and> dwrites t = dwrites s @ ws
    \<and> (\<forall>b. b < st \<or> st + 30 < b \<longrightarrow> content (disk t b) = V b)
    \<and> (\<forall>k \<le> length ws. \<forall>pid' r. rebooted pid' st (disksize s) (apply_writes (take k (written ws)) D) r \<longrightarrow>
         (\<exists>u. recover_from_log r = Ret () u
            \<and> (\<forall>b. b < st \<or> st + 30 < b \<longrightarrow> content (disk u b) = (if k \<le> length bl then D b else V b))))"
proof -
  obtain ws h h0 t where t: "commit s = Ret () t" "dwrites t = dwrites s @ ws" "written ws = commit_writes st bl V h h0"
      "is_header h bl" "is_header h0 []" "cached pid (apply_writes (written ws) D) (apply_writes (written ws) V) {} [] t"
    using commit_spec [OF c g ne] by blast
  have agree: "V b = D b" if "b \<notin> set bl" for b using cachedD(9) [OF c, of b] that by simp
  have len: "length (commit_writes st bl V h h0) = length ws" using arg_cong [OF t(3), of length] by (simp add: written_def)
  have rec: "\<exists>u. recover_from_log r = Ret () u
      \<and> (\<forall>b. b < st \<or> st + 30 < b \<longrightarrow> content (disk u b) = (if k \<le> length bl then D b else V b))"
    if k: "k \<le> length ws" and r: "rebooted pid' st (disksize s) (apply_writes (take k (written ws)) D) r" for k pid' r
  proof -
    let ?E = "apply_writes (take k (written ws)) D"
    have kl: "k \<le> length (commit_writes st bl V h h0)" using k len by simp
    obtain bl' where bl': "is_header (?E st) bl'" "bl' = [] \<or> bl' = bl"
        "\<forall>b. b < st \<or> st + 30 < b \<longrightarrow>
           apply_writes (home_writes bl' (\<lambda>i. ?E (st + 1 + i)) (length bl')) ?E b = (if k \<le> length bl then D b else V b)"
      using crash_contents [OF g(2) kl agree clean t(4,5)] unfolding t(3) by blast
    have rb: "cached pid' ?E ?E {} [] r" "l_dev (klog r) = 1" "l_start (klog r) = int st" "length (l_block (klog r)) = 30"
      "disksize r = disksize s" using r by (simp_all add: rebooted_def)
    have "layout st bl' r" using g(2) rb(5) bl'(2) layout_empty [OF g(2)] by (auto simp: layout_def)
    from recover_spec [OF rb(1-4) this bl'(1)] obtain h1 u where u: "recover_from_log r = Ret () u"
      "cached pid' ((apply_writes (home_writes bl' (\<lambda>i. ?E (st + 1 + i)) (length bl')) ?E)(st := h1))
         ((apply_writes (home_writes bl' (\<lambda>i. ?E (st + 1 + i)) (length bl')) ?E)(st := h1)) {} [] u" by blast
    have "content (disk u b) = (if k \<le> length bl then D b else V b)" if "b < st \<or> st + 30 < b" for b
      using cachedD(5) [OF u(2), of b] bl'(3) that by auto
    then show ?thesis using u(1) by blast
  qed
  have "content (disk t b) = V b" if "b < st \<or> st + 30 < b" for b
    using cachedD(5) [OF t(6), of b] commit_contents [OF g(2) agree that] by (simp add: t(3))
  with rec t(1,2) show ?thesis by blast
qed

section \<open>An example\<close>

text \<open>A transaction on block 40, with the log at block 2, on a disk of zeros.\<close>

definition crash_base :: kernel where
  "crash_base = (boot_kernel \<lparr>sym_end = 0x80115000, sym_data = 0x80108000, sym_forkret = 0, sym_trapret = 0,
     sym_initcode = (\<lambda>_. 0), sym_initcode_size = 0\<rparr> (\<lambda>_. 0) (\<lambda>_ _. 0) 100)
     \<lparr>cpu_proc := [Some 0], blru := [0 ..< NBUF], klog := zero_klog\<lparr>l_dev := 1, l_start := 2\<rparr>\<rparr>"

definition crash_example :: kernel where
  "crash_example = crash_base\<lparr>klog := zero_klog\<lparr>l_dev := 1, l_start := 2, l_n := 1, l_block := (replicate 30 0)[0 := 40]\<rparr>,
     bufs := (replicate NBUF zero_buf)[0 := zero_buf\<lparr>b_valid := True, b_dirty := True, b_dev := 1, b_blockno := 40, b_data := (\<lambda>_. 7)\<rparr>]\<rparr>"

abbreviation zeros :: "nat \<Rightarrow> u8 list" where "zeros \<equiv> (\<lambda>_. content (\<lambda>_. 0))"

lemma crash_base_rebooted: "rebooted 0 2 100 zeros crash_base"
proof -
  have "alone crash_base 0"
    by (auto simp: alone_def crash_base_def boot_kernel_def myproc_def proc_at_def NPROC_def zero_proc_def)
  then show ?thesis
    by (auto simp: rebooted_def cached_def buf_ok_def crash_base_def boot_kernel_def zero_buf_def zero_sleeplock_def
        zero_klog_def LOGSIZE_def MAXOPBLOCKS_def lessThan_atLeast0)
qed

lemma crash_example_ok:
  "cached 0 zeros (zeros(40 := content (\<lambda>_. 7))) {40} [] crash_example" "log_at 2 [40] crash_example" "layout 2 [40] crash_example"
proof -
  have a: "alone crash_example 0"
    by (auto simp: alone_def crash_example_def crash_base_def boot_kernel_def myproc_def proc_at_def NPROC_def zero_proc_def)
  have nth: "bufs crash_example ! i = (if i = 0 then zero_buf\<lparr>b_valid := True, b_dirty := True, b_dev := 1, b_blockno := 40, b_data := (\<lambda>_. 7)\<rparr> else zero_buf)"
    if "i < NBUF" for i using that by (simp add: crash_example_def nth_list_update)
  have z: "disk crash_example = (\<lambda>_ _. 0)" "blru crash_example = [0 ..< NBUF]" "length (bufs crash_example) = NBUF"
    by (simp_all add: crash_example_def crash_base_def boot_kernel_def)
  have "0 < NBUF" by (simp add: NBUF_30)
  then show "cached 0 zeros (zeros(40 := content (\<lambda>_. 7))) {40} [] crash_example"
    using a by (auto simp: cached_def z nth buf_ok_def blk_def zero_buf_def zero_sleeplock_def lessThan_atLeast0 split: if_splits)
  show "log_at 2 [40] crash_example" by (simp add: log_at_def crash_example_def numeral_eq_Suc)
  show "layout 2 [40] crash_example" by (simp add: layout_def crash_example_def crash_base_def boot_kernel_def)
qed

theorem commit_crash_safe_witness:
  "\<exists>ws t. commit crash_example = Ret () t \<and> dwrites t = ws \<and> content (disk t 40) = content (\<lambda>_. 7)
     \<and> (\<exists>u. recover_from_log crash_base = Ret () u \<and> content (disk u 40) = content (\<lambda>_. 0))"
proof -
  have h: "is_header (zeros 2) []"
    using get32_content [of 0 "\<lambda>_. 0"] by (simp add: is_header_def BSIZE_def get32_def)
  have d: "dwrites crash_example = []" "disksize crash_example = 100"
    by (simp_all add: crash_example_def crash_base_def boot_kernel_def)
  from commit_crash_safe [of 0 zeros "zeros(40 := content (\<lambda>_. 7))" "[40]" crash_example 2]
  obtain ws t where t: "commit crash_example = Ret () t" "dwrites t = dwrites crash_example @ ws"
    "\<forall>b. b < 2 \<or> 2 + 30 < b \<longrightarrow> content (disk t b) = (zeros(40 := content (\<lambda>_. 7))) b"
    "\<forall>k \<le> length ws. \<forall>pid' r. rebooted pid' 2 (disksize crash_example) (apply_writes (take k (written ws)) zeros) r \<longrightarrow>
         (\<exists>u. recover_from_log r = Ret () u
            \<and> (\<forall>b. b < 2 \<or> 2 + 30 < b \<longrightarrow> content (disk u b) = (if k \<le> length [40 :: nat] then zeros b else (zeros(40 := content (\<lambda>_. 7))) b)))"
    using crash_example_ok h by auto
  from t(4) [rule_format, of 0 0 crash_base] crash_base_rebooted obtain u where
    "recover_from_log crash_base = Ret () u" "content (disk u 40) = content (\<lambda>_. 0)" by (auto simp: d)
  then show ?thesis using t(1-3) d by auto
qed

end
