(* ===== verification/Copyout.thy ===== *)
theory Copyout
  imports Usermem
begin

unbundle bit_operations_syntax

text \<open>
  \<open>copyout\<close> writes into the address space of a page table that need not be loaded. It goes page by page;
  the theorem says that the result is the copy of the whole buffer, byte for byte.
\<close>

section \<open>Bytes of an address space\<close>

definition frame_of :: "bytes \<Rightarrow> u32 \<Rightarrow> nat \<Rightarrow> u32" where
  "frame_of m d x = P2V (PTE_ADDR (the (pt_lookup m d (x div 4096))))"

text \<open>Where the byte with virtual address \<open>x\<close> is, and whether the address belongs to the user.\<close>

definition user_place :: "bytes \<Rightarrow> u32 \<Rightarrow> nat \<Rightarrow> nat" where
  "user_place m d x = unat (frame_of m d x) + x mod 4096"

definition user_mapped :: "bytes \<Rightarrow> u32 \<Rightarrow> nat \<Rightarrow> bool" where
  "user_mapped m d x \<longleftrightarrow> (\<exists>e. pt_lookup m d (x div 4096) = Some e \<and> e AND PTE_U \<noteq> 0) \<and> frame_of m d x \<noteq> 0"

lemma page_aligned_frame: "page_aligned (frame_of m d x)"
proof -
  let ?a = "PTE_ADDR (the (pt_lookup m d (x div 4096)))"
  have "4096 dvd unat ?a" by (simp add: PTE_ADDR_def mask12 unat_and_page_mask)
  then have "4096 dvd (unat ?a + unat KERNBASE) mod 2 ^ 32" by (intro dvd_mod dvd_add) (simp_all add: KERNBASE_def)
  then show ?thesis by (simp add: frame_of_def P2V_def page_aligned_iff unat_word_ariths)
qed

lemma unat_frame_add:
  assumes "unat o' < 4096"
  shows "unat (frame_of m d x + o') = unat (frame_of m d x) + unat o'"
proof -
  have "4096 dvd unat (frame_of m d x)" using page_aligned_frame by (simp add: page_aligned_iff)
  then obtain q where q: "unat (frame_of m d x) = 4096 * q" by (auto elim: dvdE)
  moreover have "unat (frame_of m d x) < 2 ^ 32" using unsigned_less [of "frame_of m d x"] by simp
  ultimately have "q < 1048576" by simp
  then have "unat (frame_of m d x) + 4096 \<le> 2 ^ 32" using q by simp
  then show ?thesis using assms by (simp add: unat_word_ariths)
qed

lemma uva2ka_mapped:
  assumes wf: "pt_wf s d ps" and m: "user_mapped (mem s) d (unat va)"
  shows "uva2ka d (PGROUNDDOWN va) s = Ret (frame_of (mem s) d (unat va)) s"
proof -
  let ?va = "PGROUNDDOWN va"
  obtain e where e: "pt_lookup (mem s) d (unat va div 4096) = Some e" "e AND PTE_U \<noteq> 0" using m by (auto simp: user_mapped_def)
  have v: "unat ?va div 4096 = unat va div 4096" by (simp add: unat_PGROUNDDOWN)
  have "pde_present (mem s) d (unat (PDX ?va))" using e(1) by (auto simp: pt_lookup_def vpn_split v Let_def split: if_splits)
  from walkpgdir_present [OF wf this] obtain r where r: "walkpgdir d ?va False s = Ret r s" "pte_slot s d ?va r" by blast
  have w: "pg_word (mem s) (pgtab_of (mem s) d (unat (PDX ?va))) (unat (PTX ?va)) = e" "e AND PTE_P \<noteq> 0"
    using e(1) by (auto simp: pt_lookup_def vpn_split v Let_def split: if_splits)
  have "r \<noteq> 0" using r(2) by (simp add: pte_slot_def)
  then show ?thesis using r(1) pte_slot_load [OF r(2)] w e by (simp add: uva2ka_def frame_of_def)
qed

section \<open>The loop\<close>

text \<open>Changes outside the page table keep it as it is.\<close>

lemma pt_frame:
  assumes wf: "pt_wf s d ps" and eq: "\<And>a. a \<in> pt_area (mem s) d \<Longrightarrow> m' a = mem s a"
  shows "pt_wf (s\<lparr>mem := m'\<rparr>) d ps" "\<And>v. v < 1048576 \<Longrightarrow> pt_lookup m' d v = pt_lookup (mem s) d v" "pt_area m' d = pt_area (mem s) d"
proof -
  have w: "pg_word m' d i = pg_word (mem s) d i" if "i < 1024" for i
    by (rule pg_word_frame [OF _ that]) (use eq in \<open>auto simp: pt_area_def\<close>)
  then have q: "pde_present m' d i = pde_present (mem s) d i" "pgtab_of m' d i = pgtab_of (mem s) d i" if "i < 1024" for i
    using that by (simp_all add: pde_present_def pgtab_of_def)
  show "pt_lookup m' d v = pt_lookup (mem s) d v" if "v < 1048576" for v by (rule pt_lookup_frame [OF eq that])
  show "pt_area m' d = pt_area (mem s) d" unfolding pt_area_def using q by auto
  have "{i. i < 1024 \<and> pde_present m' d i} = {i. i < 1024 \<and> pde_present (mem s) d i}" using q by auto
  moreover have "inj_on (pgtab_of m' d) {i. i < 1024 \<and> pde_present (mem s) d i}"
    using wf q(2) unfolding pt_wf_def by (auto simp: inj_on_def)
  ultimately show "pt_wf (s\<lparr>mem := m'\<rparr>) d ps" using wf q by (simp add: pt_wf_def kpage_def)
qed

text \<open>The bytes \<open>src 0\<close>, \<open>src 1\<close>, \<open>...\<close> are at the addresses from \<open>x\<close> on; nothing else has changed.\<close>

definition copied :: "bytes \<Rightarrow> u32 \<Rightarrow> nat \<Rightarrow> bytes \<Rightarrow> nat \<Rightarrow> bytes \<Rightarrow> bool" where
  "copied m d x src n m' \<longleftrightarrow> (\<forall>i < n. m' (user_place m d (x + i)) = src i)
     \<and> (\<forall>a. a \<notin> (\<lambda>i. user_place m d (x + i)) ` {..< n} \<longrightarrow> m' a = m a)"

lemma copied_step:
  assumes "copied m d x src k m1" "copied m1 d (x + k) (\<lambda>i. src (k + i)) n m2"
    and same: "\<And>i. i < k + n \<Longrightarrow> user_place m1 d (x + i) = user_place m d (x + i)"
    and inj: "inj_on (\<lambda>i. user_place m d (x + i)) {..< k + n}"
  shows "copied m d x src (k + n) m2"
proof -
  let ?p = "\<lambda>i. user_place m d (x + i)"
  have p2: "user_place m1 d (x + k + i) = ?p (k + i)" if "i < n" for i using same [of "k + i"] that by (simp add: add.assoc)
  have "m2 (?p i) = src i" if i: "i < k + n" for i
  proof (cases "i < k")
    case True
    have "?p i \<notin> (\<lambda>i. user_place m1 d (x + k + i)) ` {..< n}"
    proof
      assume "?p i \<in> (\<lambda>i. user_place m1 d (x + k + i)) ` {..< n}"
      then obtain j where "j < n" "?p i = ?p (k + j)" using p2 by auto
      then show False using inj_onD [OF inj, of i "k + j"] True i by simp
    qed
    then show ?thesis using assms(1,2) True by (simp add: copied_def)
  next
    case False
    then obtain j where j: "i = k + j" "j < n" using i by (metis add_less_cancel_left le_Suc_ex not_less)
    then show ?thesis using assms(2) p2 [of j] by (auto simp: copied_def)
  qed
  moreover have "m2 a = m a" if "a \<notin> ?p ` {..< k + n}" for a
  proof -
    have "a \<notin> ?p ` {..< k}" "a \<notin> (\<lambda>i. user_place m1 d (x + k + i)) ` {..< n}" using that p2 by (force simp: image_iff)+
    then show ?thesis using assms(1,2) by (simp add: copied_def)
  qed
  ultimately show ?thesis by (simp add: copied_def)
qed

text \<open>One page.\<close>

lemma copied_chunk:
  assumes k: "x mod 4096 + k \<le> 4096" and b: "b = unat (frame_of m d x) + x mod 4096"
  shows "copied m d x src k (\<lambda>a. if b \<le> a \<and> a < b + k then src (a - b) else m a)"
proof -
  have pl: "user_place m d (x + i) = b + i" if "i < k" for i
  proof -
    have "x mod 4096 + i < 4096" using that k by simp
    then have "(x + i) mod 4096 = x mod 4096 + i" "(x + i) div 4096 = x div 4096"
      using mod_add_left_eq [of x 4096 i] div_add1_eq [of x i 4096] by (auto simp: mod_less)
    then show ?thesis by (simp add: user_place_def frame_of_def b)
  qed
  moreover have "a = b + (a - b) \<and> a - b < k" if "b \<le> a" "a < b + k" for a using that by simp
  ultimately show ?thesis unfolding copied_def by (force simp: image_iff)
qed

lemma user_place_frame:
  assumes "\<And>v. v < 1048576 \<Longrightarrow> pt_lookup m' d v = pt_lookup m d v" "x < 2 ^ 32"
  shows "user_place m' d x = user_place m d x" "user_mapped m' d x = user_mapped m d x"
proof -
  have "x div 4096 < 1048576" using assms(2) by simp
  then show "user_place m' d x = user_place m d x" "user_mapped m' d x = user_mapped m d x"
    using assms(1) by (simp_all add: user_place_def user_mapped_def frame_of_def)
qed

lemma copyout_loop_spec:
  assumes "pt_wf s d ps" and "unat va + unat len \<le> 2 ^ 32" and "unat len < n"
    and "\<And>i. i < unat len \<Longrightarrow> user_mapped (mem s) d (unat va + i)"
    and "\<And>i. i < unat len \<Longrightarrow> user_place (mem s) d (unat va + i) \<notin> pt_area (mem s) d"
    and "inj_on (\<lambda>i. user_place (mem s) d (unat va + i)) {..< unat len}"
  shows "\<exists>m'. copyout_loop n d va src len s = Ret 0 (s\<lparr>mem := m'\<rparr>) \<and> copied (mem s) d (unat va) src (unat len) m'"
  using assms
proof (induction n arbitrary: s va src len)
  case (Suc n)
  show ?case
  proof (cases "len = 0")
    case True
    then show ?thesis by (intro exI [of _ "mem s"]) (simp add: copied_def)
  next
    case False
    let ?x = "unat va" and ?l = "unat len" and ?m = "mem s"
    define off where "off = ?x mod 4096"
    define k where "k = (if 4096 - off > ?l then ?l else 4096 - off)"
    have l: "0 < ?l" using False by (simp add: unat_gt_0)
    have off: "off < 4096" by (simp add: off_def)
    have k: "0 < k" "k \<le> ?l" "off + k \<le> 4096" using l off by (auto simp: k_def)
    let ?va0 = "PGROUNDDOWN va"
    have vo: "unat (va - ?va0) = off"
    proof -
      have "unat ?va0 + off = ?x" by (simp add: unat_PGROUNDDOWN off_def)
      then have "?va0 \<le> va" by (simp add: word_le_nat_alt)
      then show ?thesis using \<open>unat ?va0 + off = ?x\<close> by (simp add: unat_sub)
    qed
    have "unat (PGSIZE - (va - ?va0)) = 4096 - off"
      using vo off by (simp add: PGSIZE_def unat_sub word_le_nat_alt)
    then have kw: "unat (if PGSIZE - (va - ?va0) > len then len else PGSIZE - (va - ?va0)) = k"
      by (simp add: k_def word_less_nat_alt)
    define kk where "kk = (if PGSIZE - (va - ?va0) > len then len else PGSIZE - (va - ?va0))"
    let ?b = "unat (frame_of ?m d ?x) + off"
    let ?m1 = "\<lambda>a. if ?b \<le> a \<and> a < ?b + k then src (a - ?b) else ?m a"
    let ?s1 = "s\<lparr>mem := ?m1\<rparr>"
    have c1: "copied ?m d ?x src k ?m1" by (rule copied_chunk) (use k(3) in \<open>simp_all add: off_def\<close>)
    have ka: "uva2ka d ?va0 s = Ret (frame_of ?m d ?x) s" "frame_of ?m d ?x \<noteq> 0"
      using uva2ka_mapped [OF Suc.prems(1)] Suc.prems(4) [OF l] by (simp_all add: user_mapped_def)
    have "copyout_loop (Suc n) d va src len s = copyout_loop n d (?va0 + PGSIZE) (\<lambda>i. src (k + i)) (len - kk) ?s1"
      using False ka kw unat_frame_add [of "va - ?va0" ?m d ?x] vo off
      by (simp add: word_gt_0 Let_def kwrite_bytes_def cong: if_cong flip: kk_def)
    moreover have agree: "?m1 a = ?m a" if "a \<in> pt_area ?m d" for a
    proof -
      have "a \<notin> (\<lambda>i. user_place ?m d (?x + i)) ` {..< k}" using Suc.prems(5) k(2) that by auto
      then show ?thesis using c1 by (simp add: copied_def)
    qed
    note pf = pt_frame [OF Suc.prems(1) agree]
    have ul: "unat (len - kk) = ?l - k" using kw k(2) by (simp add: kk_def unat_sub word_le_nat_alt)
    have same: "user_place ?m1 d (?x + i) = user_place ?m d (?x + i)" "user_mapped ?m1 d (?x + i) = user_mapped ?m d (?x + i)"
      if "i < ?l" for i
      using user_place_frame [OF pf(2), of "?x + i"] that Suc.prems(2) by simp_all
    have "\<exists>m'. copyout_loop n d (?va0 + PGSIZE) (\<lambda>i. src (k + i)) (len - kk) ?s1 = Ret 0 (?s1\<lparr>mem := m'\<rparr>)
        \<and> copied ?m1 d (?x + k) (\<lambda>i. src (k + i)) (?l - k) m'"
    proof (cases "k = ?l")
      case True
      then have "len - kk = 0" using ul by (simp add: unat_eq_zero)
      moreover obtain n' where "n = Suc n'" using Suc.prems(3) l by (cases n) auto
      ultimately show ?thesis using True by (intro exI [of _ ?m1]) (simp add: copied_def)
    next
      case False
      then have kk: "k = 4096 - off" "k < ?l" using k(2) by (auto simp: k_def split: if_splits)
      have "unat ?va0 + 4096 = ?x + k" using kk(1) off by (simp add: unat_PGROUNDDOWN off_def minus_mod_eq_div_mult [symmetric])
      then have nx: "unat (?va0 + PGSIZE) = ?x + k"
        using Suc.prems(2) kk(2) by (subst unat_add_page) auto
      have "\<exists>m'. copyout_loop n d (?va0 + PGSIZE) (\<lambda>i. src (k + i)) (len - kk) ?s1 = Ret 0 (?s1\<lparr>mem := m'\<rparr>)
          \<and> copied (mem ?s1) d (unat (?va0 + PGSIZE)) (\<lambda>i. src (k + i)) (unat (len - kk)) m'"
      proof (rule Suc.IH)
        show "pt_wf ?s1 d ps" by (rule pf(1))
        show "unat (?va0 + PGSIZE) + unat (len - kk) \<le> 2 ^ 32" using nx ul Suc.prems(2) k(2) by simp
        show "unat (len - kk) < n" using ul k(1) Suc.prems(3) l by simp
        fix i
        assume "i < unat (len - kk)"
        then have i: "k + i < ?l" using ul by simp
        show "user_mapped (mem ?s1) d (unat (?va0 + PGSIZE) + i)"
          using Suc.prems(4) [OF i] same(2) [OF i] by (simp add: nx add.assoc)
        show "user_place (mem ?s1) d (unat (?va0 + PGSIZE) + i) \<notin> pt_area (mem ?s1) d"
          using Suc.prems(5) [OF i] same(1) [OF i] pf(3) by (simp add: nx add.assoc)
      next
        show "inj_on (\<lambda>i. user_place (mem ?s1) d (unat (?va0 + PGSIZE) + i)) {..< unat (len - kk)}"
        proof (rule inj_onI)
          fix i j
          assume ij: "i \<in> {..< unat (len - kk)}" "j \<in> {..< unat (len - kk)}"
            "user_place (mem ?s1) d (unat (?va0 + PGSIZE) + i) = user_place (mem ?s1) d (unat (?va0 + PGSIZE) + j)"
          then have b: "k + i < ?l" "k + j < ?l" using ul by simp_all
          then have "user_place ?m d (?x + (k + i)) = user_place ?m d (?x + (k + j))"
            using ij(3) same(1) [OF b(1)] same(1) [OF b(2)] by (simp add: nx add.assoc)
          then show "i = j" using inj_onD [OF Suc.prems(6), of "k + i" "k + j"] b by simp
        qed
      qed
      then show ?thesis by (simp add: nx ul)
    qed
    moreover have "copied ?m d ?x src ?l m'" if "copied ?m1 d (?x + k) (\<lambda>i. src (k + i)) (?l - k) m'" for m'
      using copied_step [OF c1 that] same(1) Suc.prems(6) k(2) by simp
    ultimately show ?thesis by auto
  qed
qed simp

text \<open>
  C10: \<open>copyout\<close> to addresses that the page table maps for the user copies exactly the given bytes to the places
  of these addresses, over page boundaries and frames in any order, returns 0 and changes no other byte of the memory.
\<close>

theorem copyout_copies:
  assumes "pt_wf s d ps" and "unat va + unat len \<le> 2 ^ 32"
    and "\<And>i. i < unat len \<Longrightarrow> user_mapped (mem s) d (unat va + i)"
    and "\<And>i. i < unat len \<Longrightarrow> user_place (mem s) d (unat va + i) \<notin> pt_area (mem s) d"
    and "inj_on (\<lambda>i. user_place (mem s) d (unat va + i)) {..< unat len}"
  shows "\<exists>m'. copyout d va src len s = Ret 0 (s\<lparr>mem := m'\<rparr>) \<and> copied (mem s) d (unat va) src (unat len) m'"
  unfolding copyout_def by (rule copyout_loop_spec [OF assms(1,2) _ assms(3-5)]) simp

lemma user_example_pt:
  "pt_wf user_example 0x80400000 []" "pt_lookup (mem user_example) 0x80400000 5 = Some 0x500007"
proof -
  have only: "i = 0" if "i < 1024" "pde_present (mem user_example) 0x80400000 i" for i
    using that user_example_words(2) [of i] by (cases "i = 0") (auto simp: pde_present_def)
  have pg: "pgtab_of (mem user_example) 0x80400000 0 = 0x80401000"
    by (simp add: pgtab_of_def user_example_words P2V_def PTE_ADDR_def KERNBASE_def)
  have kp: "kpage user_example 0x80400000" "kpage user_example 0x80401000"
    by (simp_all add: kpage_def page_aligned_def user_example_def pt_example_def boot_kernel_def V2P_def layout_defs PGSIZE_def)
  have "kpage user_example (pgtab_of (mem user_example) 0x80400000 i) \<and> pgtab_of (mem user_example) 0x80400000 i \<noteq> 0x80400000"
    if "i < 1024" "pde_present (mem user_example) 0x80400000 i" for i
    using only [OF that] pg kp by simp
  moreover have "inj_on (pgtab_of (mem user_example) 0x80400000) {i. i < 1024 \<and> pde_present (mem user_example) 0x80400000 i}"
    by (rule inj_onI) (metis (mono_tags, lifting) mem_Collect_eq only)
  ultimately show "pt_wf user_example 0x80400000 []" unfolding pt_wf_def using kp(1) by simp
  show "pt_lookup (mem user_example) 0x80400000 5 = Some 0x500007"
    using pg by (simp add: pt_lookup_def pde_present_def user_example_words PTE_P_def)
qed

theorem copyout_copies_witness:
  "\<exists>m'. copyout 0x80400000 0x5000 (\<lambda>i. 7) 3 user_example = Ret 0 (user_example\<lparr>mem := m'\<rparr>) \<and>
     m' 0x80500000 = 7 \<and> m' 0x80500002 = 7"
proof -
  let ?m = "mem user_example" and ?d = "0x80400000 :: u32"
  have fr: "frame_of ?m ?d (0x5000 + i) = 0x80500000" if "i < 3" for i
  proof -
    have "(0x5000 + i) div 4096 = 5" using that by simp
    then show ?thesis using user_example_pt(2) by (simp add: frame_of_def PTE_ADDR_def P2V_def KERNBASE_def)
  qed
  have pl: "user_place ?m ?d (0x5000 + i) = 0x80500000 + i" if "i < 3" for i
  proof -
    have "(0x5000 + i) mod 4096 = i" using that by (auto simp: numeral_3_eq_3 less_Suc_eq)
    then show ?thesis using fr [OF that] by (simp add: user_place_def)
  qed
  have "user_mapped ?m ?d (0x5000 + i)" if "i < 3" for i
  proof -
    have "(0x5000 + i) div 4096 = 5" using that by simp
    then show ?thesis using fr [OF that] user_example_pt(2) by (simp add: user_mapped_def PTE_U_def)
  qed
  moreover have "user_place ?m ?d (0x5000 + i) \<notin> pt_area ?m ?d" if "i < 3" for i
    using user_example_area pl [OF that] by force
  moreover have "inj_on (\<lambda>i. user_place ?m ?d (0x5000 + i)) {..< 3}" using pl by (auto simp: inj_on_def)
  ultimately obtain m' where m': "copyout ?d 0x5000 (\<lambda>i. 7) 3 user_example = Ret 0 (user_example\<lparr>mem := m'\<rparr>)"
      "copied ?m ?d 0x5000 (\<lambda>i. 7) 3 m'"
    using copyout_copies [OF user_example_pt(1), of "0x5000" 3 "\<lambda>i. 7"] by auto
  have "m' (user_place ?m ?d (0x5000 + i)) = 7" if "i < 3" for i using m'(2) that by (simp add: copied_def)
  from this [of 0] this [of 2] show ?thesis using m'(1) pl [of 0] pl [of 2] by auto
qed

end
