(* ===== verification/Spec2Isabelle.thy ===== *)
theory Spec2Isabelle
  imports Sharing Clone Spinlock Pipes Lines Crash Copyout
begin

text \<open>
  Verification of the xv6 kernel with kernel threads.
\<close>

end
